(* ===== verification/Prelude.thy ===== *)
theory Prelude
  imports Main "HOL-Library.Word"
begin

text \<open>
  Shared vocabulary of the development: bytes, the ways a C function of this library can
  stop, and a small state-and-error monad in which the function bodies are written.

  A computation threads a state of two parts. \<open>loc\<close> is whatever the function mutates through
  a pointer argument (a session, an output buffer). \<open>faults\<close> is the schedule of operational
  failures: every call that can fail for a reason outside its arguments (malloc, realloc,
  RNG seeding, an mbedTLS primitive) consumes one entry, \<open>True\<close> meaning that this call fails;
  an exhausted schedule means that no further call fails. So \<open>faults w = []\<close> is the run in
  which nothing goes wrong operationally, and quantifying over all schedules covers a failure
  at every point of the run.

  A function stops with \<open>Minus1\<close> or \<open>Minus2\<close> (the C return values -1 and -2), with
  \<open>Undefined\<close> (undefined behaviour: a read or write outside a buffer, a use of an
  indeterminate pointer) or with \<open>Diverges\<close> (a loop that never ends).
\<close>

type_synonym u8 = "8 word"
type_synonym bytes = "u8 list"

datatype stop = Minus1 | Minus2 | Undefined | Diverges

record 'x st =
  faults :: "bool list"
  loc :: 'x

type_synonym ('x, 'a) cm = "'x st \<Rightarrow> (stop + 'a) \<times> 'x st"

named_theorems cm_defs \<open>definitions of the monad's operations\<close>
named_theorems cm_run \<open>what a successful or failed run of an operation says\<close>
named_theorems keeps_intros \<open>operations that keep the caller's memory\<close>
named_theorems wp_simps \<open>weakest preconditions\<close>

definition ret :: "'a \<Rightarrow> ('x, 'a) cm" where
  "ret x w = (Inr x, w)"

definition stop_with :: "stop \<Rightarrow> ('x, 'a) cm" where
  "stop_with e w = (Inl e, w)"

definition bnd :: "('x, 'a) cm \<Rightarrow> ('a \<Rightarrow> ('x, 'b) cm) \<Rightarrow> ('x, 'b) cm" where
  "bnd m k w = (case m w of (Inl e, w') \<Rightarrow> (Inl e, w') | (Inr x, w') \<Rightarrow> k x w')"

definition ensure :: "bool \<Rightarrow> stop \<Rightarrow> ('x, unit) cm" where
  "ensure b e = (if b then ret () else stop_with e)"

text \<open>\<open>if (f(...) != 0) goto out;\<close> with the caller's own return code \<open>e\<close> in place of
  whichever negative code \<open>f\<close> gave.\<close>

definition recode :: "stop \<Rightarrow> ('x, 'a) cm \<Rightarrow> ('x, 'a) cm" where
  "recode e m w = (case m w of
       (Inl c, w') \<Rightarrow> (Inl (if c = Minus1 \<or> c = Minus2 then e else c), w')
     | (Inr x, w') \<Rightarrow> (Inr x, w'))"

definition get_loc :: "('x, 'x) cm" where
  "get_loc w = (Inr (loc w), w)"

definition set_loc :: "'x \<Rightarrow> ('x, unit) cm" where
  "set_loc x w = (Inr (), w\<lparr>loc := x\<rparr>)"

definition modify :: "('x \<Rightarrow> 'x) \<Rightarrow> ('x, unit) cm" where
  "modify f = bnd get_loc (\<lambda>x. set_loc (f x))"

text \<open>A call that leaves the model: it may fail operationally, and its result may be refused.\<close>

definition faulty :: "'x st \<Rightarrow> bool" where
  "faulty w \<longleftrightarrow> faults w \<noteq> [] \<and> hd (faults w)"

definition tick :: "'x st \<Rightarrow> 'x st" where
  "tick w = w\<lparr>faults := tl (faults w)\<rparr>"

definition ext :: "stop \<Rightarrow> 'a option \<Rightarrow> ('x, 'a) cm" where
  "ext e v w =
     (if faulty w then (Inl e, tick w)
      else case v of None \<Rightarrow> (Inl e, tick w) | Some x \<Rightarrow> (Inr x, tick w))"

definition malloc :: "stop \<Rightarrow> nat \<Rightarrow> ('x, unit) cm" where
  "malloc e n = ext e (Some ())"

definition lift_opt :: "stop \<Rightarrow> 'a option \<Rightarrow> ('x, 'a) cm" where
  "lift_opt e v = (case v of None \<Rightarrow> stop_with e | Some x \<Rightarrow> ret x)"

text \<open>A call whose failure the caller remembers and goes on from: \<open>int ok = f(...) == 0;\<close>.\<close>

definition attempt :: "('x, 'a) cm \<Rightarrow> ('x, 'a option) cm" where
  "attempt m w = (case m w of
       (Inl c, w') \<Rightarrow> (if c = Minus1 \<or> c = Minus2 then Inr None else Inl c, w')
     | (Inr x, w') \<Rightarrow> (Inr (Some x), w'))"

text \<open>Run \<open>m\<close> on a local variable of the caller; the result carries its final value.\<close>

definition nested :: "'y \<Rightarrow> ('y, 'a) cm \<Rightarrow> ('x, 'a \<times> 'y) cm" where
  "nested y m w = (case m \<lparr>faults = faults w, loc = y\<rparr> of
       (Inl e, v) \<Rightarrow> (Inl e, w\<lparr>faults := faults v\<rparr>)
     | (Inr x, v) \<Rightarrow> (Inr (x, loc v), w\<lparr>faults := faults v\<rparr>))"

text \<open>Cleanup on the failing path: the code after the \<open>out:\<close> label that runs when \<open>ret != 0\<close>.\<close>

definition on_stop :: "('x, 'a) cm \<Rightarrow> ('x \<Rightarrow> 'x) \<Rightarrow> ('x, 'a) cm" where
  "on_stop m f w = (case m w of
       (Inl e, w') \<Rightarrow> (Inl e, w'\<lparr>loc := f (loc w')\<rparr>)
     | (Inr x, w') \<Rightarrow> (Inr x, w'))"

text \<open>A loop over a list that collects one result per element.\<close>

fun map_cm :: "('a \<Rightarrow> ('x, 'b) cm) \<Rightarrow> 'a list \<Rightarrow> ('x, 'b list) cm" where
  "map_cm f [] = ret []"
| "map_cm f (x # xs) = bnd (f x) (\<lambda>y. bnd (map_cm f xs) (\<lambda>ys. ret (y # ys)))"

text \<open>Memory reads; outside the buffer they are undefined behaviour.\<close>

definition rd :: "bytes \<Rightarrow> nat \<Rightarrow> ('x, u8) cm" where
  "rd buf i = (if i < length buf then ret (buf ! i) else stop_with Undefined)"

definition rd_block :: "bytes \<Rightarrow> nat \<Rightarrow> nat \<Rightarrow> ('x, bytes) cm" where
  "rd_block buf off n =
     (if off + n \<le> length buf then ret (take n (drop off buf)) else stop_with Undefined)"

text \<open>A pointer argument that travels with a length: NULL with some length, or a buffer of
  exactly that length.\<close>

datatype cbuf = Null nat | Buf bytes

fun clen :: "cbuf \<Rightarrow> nat" where
  "clen (Null n) = n"
| "clen (Buf b) = length b"

fun cdata :: "cbuf \<Rightarrow> bytes" where
  "cdata (Null n) = []"
| "cdata (Buf b) = b"

fun is_null :: "cbuf \<Rightarrow> bool" where
  "is_null (Null n) = True"
| "is_null (Buf b) = False"

definition size_max :: nat where
  "size_max = 2 ^ 64 - 1"

text \<open>Subtraction on a 64-bit \<open>size_t\<close>, which wraps.\<close>

definition size_sub :: "nat \<Rightarrow> nat \<Rightarrow> nat" where
  "size_sub a b = (if b \<le> a then a - b else a + 2 ^ 64 - b)"

lemma size_sub_le [simp]: "b \<le> a \<Longrightarrow> size_sub a b = a - b"
  by (simp add: size_sub_def)

declare ret_def [cm_defs] stop_with_def [cm_defs] bnd_def [cm_defs] ensure_def [cm_defs]
  recode_def [cm_defs] get_loc_def [cm_defs] set_loc_def [cm_defs] modify_def [cm_defs] malloc_def [cm_defs]
  lift_opt_def [cm_defs] nested_def [cm_defs] on_stop_def [cm_defs] attempt_def [cm_defs] rd_def [cm_defs] rd_block_def [cm_defs]

section \<open>Running a computation\<close>

lemma st_same [simp]: "loc w = x \<Longrightarrow> w\<lparr>loc := x\<rparr> = w"
  by auto

lemma st_same_faults [simp]: "faults w = bs \<Longrightarrow> w\<lparr>faults := bs\<rparr> = w"
  "faults w = bs \<Longrightarrow> w\<lparr>loc := x, faults := bs\<rparr> = w\<lparr>loc := x\<rparr>"
  by auto

lemma no_fault [simp]: "faults w = [] \<Longrightarrow> \<not> faulty w" "faults w = [] \<Longrightarrow> tick w = w"
  by (simp_all add: faulty_def tick_def)

lemma loc_tick [simp]: "loc (tick w) = loc w" "(tick w)\<lparr>loc := x\<rparr> = tick (w\<lparr>loc := x\<rparr>)"
  by (simp_all add: tick_def)

lemma ext_ok [simp]: "faults w = [] \<Longrightarrow> ext e (Some x) w = (Inr x, w)"
  by (simp add: ext_def)

lemma ext_refused [simp]: "faults w = [] \<Longrightarrow> ext e None w = (Inl e, w)"
  by (simp add: ext_def)

lemma malloc_ok [simp]: "faults w = [] \<Longrightarrow> malloc e n w = (Inr (), w)"
  by (simp add: malloc_def)

lemma ret_run [cm_run]: "ret x w = (r, w') \<longleftrightarrow> r = Inr x \<and> w' = w"
  by (auto simp: ret_def)

lemma stop_run [cm_run]: "stop_with e w = (r, w') \<longleftrightarrow> r = Inl e \<and> w' = w"
  by (auto simp: stop_with_def)

lemma bnd_Inr [cm_run]:
  "bnd m k w = (Inr y, w'') \<longleftrightarrow> (\<exists>x w'. m w = (Inr x, w') \<and> k x w' = (Inr y, w''))"
  by (auto simp: bnd_def split: prod.splits sum.splits)

lemma bnd_Inl [cm_run]:
  "bnd m k w = (Inl e, w'') \<longleftrightarrow>
     m w = (Inl e, w'') \<or> (\<exists>x w'. m w = (Inr x, w') \<and> k x w' = (Inl e, w''))"
  by (auto simp: bnd_def split: prod.splits sum.splits)

lemma ensure_Inr [cm_run]: "ensure b e w = (Inr u, w') \<longleftrightarrow> b \<and> w' = w"
  by (auto simp: ensure_def ret_def stop_with_def)

lemma ensure_Inl [cm_run]: "ensure b e w = (Inl c, w') \<longleftrightarrow> \<not> b \<and> c = e \<and> w' = w"
  by (auto simp: ensure_def ret_def stop_with_def)

lemma recode_Inr [cm_run]: "recode e m w = (Inr x, w') \<longleftrightarrow> m w = (Inr x, w')"
  by (auto simp: recode_def split: prod.splits sum.splits)

lemma recode_Inl [cm_run]:
  "recode e m w = (Inl c, w') \<longleftrightarrow>
     (\<exists>d. m w = (Inl d, w') \<and> c = (if d = Minus1 \<or> d = Minus2 then e else d))"
  by (auto simp: recode_def split: prod.splits sum.splits)

lemma ext_Inr [cm_run]:
  "ext e v w = (Inr x, w') \<longleftrightarrow>
     v = Some x \<and> \<not> faulty w \<and> w' = tick w"
  by (auto simp: ext_def split: option.splits)

lemma ext_Inl [cm_run]:
  "ext e v w = (Inl c, w') \<longleftrightarrow>
     c = e \<and> (v = None \<or> faulty w) \<and> w' = tick w"
  by (auto simp: ext_def split: option.splits)

lemma malloc_Inr [cm_run]:
  "malloc e n w = (Inr u, w') \<longleftrightarrow> \<not> faulty w \<and> w' = tick w"
  by (auto simp: malloc_def ext_Inr)

lemma malloc_Inl [cm_run]:
  "malloc e n w = (Inl c, w') \<longleftrightarrow> c = e \<and> faulty w \<and> w' = tick w"
  by (auto simp: malloc_def ext_Inl)

lemma lift_opt_Inr [cm_run]: "lift_opt e v w = (Inr x, w') \<longleftrightarrow> v = Some x \<and> w' = w"
  by (auto simp: lift_opt_def ret_def stop_with_def split: option.splits)

lemma lift_opt_Inl [cm_run]: "lift_opt e v w = (Inl c, w') \<longleftrightarrow> v = None \<and> c = e \<and> w' = w"
  by (auto simp: lift_opt_def ret_def stop_with_def split: option.splits)

lemma get_loc_run [cm_run]: "get_loc w = (r, w') \<longleftrightarrow> r = Inr (loc w) \<and> w' = w"
  by (auto simp: get_loc_def)

lemma set_loc_run [cm_run]: "set_loc x w = (r, w') \<longleftrightarrow> r = Inr () \<and> w' = w\<lparr>loc := x\<rparr>"
  by (auto simp: set_loc_def)

lemma modify_run [cm_run]: "modify f w = (r, w') \<longleftrightarrow> r = Inr () \<and> w' = w\<lparr>loc := f (loc w)\<rparr>"
  by (auto simp: modify_def bnd_def get_loc_def set_loc_def)

lemma rd_Inr [cm_run]: "rd buf i w = (Inr b, w') \<longleftrightarrow> i < length buf \<and> b = buf ! i \<and> w' = w"
  by (auto simp: rd_def ret_def stop_with_def)

lemma rd_block_Inr [cm_run]:
  "rd_block buf off n w = (Inr b, w') \<longleftrightarrow>
     off + n \<le> length buf \<and> b = take n (drop off buf) \<and> w' = w"
  by (auto simp: rd_block_def ret_def stop_with_def)

lemma attempt_Inr [cm_run]:
  "attempt m w = (Inr r, w') \<longleftrightarrow>
     (case r of Some x \<Rightarrow> m w = (Inr x, w') | None \<Rightarrow> m w = (Inl Minus1, w') \<or> m w = (Inl Minus2, w'))"
  by (auto simp: attempt_def split: prod.splits sum.splits option.splits)

lemma attempt_Inl [cm_run]:
  "attempt m w = (Inl e, w') \<longleftrightarrow> m w = (Inl e, w') \<and> e \<noteq> Minus1 \<and> e \<noteq> Minus2"
  by (auto simp: attempt_def split: prod.splits sum.splits)

lemma nested_Inr [cm_run]:
  "nested y m w = (Inr p, w') \<longleftrightarrow>
     (\<exists>v. m \<lparr>faults = faults w, loc = y\<rparr> = (Inr (fst p), v) \<and> snd p = loc v \<and>
          w' = w\<lparr>faults := faults v\<rparr>)"
  by (cases p) (auto simp: nested_def split: prod.splits sum.splits)

lemma nested_Inl [cm_run]:
  "nested y m w = (Inl e, w') \<longleftrightarrow>
     (\<exists>v. m \<lparr>faults = faults w, loc = y\<rparr> = (Inl e, v) \<and> w' = w\<lparr>faults := faults v\<rparr>)"
  by (auto simp: nested_def split: prod.splits sum.splits)

lemma on_stop_Inr [cm_run]: "on_stop m f w = (Inr x, w') \<longleftrightarrow> m w = (Inr x, w')"
  by (auto simp: on_stop_def split: prod.splits sum.splits)

lemma on_stop_Inl [cm_run]:
  "on_stop m f w = (Inl e, w') \<longleftrightarrow> (\<exists>v. m w = (Inl e, v) \<and> w' = v\<lparr>loc := f (loc v)\<rparr>)"
  by (auto simp: on_stop_def split: prod.splits sum.splits)

section \<open>Weakest preconditions\<close>

text \<open>\<open>wp m Q E w\<close>: run from \<open>w\<close>, \<open>m\<close> either succeeds in a state that satisfies \<open>Q\<close> or
  stops in one that satisfies \<open>E\<close>. Every operation of the monad has an equation, so a proof
  about a function body is a simplification followed by the facts of the functions it calls.\<close>

definition wp ::
  "('x, 'a) cm \<Rightarrow> ('a \<Rightarrow> 'x st \<Rightarrow> bool) \<Rightarrow> (stop \<Rightarrow> 'x st \<Rightarrow> bool) \<Rightarrow> 'x st \<Rightarrow> bool" where
  "wp m Q E w = (case m w of (Inl e, w') \<Rightarrow> E e w' | (Inr x, w') \<Rightarrow> Q x w')"

lemma wp_ret [wp_simps]: "wp (ret x) Q E w = Q x w"
  by (simp add: wp_def ret_def)

lemma wp_stop [wp_simps]: "wp (stop_with e) Q E w = E e w"
  by (simp add: wp_def stop_with_def)

lemma wp_bnd [wp_simps]: "wp (bnd m k) Q E w = wp m (\<lambda>x. wp (k x) Q E) E w"
  by (auto simp: wp_def bnd_def split: prod.splits sum.splits)

lemma wp_ensure [wp_simps]: "wp (ensure b e) Q E w = (if b then Q () w else E e w)"
  by (simp add: ensure_def wp_ret wp_stop)

lemma wp_if [wp_simps]: "wp (if b then m else n) Q E w = (if b then wp m Q E w else wp n Q E w)"
  by simp

lemma wp_recode [wp_simps]:
  "wp (recode e m) Q E w = wp m Q (\<lambda>c. E (if c = Minus1 \<or> c = Minus2 then e else c)) w"
  by (auto simp: wp_def recode_def split: prod.splits sum.splits)

lemma wp_get [wp_simps]: "wp get_loc Q E w = Q (loc w) w"
  by (simp add: wp_def get_loc_def)

lemma wp_set [wp_simps]: "wp (set_loc x) Q E w = Q () (w\<lparr>loc := x\<rparr>)"
  by (simp add: wp_def set_loc_def)

lemma wp_modify [wp_simps]: "wp (modify f) Q E w = Q () (w\<lparr>loc := f (loc w)\<rparr>)"
  by (simp add: modify_def wp_bnd wp_get wp_set)

lemma wp_lift_opt [wp_simps]:
  "wp (lift_opt e v) Q E w = (case v of None \<Rightarrow> E e w | Some x \<Rightarrow> Q x w)"
  by (auto simp: lift_opt_def wp_ret wp_stop split: option.splits)

lemma wp_rd [wp_simps]:
  "wp (rd buf i) Q E w = (if i < length buf then Q (buf ! i) w else E Undefined w)"
  by (simp add: rd_def wp_ret wp_stop)

lemma wp_rd_block [wp_simps]:
  "wp (rd_block buf off n) Q E w =
     (if off + n \<le> length buf then Q (take n (drop off buf)) w else E Undefined w)"
  by (simp add: rd_block_def wp_ret wp_stop)

lemma wp_ext [wp_simps]:
  "wp (ext e v) Q E w =
     (if faulty w then E e (tick w)
      else case v of None \<Rightarrow> E e (tick w) | Some x \<Rightarrow> Q x (tick w))"
  by (auto simp: wp_def ext_def split: option.splits)

lemma wp_malloc [wp_simps]:
  "wp (malloc e n) Q E w = (if faulty w then E e (tick w) else Q () (tick w))"
  by (simp add: malloc_def wp_ext)

lemma wp_nested [wp_simps]:
  "wp (nested y m) Q E w =
     wp m (\<lambda>x v. Q (x, loc v) (w\<lparr>faults := faults v\<rparr>)) (\<lambda>e v. E e (w\<lparr>faults := faults v\<rparr>))
       \<lparr>faults = faults w, loc = y\<rparr>"
  by (auto simp: wp_def nested_def split: prod.splits sum.splits)

lemma wp_attempt [wp_simps]:
  "wp (attempt m) Q E w =
     wp m (\<lambda>x. Q (Some x)) (\<lambda>c. if c = Minus1 \<or> c = Minus2 then Q None else E c) w"
  by (auto simp: wp_def attempt_def split: prod.splits sum.splits)

lemma wp_on_stop [wp_simps]:
  "wp (on_stop m f) Q E w = wp m Q (\<lambda>e w'. E e (w'\<lparr>loc := f (loc w')\<rparr>)) w"
  by (auto simp: wp_def on_stop_def split: prod.splits sum.splits)

lemma wp_mono:
  assumes "wp m Q E w" "\<And>x w'. Q x w' \<Longrightarrow> Q' x w'" "\<And>e w'. E e w' \<Longrightarrow> E' e w'"
  shows "wp m Q' E' w"
  using assms by (auto simp: wp_def split: prod.splits sum.splits)

lemma wp_Inr: "wp m Q E w \<Longrightarrow> m w = (Inr x, w') \<Longrightarrow> Q x w'"
  by (simp add: wp_def)

lemma wp_Inl: "wp m Q E w \<Longrightarrow> m w = (Inl e, w') \<Longrightarrow> E e w'"
  by (simp add: wp_def)

lemma wpI:
  assumes "\<And>x w'. m w = (Inr x, w') \<Longrightarrow> Q x w'" "\<And>e w'. m w = (Inl e, w') \<Longrightarrow> E e w'"
  shows "wp m Q E w"
  using assms by (auto simp: wp_def split: prod.splits sum.splits)

section \<open>Computations that leave the caller's memory alone\<close>

definition keeps :: "('x, 'a) cm \<Rightarrow> bool" where
  "keeps m \<longleftrightarrow> (\<forall>w. loc (snd (m w)) = loc w)"

lemma keepsD: "keeps m \<Longrightarrow> m w = (r, w') \<Longrightarrow> loc w' = loc w"
  unfolding keeps_def by (metis snd_conv)

lemma keepsI: "(\<And>w r w'. m w = (r, w') \<Longrightarrow> loc w' = loc w) \<Longrightarrow> keeps m"
  unfolding keeps_def by (metis prod.collapse)

lemma keeps_basic [keeps_intros]:
  "keeps (ret x)" "keeps (stop_with e)" "keeps (ensure b e)" "keeps (ext e v)" "keeps (malloc e n)"
  "keeps (lift_opt e v)" "keeps get_loc" "keeps (rd buf i)" "keeps (rd_block buf i n)" "keeps (nested y m)"
  by (auto simp: keeps_def ret_def stop_with_def ensure_def ext_def malloc_def lift_opt_def get_loc_def
      rd_def rd_block_def nested_def split: option.splits prod.splits sum.splits)

lemma keeps_bnd [keeps_intros]: "keeps m \<Longrightarrow> (\<And>x. keeps (k x)) \<Longrightarrow> keeps (bnd m k)"
  unfolding keeps_def bnd_def by (metis (mono_tags, lifting) old.sum.simps(5,6) prod.case prod.collapse snd_conv obj_sumE)

lemma keeps_recode [keeps_intros]: "keeps m \<Longrightarrow> keeps (recode e m)"
  by (auto simp: keeps_def recode_def split: prod.splits sum.splits) (metis snd_conv)+

lemma keeps_attempt [keeps_intros]: "keeps m \<Longrightarrow> keeps (attempt m)"
  by (auto simp: keeps_def attempt_def split: prod.splits sum.splits) (metis snd_conv)+

lemma keeps_if [keeps_intros]: "keeps m \<Longrightarrow> keeps n \<Longrightarrow> keeps (if b then m else n)"
  by simp

lemma keeps_case [keeps_intros]:
  "(\<And>a b. keeps (f a b)) \<Longrightarrow> keeps (case p of (a, b) \<Rightarrow> f a b)"
  "keeps m \<Longrightarrow> (\<And>x. keeps (g x)) \<Longrightarrow> keeps (case v of None \<Rightarrow> m | Some x \<Rightarrow> g x)"
  by (simp_all split: prod.split option.split)

section \<open>Big-endian numbers\<close>

fun be_val :: "bytes \<Rightarrow> nat" where
  "be_val [] = 0"
| "be_val (b # bs) = unat b * 256 ^ length bs + be_val bs"

lemma be_val_append: "be_val (xs @ ys) = be_val xs * 256 ^ length ys + be_val ys"
  by (induction xs) (simp_all add: power_add algebra_simps)

lemma unat_u8_less [simp]: "unat (b :: u8) < 256"
  by (rule order_less_le_trans [OF unsigned_less]) simp

lemma be_val_bound: "be_val bs < 256 ^ length bs"
proof (induction bs)
  case Nil
  then show ?case by simp
next
  case (Cons b bs)
  have "unat b + 1 \<le> 256" using unat_u8_less [of b] by linarith
  then have "(unat b + 1) * 256 ^ length bs \<le> 256 * 256 ^ length bs"
    by (rule mult_le_mono1)
  then have "unat b * 256 ^ length bs + 256 ^ length bs \<le> 256 ^ length (b # bs)"
    by (simp only: add_mult_distrib mult_1 length_Cons power_Suc)
  with Cons show ?case unfolding be_val.simps by linarith
qed

lemma take_drop_append: "n = length xs \<Longrightarrow> take m (drop n (xs @ ys)) = take m ys"
  by simp

end
