(* ===== verification/Internal.thy ===== *)
theory Internal
  imports Prelude
begin

text \<open>
  The helpers of \<open>src/rsp_internal.h\<close>: the DER length octets that both the wire writer and the
  SCP03t MAC use, the growable byte buffer, and the fixed Host ID. The buffer's cells are
  \<open>u8 option\<close>: \<open>None\<close> is a cell of a fresh allocation that nothing has written yet.
  The locale \<open>byte_buffer\<close> is the contract the TLV writers rely on; it is interpreted on
  \<open>rsp_growbuf_append\<close> below.
\<close>

section \<open>The version\<close>

text \<open>\<open>src/src/rsp_version.c\<close>; the argument is what the build defines \<open>RSP_VERSION\<close> to be, if it does.\<close>

definition rsp_version :: "string option \<Rightarrow> string" where
  "rsp_version RSP_VERSION = (case RSP_VERSION of Some v \<Rightarrow> v | None \<Rightarrow> ''0.1'')"

section \<open>DER length octets\<close>

definition rsp_der_length_octets :: "nat \<Rightarrow> bytes option" where
  "rsp_der_length_octets len =
     (if len < 0x80 then Some [word_of_nat len]
      else if len \<le> 0xFF then Some [0x81, word_of_nat len]
      else if len \<le> 0xFFFF then
        Some [0x82, word_of_nat (drop_bit 8 len), word_of_nat len]
      else if len \<le> 0xFFFFFF then
        Some [0x83, word_of_nat (drop_bit 16 len), word_of_nat (drop_bit 8 len), word_of_nat len]
      else if len \<le> 0xFFFFFFFF then
        Some [0x84, word_of_nat (drop_bit 24 len), word_of_nat (drop_bit 16 len),
              word_of_nat (drop_bit 8 len), word_of_nat len]
      else None)"

text \<open>The reading side of X.690 8.1.3 in the definite forms: consumed octets and the length.\<close>

definition der_length_value :: "bytes \<Rightarrow> (nat \<times> nat) option" where
  "der_length_value bs = (case bs of [] \<Rightarrow> None
     | b # rest \<Rightarrow>
         if b < 0x80 then Some (1, unat b)
         else let n = unat (b - 0x80) in
           if n = 0 \<or> length rest < n then None else Some (1 + n, be_val (take n rest)))"

fun be_bytes :: "nat \<Rightarrow> nat \<Rightarrow> bytes" where
  "be_bytes 0 n = []"
| "be_bytes (Suc k) n = word_of_nat (n div 256 ^ k) # be_bytes k n"

definition RSP_HOST_ID :: bytes where
  "RSP_HOST_ID = [0x65, 0x75, 0x69, 0x63, 0x63, 0x2D, 0x72, 0x73, 0x70]"

section \<open>The growable buffer\<close>

record growbuf =
  gb_buf :: "u8 option list"
  gb_len :: nat
  gb_cap :: nat

definition empty_growbuf :: growbuf where
  "empty_growbuf = \<lparr>gb_buf = [], gb_len = 0, gb_cap = 0\<rparr>"

text \<open>\<open>while (newcap < need) newcap *= 2;\<close> on a 64-bit \<open>size_t\<close>; \<open>None\<close> when it never ends.\<close>

partial_function (option) grow_cap :: "nat \<Rightarrow> nat \<Rightarrow> nat option" where
  "grow_cap newcap need =
     (if newcap < need then grow_cap (newcap * 2 mod 2 ^ 64) need else Some newcap)"

declare grow_cap.simps [code]

text \<open>\<open>realloc\<close> to \<open>c\<close> cells keeps the old ones; \<open>memcpy(g->buf + g->len, data, n)\<close> and
  \<open>g->len += n\<close>, undefined when the cells are not there.\<close>

definition growbuf_realloc :: "growbuf \<Rightarrow> nat \<Rightarrow> growbuf" where
  "growbuf_realloc g c =
     g\<lparr>gb_buf := gb_buf g @ replicate (c - length (gb_buf g)) None, gb_cap := c\<rparr>"

definition growbuf_memcpy :: "growbuf \<Rightarrow> bytes \<Rightarrow> ('x, growbuf) cm" where
  "growbuf_memcpy g data =
     (let n = length data in
      if n = 0 then ret g
      else if gb_len g + n \<le> length (gb_buf g) then
        ret (g\<lparr>gb_buf := take (gb_len g) (gb_buf g) @ map Some data @ drop (gb_len g + n) (gb_buf g),
               gb_len := gb_len g + n\<rparr>)
      else stop_with Undefined)"

definition rsp_growbuf_append :: "growbuf \<Rightarrow> bytes \<Rightarrow> ('x, growbuf) cm" where
  "rsp_growbuf_append g data =
     (let need = (gb_len g + length data) mod 2 ^ 64 in
      bnd (if need > gb_cap g then
             bnd (lift_opt Diverges
                    (grow_cap (if gb_cap g \<noteq> 0 then gb_cap g * 2 mod 2 ^ 64 else 512) need)) (\<lambda>newcap.
             bnd (malloc Minus1 newcap) (\<lambda>_.
             ret (growbuf_realloc g newcap)))
           else ret g) (\<lambda>g'.
      growbuf_memcpy g' data))"

text \<open>What free() is handed, and the emptied struct.\<close>

definition rsp_growbuf_free :: "growbuf \<Rightarrow> u8 option list \<times> growbuf" where
  "rsp_growbuf_free g =
     ((if gb_buf g \<noteq> [] then replicate (gb_cap g) (Some 0) @ drop (gb_cap g) (gb_buf g)
       else gb_buf g),
      g\<lparr>gb_buf := [], gb_len := 0, gb_cap := 0\<rparr>)"

text \<open>The bytes a buffer holds, and the invariant every operation keeps.\<close>

definition gb_bytes :: "growbuf \<Rightarrow> bytes" where
  "gb_bytes g = map the (take (gb_len g) (gb_buf g))"

definition cap_shape :: "nat \<Rightarrow> bool" where
  "cap_shape c \<longleftrightarrow> c = 0 \<or> (\<exists>k. c = 512 * 2 ^ k)"

definition gb_ok :: "growbuf \<Rightarrow> bool" where
  "gb_ok g \<longleftrightarrow> length (gb_buf g) = gb_cap g \<and> gb_len g \<le> gb_cap g \<and>
     None \<notin> set (take (gb_len g) (gb_buf g)) \<and>
     cap_shape (gb_cap g) \<and> gb_cap g < 2 ^ 64"

text \<open>Appending several blocks in order, as a callback-driven encoder does.\<close>

fun append_blocks ::
  "('b \<Rightarrow> bytes \<Rightarrow> ('x, 'b) cm) \<Rightarrow> 'b \<Rightarrow> bytes list \<Rightarrow> ('x, 'b) cm" where
  "append_blocks app g [] = ret g"
| "append_blocks app g (d # ds) = bnd (app g d) (\<lambda>g'. append_blocks app g' ds)"

section \<open>The length rule is a minimal prefix code\<close>

lemma length_be_bytes [simp]: "length (be_bytes k n) = k"
  by (induction k) simp_all

lemma be_val_be_bytes: "be_val (be_bytes k n) = n mod 256 ^ k"
proof (induction k)
  case 0
  then show ?case by simp
next
  case (Suc k)
  have "n mod 256 ^ Suc k = 256 ^ k * (n div 256 ^ k mod 256) + n mod 256 ^ k"
    unfolding power_Suc2 by (rule mod_mult2_eq)
  with Suc show ?case by (simp add: unat_of_nat mult.commute)
qed

definition der_len_size :: "nat \<Rightarrow> nat" where
  "der_len_size n = (if n < 0x80 then 0 else if n \<le> 0xFF then 1 else if n \<le> 0xFFFF then 2
                     else if n \<le> 0xFFFFFF then 3 else 4)"

lemma be_bytes_small:
  "be_bytes 1 n = [word_of_nat n]"
  "be_bytes 2 n = [word_of_nat (n div 2 ^ 8), word_of_nat n]"
  "be_bytes 3 n = [word_of_nat (n div 2 ^ 16), word_of_nat (n div 2 ^ 8), word_of_nat n]"
  "be_bytes 4 n = [word_of_nat (n div 2 ^ 24), word_of_nat (n div 2 ^ 16),
                   word_of_nat (n div 2 ^ 8), word_of_nat n]"
proof -
  have *: "4 = Suc (Suc (Suc (Suc 0)))" "3 = Suc (Suc (Suc 0))" "2 = Suc (Suc 0)" "1 = Suc 0"
    by simp_all
  show "be_bytes 1 n = [word_of_nat n]"
    by (subst *(4)) simp
  show "be_bytes 2 n = [word_of_nat (n div 2 ^ 8), word_of_nat n]"
    by (subst *(3)) simp
  show "be_bytes 3 n = [word_of_nat (n div 2 ^ 16), word_of_nat (n div 2 ^ 8), word_of_nat n]"
    by (subst *(2)) simp
  show "be_bytes 4 n = [word_of_nat (n div 2 ^ 24), word_of_nat (n div 2 ^ 16),
                        word_of_nat (n div 2 ^ 8), word_of_nat n]"
    by (subst *(1)) simp
qed

lemma der_len_size_bounds:
  assumes "0x80 \<le> n" "n \<le> 0xFFFFFFFF"
  shows "der_len_size n \<in> {1, 2, 3, 4}" and "n < 256 ^ der_len_size n"
    and "256 ^ (der_len_size n - 1) \<le> n \<or> der_len_size n = 1"
  using assms by (auto simp: der_len_size_def)

lemma der_octets_long:
  assumes "0x80 \<le> n" "rsp_der_length_octets n = Some lo"
  shows "n \<le> 0xFFFFFFFF"
    and "lo = (0x80 + word_of_nat (der_len_size n)) # be_bytes (der_len_size n) n"
  using assms
  by (simp_all add: rsp_der_length_octets_def der_len_size_def drop_bit_eq_div be_bytes_small
                    not_less split: if_splits)

lemma der_length_decode:
  assumes "rsp_der_length_octets n = Some lo"
  shows "der_length_value (lo @ rest) = Some (length lo, n)"
proof (cases "n < 0x80")
  case True
  with assms show ?thesis
    by (auto simp: rsp_der_length_octets_def der_length_value_def unat_of_nat word_less_nat_alt)
next
  case False
  then have n: "0x80 \<le> n" by simp
  note L = der_octets_long [OF n assms]
  let ?k = "der_len_size n"
  have k: "?k \<in> {1, 2, 3, 4}" by (rule der_len_size_bounds(1) [OF n L(1)])
  then have hd: "\<not> (0x80 + word_of_nat ?k :: u8) < 0x80" "unat (word_of_nat ?k :: u8) = ?k"
    by auto
  have "be_val (be_bytes ?k n) = n"
    using der_len_size_bounds(2) [OF n L(1)] by (simp add: be_val_be_bytes)
  with L(2) k hd show ?thesis
    by (auto simp: der_length_value_def Let_def)
qed

lemma der_length_refused: "rsp_der_length_octets n = None \<longleftrightarrow> 0xFFFFFFFF < n"
  by (simp add: rsp_der_length_octets_def)

lemma der_length_size:
  "rsp_der_length_octets n = Some lo \<Longrightarrow> length lo = 1 + der_len_size n"
  by (auto simp: rsp_der_length_octets_def der_len_size_def split: if_splits)

lemma der_length_minimal:
  assumes "rsp_der_length_octets n = Some lo" "der_length_value other = Some (m, n)"
  shows "length lo \<le> m"
proof (cases "n < 0x80")
  case True
  have "1 \<le> m" using assms(2)
    by (auto simp: der_length_value_def Let_def split: list.splits if_splits)
  with True assms(1) show ?thesis by (simp add: der_length_size der_len_size_def)
next
  case False
  from assms(2) False obtain b rest k where o: "other = b # rest" "k = unat (b - 0x80)"
    "k \<noteq> 0" "k \<le> length rest" "m = 1 + k" "n = be_val (take k rest)"
    by (auto simp: der_length_value_def Let_def word_less_nat_alt
             split: list.splits if_splits)
  have "n < 256 ^ k" using be_val_bound [of "take k rest"] o(4,6) by simp
  moreover have "256 ^ (der_len_size n - 1) \<le> n \<or> der_len_size n = 1"
    using der_len_size_bounds(3) der_octets_long(1) [OF _ assms(1)] False by simp
  ultimately have "der_len_size n - 1 < k \<or> der_len_size n = 1"
    by (meson le_less_trans nat_power_less_imp_less zero_less_numeral)
  with o(3) have "der_len_size n \<le> k" by linarith
  with assms(1) o(5) show ?thesis by (simp add: der_length_size)
qed

section \<open>The buffer keeps its invariant\<close>

lemma gb_ok_empty [simp]: "gb_ok empty_growbuf" "gb_bytes empty_growbuf = []"
  by (simp_all add: gb_ok_def gb_bytes_def empty_growbuf_def cap_shape_def)

lemma length_gb_bytes: "gb_ok g \<Longrightarrow> length (gb_bytes g) = gb_len g"
  by (simp add: gb_ok_def gb_bytes_def)

lemma grow_cap_ge:
  assumes "grow_cap c need = Some r"
  shows "need \<le> r \<and> (r = c \<or> r < 2 ^ 64)"
proof (rule grow_cap.raw_induct [where P = "\<lambda>c need r. need \<le> r \<and> (r = c \<or> r < 2 ^ 64)", OF _ assms])
  fix f :: "nat \<Rightarrow> nat \<Rightarrow> nat option" and c need r
  assume IH: "\<And>c need r. f c need = Some r \<Longrightarrow> need \<le> r \<and> (r = c \<or> r < 2 ^ 64)"
    and eq: "(if c < need then f (c * 2 mod 2 ^ 64) need else Some c) = Some r"
  show "need \<le> r \<and> (r = c \<or> r < 2 ^ 64)"
  proof (cases "c < need")
    case True
    with eq have "f (c * 2 mod 2 ^ 64) need = Some r" by simp
    then have "need \<le> r \<and> (r = c * 2 mod 2 ^ 64 \<or> r < 2 ^ 64)" by (rule IH)
    then show ?thesis by (auto intro: mod_less_divisor)
  next
    case False
    with eq show ?thesis by simp
  qed
qed

lemma cap_shape_double:
  assumes "cap_shape c"
  shows "cap_shape (c * 2 mod 2 ^ 64)"
proof (cases "c = 0")
  case True
  then show ?thesis by (simp add: cap_shape_def)
next
  case False
  with assms obtain k where c: "c = 512 * 2 ^ k" by (auto simp: cap_shape_def)
  show ?thesis
  proof (cases "k < 54")
    case True
    then have "(2::nat) ^ k \<le> 2 ^ 53" by (intro power_increasing) auto
    with c have "c * 2 mod 2 ^ 64 = 512 * 2 ^ Suc k" by simp
    then show ?thesis unfolding cap_shape_def by blast
  next
    case False
    then have "k = 54 + (k - 54)" by simp
    then have "(2::nat) ^ k = 2 ^ 54 * 2 ^ (k - 54)" by (metis power_add)
    with c show ?thesis by (simp add: cap_shape_def)
  qed
qed

lemma grow_cap_shape:
  assumes "grow_cap c need = Some r" "cap_shape c"
  shows "cap_shape r"
proof -
  have "cap_shape c \<longrightarrow> cap_shape r"
  proof (rule grow_cap.raw_induct [where P = "\<lambda>c need r. cap_shape c \<longrightarrow> cap_shape r", OF _ assms(1)])
    fix f :: "nat \<Rightarrow> nat \<Rightarrow> nat option" and c need r
    assume IH: "\<And>c need r. f c need = Some r \<Longrightarrow> cap_shape c \<longrightarrow> cap_shape r"
      and eq: "(if c < need then f (c * 2 mod 2 ^ 64) need else Some c) = Some r"
    show "cap_shape c \<longrightarrow> cap_shape r"
    proof (cases "c < need")
      case True
      with eq have "f (c * 2 mod 2 ^ 64) need = Some r" by simp
      from IH [OF this] show ?thesis using cap_shape_double by blast
    next
      case False
      with eq show ?thesis by simp
    qed
  qed
  with assms(2) show ?thesis by blast
qed

text \<open>The loop ends for every request up to half of the address space.\<close>

lemma grow_cap_total:
  assumes "need \<le> 2 ^ 63" "k \<le> 54"
  shows "\<exists>r. grow_cap (512 * 2 ^ k) need = Some r \<and> r \<le> 2 ^ 63"
  using assms(2)
proof (induction "54 - k" arbitrary: k)
  case 0
  then have "k = 54" by simp
  with assms(1) show ?case by (simp add: grow_cap.simps)
next
  case (Suc d)
  then have k: "k < 54" by simp
  then have le: "(2::nat) ^ k \<le> 2 ^ 53" by (intro power_increasing) auto
  show ?case
  proof (cases "512 * 2 ^ k < need")
    case True
    have "512 * 2 ^ k * 2 mod 2 ^ 64 = (512 * 2 ^ Suc k :: nat)" using le by simp
    with True have "grow_cap (512 * 2 ^ k) need = grow_cap (512 * 2 ^ Suc k) need"
      by (subst grow_cap.simps) (simp only: if_True)
    with Suc k show ?thesis by (metis Suc_diff_Suc Suc_inject Suc_leI)
  next
    case False
    with le show ?thesis by (subst grow_cap.simps) simp
  qed
qed

text \<open>Past that it doubles its capacity to zero and never ends.\<close>

lemma grow_cap_zero: "0 < need \<Longrightarrow> grow_cap 0 need = None"
proof (rule ccontr)
  assume need: "0 < need" and "grow_cap 0 need \<noteq> None"
  then obtain r where r: "grow_cap 0 need = Some r" by blast
  have "\<not> (0 = (0::nat) \<and> 0 < need)"
  proof (rule grow_cap.raw_induct [where P = "\<lambda>c need r. \<not> (c = 0 \<and> 0 < need)", OF _ r])
    fix f :: "nat \<Rightarrow> nat \<Rightarrow> nat option" and c need r
    assume IH: "\<And>c need r. f c need = Some r \<Longrightarrow> \<not> (c = 0 \<and> 0 < need)"
      and eq: "(if c < need then f (c * 2 mod 2 ^ 64) need else Some c) = Some r"
    show "\<not> (c = 0 \<and> 0 < need)"
    proof
      assume "c = 0 \<and> 0 < need"
      with eq have "f 0 need = Some r" by simp
      from IH [OF this] \<open>c = 0 \<and> 0 < need\<close> show False by simp
    qed
  qed
  with need show False by simp
qed

lemma grow_cap_hangs:
  assumes "2 ^ 63 < need" "need < 2 ^ 64" "k \<le> 54"
  shows "grow_cap (512 * 2 ^ k) need = None"
  using assms(3)
proof (induction "54 - k" arbitrary: k)
  case 0
  then have k: "k = 54" by simp
  have "grow_cap (512 * 2 ^ k) need = grow_cap 0 need"
    using assms(1) by (subst grow_cap.simps) (simp add: k)
  with assms(1) show ?case by (simp add: grow_cap_zero)
next
  case (Suc d)
  then have k: "k < 54" by simp
  then have le: "(2::nat) ^ k \<le> 2 ^ 53" by (intro power_increasing) auto
  have "512 * 2 ^ k * 2 mod 2 ^ 64 = (512 * 2 ^ Suc k :: nat)" "512 * 2 ^ k < need"
    using le assms(1) by simp_all
  then have "grow_cap (512 * 2 ^ k) need = grow_cap (512 * 2 ^ Suc k) need"
    by (subst grow_cap.simps) (simp only: if_True)
  with Suc k show ?case by (metis Suc_diff_Suc Suc_inject Suc_leI)
qed

section \<open>The buffer's contract\<close>

text \<open>What a writer needs of a buffer: an append that returns has appended exactly its data
  and touched nothing else, and within \<open>limit\<close> bytes it does return when no allocation fails.\<close>

locale byte_buffer =
  fixes app :: "'b \<Rightarrow> bytes \<Rightarrow> ('x, 'b) cm"
    and ok :: "'b \<Rightarrow> bool"
    and contents :: "'b \<Rightarrow> bytes"
    and limit :: nat
  assumes app_run: "ok g \<Longrightarrow> app g d w = (Inr g', w') \<Longrightarrow>
      ok g' \<and> contents g' = contents g @ d \<and> loc w' = loc w"
    and app_fail: "ok g \<Longrightarrow> app g d w = (Inl e, w') \<Longrightarrow> loc w' = loc w"
    and app_total: "ok g \<Longrightarrow> faults w = [] \<Longrightarrow> length (contents g) + length d \<le> limit \<Longrightarrow>
      \<exists>g'. app g d w = (Inr g', w)"
begin

lemma blocks_run:
  "ok g \<Longrightarrow> append_blocks app g ds w = (Inr g', w') \<Longrightarrow>
   ok g' \<and> contents g' = contents g @ concat ds \<and> loc w' = loc w"
proof (induction ds arbitrary: g w)
  case Nil
  then show ?case by (simp add: cm_run)
next
  case (Cons d ds)
  from Cons.prems(2) obtain g1 w1 where
    1: "app g d w = (Inr g1, w1)" and 2: "append_blocks app g1 ds w1 = (Inr g', w')"
    by (auto simp: cm_run)
  from app_run [OF Cons.prems(1) 1] have g1: "ok g1" "contents g1 = contents g @ d" "loc w1 = loc w"
    by auto
  from Cons.IH [OF g1(1) 2] g1 show ?case by simp
qed

lemma blocks_total:
  "ok g \<Longrightarrow> faults w = [] \<Longrightarrow> length (contents g) + length (concat ds) \<le> limit \<Longrightarrow>
   \<exists>g'. append_blocks app g ds w = (Inr g', w)"
proof (induction ds arbitrary: g)
  case Nil
  then show ?case by (simp add: ret_def)
next
  case (Cons d ds)
  then obtain g1 where 1: "app g d w = (Inr g1, w)"
    using app_total [of g w d] by fastforce
  from app_run [OF Cons.prems(1) 1] have "ok g1" "contents g1 = contents g @ d" by auto
  with Cons.IH [of g1] Cons.prems obtain g' where "append_blocks app g1 ds w = (Inr g', w)"
    by auto
  with 1 show ?case by (simp add: bnd_def)
qed

end

lemma map_the_Some [simp]: "map (the \<circ> Some) d = d"
  by (induction d) simp_all

lemma growbuf_memcpy_run:
  assumes "gb_ok g" "growbuf_memcpy g d w = (Inr g', w')"
  shows "gb_ok g' \<and> gb_bytes g' = gb_bytes g @ d \<and> w' = w"
proof (cases "d = []")
  case True
  with assms show ?thesis by (simp add: growbuf_memcpy_def ret_def)
next
  case False
  with assms(2) have le: "gb_len g + length d \<le> length (gb_buf g)"
    and g': "g' = g\<lparr>gb_buf := take (gb_len g) (gb_buf g) @ map Some d @ drop (gb_len g + length d) (gb_buf g),
                 gb_len := gb_len g + length d\<rparr>" and "w' = w"
    by (auto simp: growbuf_memcpy_def Let_def cm_run split: if_splits)
  moreover have "gb_len g < gb_cap g" using le False assms(1) by (cases d) (auto simp: gb_ok_def)
  ultimately show ?thesis using assms(1) by (auto simp: gb_ok_def gb_bytes_def min_def)
qed

lemma growbuf_memcpy_total:
  "gb_len g + length d \<le> length (gb_buf g) \<Longrightarrow> \<exists>g'. growbuf_memcpy g d w = (Inr g', w)"
  by (simp add: growbuf_memcpy_def Let_def ret_def)

lemma growbuf_realloc_ok:
  assumes "gb_ok g" "gb_cap g \<le> c" "cap_shape c" "c < 2 ^ 64"
  shows "gb_ok (growbuf_realloc g c)" "gb_bytes (growbuf_realloc g c) = gb_bytes g"
  using assms by (auto simp: gb_ok_def gb_bytes_def growbuf_realloc_def)

lemma growbuf_newcap:
  assumes "gb_ok g" "gb_cap g < need"
    and "grow_cap (if gb_cap g \<noteq> 0 then gb_cap g * 2 mod 2 ^ 64 else 512) need = Some c"
  shows "gb_cap g < c" "need \<le> c" "cap_shape c" "c < 2 ^ 64"
proof -
  let ?c0 = "if gb_cap g \<noteq> 0 then gb_cap g * 2 mod 2 ^ 64 else (512::nat)"
  have "cap_shape ?c0"
    using assms(1) cap_shape_double [of "gb_cap g"]
    by (auto simp: gb_ok_def cap_shape_def intro: exI [of _ 0])
  with assms(3) show "cap_shape c" by (rule grow_cap_shape)
  have "?c0 < 2 ^ 64" by (auto intro: mod_less_divisor)
  with grow_cap_ge [OF assms(3)] show "need \<le> c" "c < 2 ^ 64" by auto
  with assms(2) show "gb_cap g < c" by simp
qed

lemma growbuf_append_run:
  assumes ok: "gb_ok g" and run: "rsp_growbuf_append g d w = (Inr g', w')"
  shows "gb_ok g' \<and> gb_bytes g' = gb_bytes g @ d \<and> loc w' = loc w"
proof (cases "gb_cap g < (gb_len g + length d) mod 2 ^ 64")
  case True
  with run obtain c where
    c: "grow_cap (if gb_cap g \<noteq> 0 then gb_cap g * 2 mod 2 ^ 64 else 512)
          ((gb_len g + length d) mod 2 ^ 64) = Some c"
    and r: "growbuf_memcpy (growbuf_realloc g c) d (tick w) = (Inr g', w')"
    unfolding rsp_growbuf_append_def Let_def by (auto simp: cm_run)
  note G = growbuf_newcap [OF ok True c]
  note grown = growbuf_realloc_ok [OF ok less_imp_le [OF G(1)] G(3,4)]
  from growbuf_memcpy_run [OF grown(1) r] grown(2) show ?thesis by simp
next
  case False
  with run have "growbuf_memcpy g d w = (Inr g', w')"
    unfolding rsp_growbuf_append_def Let_def by (auto simp: cm_run)
  from growbuf_memcpy_run [OF ok this] show ?thesis by simp
qed

lemma growbuf_append_fail:
  "rsp_growbuf_append g d w = (Inl e, w') \<Longrightarrow> loc w' = loc w"
  unfolding rsp_growbuf_append_def growbuf_memcpy_def Let_def
  by (auto simp: cm_run split: if_splits)

lemma growbuf_append_total:
  assumes ok: "gb_ok g" and nf: "faults w = []" and le: "length (gb_bytes g) + length d \<le> 2 ^ 63"
  shows "\<exists>g'. rsp_growbuf_append g d w = (Inr g', w)"
proof -
  let ?need = "(gb_len g + length d) mod 2 ^ 64"
  have need: "?need = gb_len g + length d" "?need \<le> 2 ^ 63"
    using le by (simp_all add: length_gb_bytes [OF ok])
  show ?thesis
  proof (cases "gb_cap g < ?need")
    case True
    have "\<exists>k\<le>54. (if gb_cap g \<noteq> 0 then gb_cap g * 2 mod 2 ^ 64 else 512) = 512 * 2 ^ k"
    proof (cases "gb_cap g = 0")
      case True
      then show ?thesis by (auto intro: exI [of _ 0])
    next
      case False
      with ok obtain k where k: "gb_cap g = 512 * 2 ^ k" by (auto simp: gb_ok_def cap_shape_def)
      have "k < 54"
      proof (rule ccontr)
        assume "\<not> k < 54"
        then have "(2::nat) ^ 54 \<le> 2 ^ k" by (intro power_increasing) auto
        with k True need(2) show False by simp
      qed
      then have "(2::nat) ^ k \<le> 2 ^ 53" by (intro power_increasing) auto
      with k have "gb_cap g * 2 mod 2 ^ 64 = 512 * 2 ^ Suc k" by simp
      with False \<open>k < 54\<close> show ?thesis by (intro exI [of _ "Suc k"]) simp
    qed
    then obtain k where k: "k \<le> 54"
      "(if gb_cap g \<noteq> 0 then gb_cap g * 2 mod 2 ^ 64 else 512) = 512 * 2 ^ k" by blast
    obtain c where c:
      "grow_cap (if gb_cap g \<noteq> 0 then gb_cap g * 2 mod 2 ^ 64 else 512) ?need = Some c"
      using grow_cap_total [OF need(2) k(1)] unfolding k(2) by blast
    note G = growbuf_newcap [OF ok True c]
    have "gb_len (growbuf_realloc g c) + length d \<le> length (gb_buf (growbuf_realloc g c))"
      using G need(1) ok by (auto simp: gb_ok_def growbuf_realloc_def)
    from growbuf_memcpy_total [OF this] True c nf show ?thesis
      unfolding rsp_growbuf_append_def Let_def
      by (simp add: bnd_def lift_opt_def ret_def)
  next
    case False
    then have "gb_len g + length d \<le> length (gb_buf g)"
      using need(1) ok by (auto simp: gb_ok_def)
    from growbuf_memcpy_total [OF this] False show ?thesis
      unfolding rsp_growbuf_append_def Let_def by (simp add: bnd_def ret_def)
  qed
qed

text \<open>Within that limit the only failure is that of \<open>realloc\<close>.\<close>

lemma growbuf_memcpy_stop:
  fixes u :: "'y st" and v :: "'x st"
  shows "growbuf_memcpy h d u = (Inr x, u') \<Longrightarrow> growbuf_memcpy h d v = (Inl c, v') \<Longrightarrow> False"
  by (auto simp: growbuf_memcpy_def Let_def cm_run split: if_splits)

lemma growbuf_append_code:
  fixes w :: "'x st"
  assumes "gb_ok g" "length (gb_bytes g) + length d \<le> 2 ^ 63" "rsp_growbuf_append g d w = (Inl e, w')"
  shows "e = Minus1"
proof -
  let ?w0 = "w\<lparr>faults := []\<rparr>"
  obtain g' where "rsp_growbuf_append g d ?w0 = (Inr g', ?w0)"
    using growbuf_append_total [OF assms(1), of ?w0 d] assms(2) by auto
  then show ?thesis
    using assms(3) unfolding rsp_growbuf_append_def Let_def
    by (auto simp: cm_run split: if_splits dest: growbuf_memcpy_stop)
qed

lemma keeps_append [keeps_intros]: "keeps (rsp_growbuf_append g d)"
  unfolding rsp_growbuf_append_def growbuf_memcpy_def Let_def by (intro keeps_intros)

lemma keeps_blocks [keeps_intros]: "(\<And>g d. keeps (app g d)) \<Longrightarrow> keeps (append_blocks app g ds)"
  by (induction ds arbitrary: g) (auto intro: keeps_intros)

interpretation gb: byte_buffer
  "rsp_growbuf_append :: growbuf \<Rightarrow> bytes \<Rightarrow> ('x, growbuf) cm" gb_ok gb_bytes "2 ^ 63"
  by unfold_locales
    (auto dest: growbuf_append_run growbuf_append_fail intro: growbuf_append_total)

lemma growbuf_append_hangs:
  assumes "2 ^ 63 < length d" "length d < 2 ^ 64"
  shows "rsp_growbuf_append empty_growbuf d w = (Inl Diverges, w)"
proof -
  have "d \<noteq> []" using assms(1) by auto
  with assms grow_cap_hangs [of "length d" 0] show ?thesis
    unfolding rsp_growbuf_append_def Let_def
    by (simp add: empty_growbuf_def bnd_def lift_opt_def stop_with_def)
qed

lemma growbuf_free_wipes:
  assumes "gb_ok g"
  shows "set (fst (rsp_growbuf_free g)) \<subseteq> {Some 0}" "snd (rsp_growbuf_free g) = empty_growbuf"
  using assms by (auto simp: rsp_growbuf_free_def gb_ok_def empty_growbuf_def)

end
