(* ===== verification/Mbed.thy ===== *)
theory Mbed
  imports Internal
begin

text \<open>
  The interface of the code this library calls and does not contain: mbedTLS (a submodule) and
  the SGP.26 material the build embeds. Both are parameters of every definition that uses them.
  Type variables: \<open>'c\<close> a parsed X.509 certificate, \<open>'g\<close> an elliptic-curve group, \<open>'p\<close> a point
  on one, \<open>'k\<close> a parsed private key. A field holds the value the primitive computes when it
  does not fail operationally; operational failures come from the fault schedule. Numbers
  (\<open>mbedtls_mpi\<close>) are \<open>nat\<close>.

  \<open>cipher_laws\<close> states what the SCP03t code relies on: AES-CBC decryption inverts encryption on
  whole blocks and keeps the length, an AES block and a CMAC are sixteen octets.
\<close>

record ('c, 'g, 'p, 'k) mbedtls =
  m_sha256 :: "bytes \<Rightarrow> bytes"
  m_aes_ecb :: "bytes \<Rightarrow> bytes \<Rightarrow> bytes"
  m_cbc_enc :: "bytes \<Rightarrow> bytes \<Rightarrow> bytes \<Rightarrow> bytes"
  m_cbc_dec :: "bytes \<Rightarrow> bytes \<Rightarrow> bytes \<Rightarrow> bytes"
  m_cmac :: "bytes \<Rightarrow> bytes \<Rightarrow> bytes"
  m_p256 :: 'g
  m_mpi_read :: "bytes \<Rightarrow> nat"
  m_mpi_write :: "nat \<Rightarrow> nat \<Rightarrow> bytes option"
  m_point_read :: "'g \<Rightarrow> bytes \<Rightarrow> 'p option"
  m_point_write :: "'g \<Rightarrow> 'p \<Rightarrow> bytes option"
  m_ecdh :: "'g \<Rightarrow> 'p \<Rightarrow> nat \<Rightarrow> nat option"
  m_mul_g :: "'g \<Rightarrow> nat \<Rightarrow> 'p option"
  m_sign_det :: "'g \<Rightarrow> nat \<Rightarrow> bytes \<Rightarrow> (nat \<times> nat) option"
  m_verify :: "'g \<Rightarrow> bytes \<Rightarrow> 'p \<Rightarrow> nat \<Rightarrow> nat \<Rightarrow> bool"
  m_pk_parse :: "bytes \<Rightarrow> 'k option"
  m_pk_is_ec :: "'k \<Rightarrow> bool"
  m_pk_write_key :: "'k \<Rightarrow> bytes option"
  m_crt_parse :: "(bytes \<Rightarrow> bool \<Rightarrow> bool) \<Rightarrow> bytes \<Rightarrow> 'c option"
  m_crt_verify :: "'c \<Rightarrow> 'c list \<Rightarrow> bool"
  m_crt_is_ec :: "'c \<Rightarrow> bool"
  m_crt_ec :: "'c \<Rightarrow> ('g \<times> 'p) option"
  m_crt_subject :: "'c \<Rightarrow> (bytes \<times> bytes) list"
  m_crt_ski :: "'c \<Rightarrow> bytes"
  m_oid_policies :: bytes
  m_oid_name_constraints :: bytes
  m_oid_serial :: bytes

text \<open>The generated \<open>build/sgp26_material.c\<close>.\<close>

record sgp26 =
  ci_der :: bytes
  ci2017_der :: bytes
  dpauth_der :: bytes
  dpauth_key_pem :: bytes
  dppb_der :: bytes
  dppb_key_pem :: bytes

definition cipher_laws :: "('c, 'g, 'p, 'k) mbedtls \<Rightarrow> bool" where
  "cipher_laws M \<longleftrightarrow>
     (\<forall>k iv x. length x mod 16 = 0 \<longrightarrow>
        length (m_cbc_enc M k iv x) = length x \<and> m_cbc_dec M k iv (m_cbc_enc M k iv x) = x) \<and>
     (\<forall>k iv x. length x mod 16 = 0 \<longrightarrow> length (m_cbc_dec M k iv x) = length x) \<and>
     (\<forall>k m. length (m_cmac M k m) = 16) \<and>
     (\<forall>k b. length (m_aes_ecb M k b) = 16)"

section \<open>RNG seeding and the certificate extension callbacks\<close>

text \<open>\<open>rsp_rng_init\<close> seeds a DRBG. Its output only blinds scalar arithmetic here, so all a
  caller sees of it is whether seeding failed.\<close>

definition rsp_rng_init :: "('x, unit) cm" where
  "rsp_rng_init = ext Minus1 (Some ())"

definition rsp_accept_certificate_policies ::
  "('c, 'g, 'p, 'k) mbedtls \<Rightarrow> bytes \<Rightarrow> bool \<Rightarrow> bool" where
  "rsp_accept_certificate_policies M oid is_critical =
     (if \<not> is_critical then True else oid = m_oid_policies M)"

definition rsp_accept_certificate_policies_and_name_constraints ::
  "('c, 'g, 'p, 'k) mbedtls \<Rightarrow> bytes \<Rightarrow> bool \<Rightarrow> bool" where
  "rsp_accept_certificate_policies_and_name_constraints M oid is_critical =
     (if \<not> is_critical then True
      else if oid = m_oid_policies M then True
      else oid = m_oid_name_constraints M)"

lemma cbc_inverse: "cipher_laws M \<Longrightarrow> length x mod 16 = 0 \<Longrightarrow> m_cbc_dec M k iv (m_cbc_enc M k iv x) = x"
  by (simp add: cipher_laws_def)

lemma cipher_lengths:
  assumes "cipher_laws M"
  shows "length x mod 16 = 0 \<Longrightarrow> length (m_cbc_enc M k iv x) = length x"
    and "length x mod 16 = 0 \<Longrightarrow> length (m_cbc_dec M k iv x) = length x"
    and "length (m_cmac M k m) = 16"
    and "length (m_aes_ecb M k b) = 16"
  using assms by (simp_all add: cipher_laws_def)

lemma rng_ok [simp]: "faults w = [] \<Longrightarrow> rsp_rng_init w = (Inr (), w)"
  by (simp add: rsp_rng_init_def)

lemma wp_rng [wp_simps]:
  "wp rsp_rng_init Q E w = (if faulty w then E Minus1 (tick w) else Q () (tick w))"
  by (simp add: rsp_rng_init_def wp_ext)

lemma keeps_rng [keeps_intros]: "keeps rsp_rng_init"
  unfolding rsp_rng_init_def by (intro keeps_intros)

lemma rng_Inr [cm_run]:
  "rsp_rng_init w = (Inr u, w') \<longleftrightarrow> \<not> faulty w \<and> w' = tick w"
  by (auto simp: rsp_rng_init_def ext_Inr)

lemma rng_Inl [cm_run]:
  "rsp_rng_init w = (Inl c, w') \<longleftrightarrow> c = Minus1 \<and> faulty w \<and> w' = tick w"
  by (auto simp: rsp_rng_init_def ext_Inl)

end
