(* ===== verification/Scp03t.thy ===== *)
theory Scp03t
  imports Mbed
begin

text \<open>
  SCP03t, the second half of \<open>src/rsp_crypto.c\<close>: the segment MAC, the ICV, the encryption
  counter, \<open>rsp_cmac\<close>, and the four session operations \<open>rsp_protect\<close>, \<open>rsp_protect_mac_only\<close>,
  \<open>rsp_unprotect\<close> and \<open>rsp_unprotect_mac_only\<close>. The session is the \<open>loc\<close> part of the state,
  \<open>None\<close> standing for a NULL session pointer; an output buffer is given by its capacity,
  \<open>None\<close> standing for NULL, and a successful call returns the bytes it wrote there.
  \<open>segment_channel\<close> is the contract a pair of protect/unprotect operations has for its user;
  it is interpreted on both pairs.
\<close>

record rsp_session =
  s_enc :: bytes
  s_mac :: bytes
  s_chain :: bytes
  enc_counter :: bytes

definition RSP_SCP03T_MAC_LEN :: nat where
  "RSP_SCP03T_MAC_LEN = 8"

definition rsp_cmac ::
  "('c, 'g, 'p, 'k) mbedtls \<Rightarrow> bytes option \<Rightarrow> cbuf \<Rightarrow> bool \<Rightarrow> ('x, bytes) cm" where
  "rsp_cmac M key msg mac_ok =
     bnd (ensure (key \<noteq> None \<and> mac_ok \<and> \<not> (is_null msg \<and> clen msg \<noteq> 0)) Minus1) (\<lambda>_.
     bnd (ext Minus1 (Some ())) (\<lambda>_.
     ext Minus1 (Some (m_cmac M (the key) (cdata msg)))))"

definition scp03t_mac ::
  "('c, 'g, 'p, 'k) mbedtls \<Rightarrow> bytes \<Rightarrow> bytes \<Rightarrow> u8 \<Rightarrow> bytes \<Rightarrow> ('x, bytes) cm" where
  "scp03t_mac M mac_key chain tag ciphertext =
     bnd (lift_opt Minus1 (rsp_der_length_octets (length ciphertext + RSP_SCP03T_MAC_LEN))) (\<lambda>len_octets.
     bnd (malloc Minus1 (16 + 1 + length len_octets + length ciphertext)) (\<lambda>_.
     rsp_cmac M (Some mac_key) (Buf (take 16 chain @ tag # len_octets @ ciphertext)) True))"

definition scp03t_icv ::
  "('c, 'g, 'p, 'k) mbedtls \<Rightarrow> bytes \<Rightarrow> bytes \<Rightarrow> ('x, bytes) cm" where
  "scp03t_icv M enc_key counter =
     bnd (ext Minus1 (Some ())) (\<lambda>_. ext Minus1 (Some (m_aes_ecb M enc_key counter)))"

text \<open>\<open>while (i-- > 0) if (++counter[i] != 0) break;\<close>\<close>

fun counter_loop :: "bytes \<Rightarrow> nat \<Rightarrow> bytes" where
  "counter_loop c 0 = c"
| "counter_loop c (Suc i) =
     (let c' = c[i := c ! i + 1] in if c' ! i \<noteq> 0 then c' else counter_loop c' i)"

definition scp03t_counter_advance :: "bytes \<Rightarrow> bytes" where
  "scp03t_counter_advance counter = counter_loop counter 16"

text \<open>What a successful call does to the session: the full CMAC becomes the chaining value and
  the counter counts this TLV.\<close>

definition session_step :: "rsp_session \<Rightarrow> bytes \<Rightarrow> rsp_session" where
  "session_step s mac16 =
     s\<lparr>s_chain := take 16 mac16, enc_counter := scp03t_counter_advance (enc_counter s)\<rparr>"

definition scp03t_pad :: "bytes \<Rightarrow> bytes" where
  "scp03t_pad plain =
     (let pad_len = 16 - length plain mod 16 in plain @ 0x80 # replicate (pad_len - 1) 0)"

definition rsp_protect ::
  "('c, 'g, 'p, 'k) mbedtls \<Rightarrow> cbuf \<Rightarrow> u8 \<Rightarrow> nat option \<Rightarrow> (rsp_session option, bytes) cm" where
  "rsp_protect M plain tag out_cap =
     bnd get_loc (\<lambda>sp.
     bnd (ensure (\<not> (sp = None \<or> (is_null plain \<and> clen plain \<noteq> 0) \<or> out_cap = None)) Minus1) (\<lambda>_.
     let s = the sp; plain_len = clen plain in
     bnd (ensure (\<not> plain_len > size_max - 16 - RSP_SCP03T_MAC_LEN) Minus1) (\<lambda>_.
     let padded_len = plain_len + (16 - plain_len mod 16) in
     bnd (ensure (\<not> padded_len + RSP_SCP03T_MAC_LEN > the out_cap) Minus1) (\<lambda>_.
     bnd (malloc Minus1 padded_len) (\<lambda>_.
     let padded = scp03t_pad (cdata plain) in
     bnd (recode Minus1 (scp03t_icv M (s_enc s) (enc_counter s))) (\<lambda>icv.
     bnd (ext Minus1 (Some ())) (\<lambda>_.
     bnd (ext Minus1 (Some (m_cbc_enc M (s_enc s) icv padded))) (\<lambda>out.
     bnd (recode Minus1 (scp03t_mac M (s_mac s) (s_chain s) tag out)) (\<lambda>mac16.
     bnd (set_loc (Some (session_step s mac16))) (\<lambda>_.
     ret (out @ take RSP_SCP03T_MAC_LEN mac16)))))))))))"

definition rsp_protect_mac_only ::
  "('c, 'g, 'p, 'k) mbedtls \<Rightarrow> cbuf \<Rightarrow> u8 \<Rightarrow> nat option \<Rightarrow> (rsp_session option, bytes) cm" where
  "rsp_protect_mac_only M plain tag out_cap =
     bnd get_loc (\<lambda>sp.
     bnd (ensure (\<not> (sp = None \<or> (is_null plain \<and> clen plain \<noteq> 0) \<or> out_cap = None)) Minus1) (\<lambda>_.
     let s = the sp; plain_len = clen plain in
     bnd (ensure (\<not> plain_len > size_max - RSP_SCP03T_MAC_LEN) Minus1) (\<lambda>_.
     bnd (ensure (\<not> plain_len + RSP_SCP03T_MAC_LEN > the out_cap) Minus1) (\<lambda>_.
     bnd (recode Minus1 (scp03t_mac M (s_mac s) (s_chain s) tag (cdata plain))) (\<lambda>mac16.
     bnd (set_loc (Some (session_step s mac16))) (\<lambda>_.
     ret (cdata plain @ take RSP_SCP03T_MAC_LEN mac16)))))))"

text \<open>\<open>while (pad_idx > min_idx && padded[pad_idx - 1] == 0x00) pad_idx--;\<close>\<close>

fun pad_scan :: "bytes \<Rightarrow> nat \<Rightarrow> nat \<Rightarrow> nat" where
  "pad_scan padded min_idx 0 = 0"
| "pad_scan padded min_idx (Suc i) =
     (if Suc i > min_idx \<and> padded ! i = 0 then pad_scan padded min_idx i else Suc i)"

definition rsp_unprotect ::
  "('c, 'g, 'p, 'k) mbedtls \<Rightarrow> cbuf \<Rightarrow> u8 \<Rightarrow> nat option \<Rightarrow> (rsp_session option, bytes) cm" where
  "rsp_unprotect M seg tag out_cap =
     bnd get_loc (\<lambda>sp.
     bnd (ensure (\<not> (sp = None \<or> is_null seg \<or> out_cap = None)) Minus2) (\<lambda>_.
     let s = the sp; seg_len = clen seg in
     bnd (ensure (\<not> (seg_len < 16 + RSP_SCP03T_MAC_LEN \<or>
                     (seg_len - RSP_SCP03T_MAC_LEN) mod 16 \<noteq> 0)) Minus2) (\<lambda>_.
     let ciphertext_len = seg_len - RSP_SCP03T_MAC_LEN;
         ciphertext = take ciphertext_len (cdata seg) in
     bnd (recode Minus2 (scp03t_mac M (s_mac s) (s_chain s) tag ciphertext)) (\<lambda>mac16.
     bnd (ensure (take RSP_SCP03T_MAC_LEN mac16 = drop ciphertext_len (cdata seg)) Minus1) (\<lambda>_.
     bnd (recode Minus2 (scp03t_icv M (s_enc s) (enc_counter s))) (\<lambda>icv.
     bnd (malloc Minus2 ciphertext_len) (\<lambda>_.
     bnd (ext Minus2 (Some ())) (\<lambda>_.
     bnd (ext Minus2 (Some (m_cbc_dec M (s_enc s) icv ciphertext))) (\<lambda>padded.
     let min_idx = (if ciphertext_len \<ge> 16 then ciphertext_len - 16 else 0);
         pad_idx = pad_scan padded min_idx ciphertext_len in
     bnd (ensure (\<not> (pad_idx = min_idx \<or> padded ! (pad_idx - 1) \<noteq> 0x80)) Minus1) (\<lambda>_.
     bnd (ensure (\<not> pad_idx - 1 > the out_cap) Minus2) (\<lambda>_.
     bnd (set_loc (Some (session_step s mac16))) (\<lambda>_.
     ret (take (pad_idx - 1) padded)))))))))))))"

definition rsp_unprotect_mac_only ::
  "('c, 'g, 'p, 'k) mbedtls \<Rightarrow> cbuf \<Rightarrow> u8 \<Rightarrow> nat option \<Rightarrow> (rsp_session option, bytes) cm" where
  "rsp_unprotect_mac_only M seg tag out_cap =
     bnd get_loc (\<lambda>sp.
     bnd (ensure (\<not> (sp = None \<or> is_null seg \<or> out_cap = None)) Minus2) (\<lambda>_.
     let s = the sp; seg_len = clen seg in
     bnd (ensure (\<not> seg_len < RSP_SCP03T_MAC_LEN) Minus2) (\<lambda>_.
     let plain_len = seg_len - RSP_SCP03T_MAC_LEN; plain = take plain_len (cdata seg) in
     bnd (recode Minus2 (scp03t_mac M (s_mac s) (s_chain s) tag plain)) (\<lambda>mac16.
     bnd (ensure (take RSP_SCP03T_MAC_LEN mac16 = drop plain_len (cdata seg)) Minus1) (\<lambda>_.
     bnd (ensure (\<not> plain_len > the out_cap) Minus2) (\<lambda>_.
     bnd (set_loc (Some (session_step s mac16))) (\<lambda>_.
     ret plain)))))))"

section \<open>Specification values\<close>

text \<open>What the rules of SGP.22 2.5.3 say a segment is, as plain functions of the session.\<close>

definition mac_of :: "('c, 'g, 'p, 'k) mbedtls \<Rightarrow> rsp_session \<Rightarrow> u8 \<Rightarrow> bytes \<Rightarrow> bytes" where
  "mac_of M s tag data =
     m_cmac M (s_mac s)
       (s_chain s @ tag # the (rsp_der_length_octets (length data + 8)) @ data)"

definition encrypted_of :: "('c, 'g, 'p, 'k) mbedtls \<Rightarrow> rsp_session \<Rightarrow> bytes \<Rightarrow> bytes" where
  "encrypted_of M s plain =
     m_cbc_enc M (s_enc s) (m_aes_ecb M (s_enc s) (enc_counter s)) (scp03t_pad plain)"

definition sealed :: "('c, 'g, 'p, 'k) mbedtls \<Rightarrow> u8 \<Rightarrow> rsp_session \<Rightarrow> bytes \<Rightarrow> bytes" where
  "sealed M tag s plain = encrypted_of M s plain @ take 8 (mac_of M s tag (encrypted_of M s plain))"

definition after_seal :: "('c, 'g, 'p, 'k) mbedtls \<Rightarrow> u8 \<Rightarrow> rsp_session \<Rightarrow> bytes \<Rightarrow> rsp_session" where
  "after_seal M tag s plain = session_step s (mac_of M s tag (encrypted_of M s plain))"

definition macced :: "('c, 'g, 'p, 'k) mbedtls \<Rightarrow> u8 \<Rightarrow> rsp_session \<Rightarrow> bytes \<Rightarrow> bytes" where
  "macced M tag s plain = plain @ take 8 (mac_of M s tag plain)"

definition after_mac :: "('c, 'g, 'p, 'k) mbedtls \<Rightarrow> u8 \<Rightarrow> rsp_session \<Rightarrow> bytes \<Rightarrow> rsp_session" where
  "after_mac M tag s plain = session_step s (mac_of M s tag plain)"

definition session_wf :: "rsp_session \<Rightarrow> bool" where
  "session_wf s \<longleftrightarrow> length (s_enc s) = 16 \<and> length (s_mac s) = 16 \<and>
     length (s_chain s) = 16 \<and> length (enc_counter s) = 16"

section \<open>The encryption counter\<close>

lemma length_counter_loop [simp]: "length (counter_loop c i) = length c"
  by (induction c i rule: counter_loop.induct) (simp_all add: Let_def)

lemma be_val_snoc: "be_val (xs @ [b]) = be_val xs * 256 + unat b"
  by (simp add: be_val_append)

lemma u8_succ: "b + 1 \<noteq> (0::u8) \<Longrightarrow> unat (b + 1) = unat b + 1"
  using unatSuc [of b] by (simp add: add.commute)

lemma u8_wrap: "b + 1 = (0::u8) \<Longrightarrow> unat b = 255"
proof -
  assume "b + 1 = 0"
  then have "(unat b + 1) mod 256 = 0"
    using unat_word_ariths(1) [of b 1] by simp
  with unat_u8_less [of b] show "unat b = 255" by presburger
qed

lemma counter_loop_val:
  "i \<le> length c \<Longrightarrow>
     be_val (take i (counter_loop c i)) = (be_val (take i c) + 1) mod 256 ^ i \<and>
     drop i (counter_loop c i) = drop i c"
proof (induction i arbitrary: c)
  case 0
  then show ?case by simp
next
  case (Suc i)
  let ?c = "c[i := c ! i + 1]"
  from Suc.prems have i: "i < length c" by simp
  have t: "take (Suc i) c = take i c @ [c ! i]" using i by (rule take_Suc_conv_app_nth)
  have t': "take (Suc i) ?c = take i c @ [c ! i + 1]" using i by (simp add: take_Suc_conv_app_nth)
  show ?case
  proof (cases "c ! i + 1 = 0")
    case False
    then have l: "counter_loop c (Suc i) = ?c" using i by simp
    have v: "be_val (take (Suc i) ?c) = be_val (take (Suc i) c) + 1"
      using u8_succ [OF False] unfolding t t' be_val_snoc by simp
    have "be_val (take (Suc i) ?c) < 256 ^ Suc i"
    proof -
      have "length (take (Suc i) ?c) = Suc i" using i by simp
      with be_val_bound [of "take (Suc i) ?c"] show ?thesis by metis
    qed
    with v have "(be_val (take (Suc i) c) + 1) mod 256 ^ Suc i = be_val (take (Suc i) ?c)"
      by (metis mod_less)
    with l show ?thesis by simp
  next
    case True
    define r where "r = counter_loop ?c i"
    have l: "counter_loop c (Suc i) = r" using i True by (simp add: r_def)
    from Suc.IH [of ?c] i
    have IH: "be_val (take i r) = (be_val (take i c) + 1) mod 256 ^ i" "drop i r = drop i ?c"
      by (simp_all add: r_def)
    have lr: "length r = length c" by (simp add: r_def)
    have "drop i r ! 0 = drop i ?c ! 0" using IH(2) by simp
    with i lr True have "r ! i = 0" by simp
    with i lr have "take (Suc i) r = take i r @ [0]" by (simp add: take_Suc_conv_app_nth)
    then have "be_val (take (Suc i) r) = (be_val (take i c) + 1) mod 256 ^ i * 256"
      using IH(1) by (simp add: be_val_snoc)
    also have "\<dots> = ((be_val (take i c) + 1) * 256) mod 256 ^ Suc i"
      unfolding power_Suc2 by (rule mult_mod_left)
    also have "(be_val (take i c) + 1) * 256 = be_val (take (Suc i) c) + 1"
      unfolding t be_val_snoc u8_wrap [OF True] by simp
    finally have "be_val (take (Suc i) r) = (be_val (take (Suc i) c) + 1) mod 256 ^ Suc i" .
    moreover have "drop (Suc i) r = drop (Suc i) c"
      using arg_cong [OF IH(2), of "drop 1"] by simp
    ultimately show ?thesis using l by simp
  qed
qed

lemma counter_advance_val:
  "length c = 16 \<Longrightarrow> be_val (scp03t_counter_advance c) = (be_val c + 1) mod 2 ^ 128"
  using counter_loop_val [of 16 c] by (simp add: scp03t_counter_advance_def)

lemma length_counter_advance [simp]: "length (scp03t_counter_advance c) = length c"
  by (simp add: scp03t_counter_advance_def)

section \<open>Padding\<close>

lemma pad_scan_zeros:
  assumes "\<forall>j. i \<le> j \<and> j < n \<longrightarrow> padded ! j = 0" "i \<le> n" "m < i" "padded ! (i - 1) \<noteq> 0"
  shows "pad_scan padded m n = i"
  using assms
proof (induction n)
  case 0
  then show ?case by simp
next
  case (Suc n)
  show ?case
  proof (cases "i = Suc n")
    case True
    with Suc.prems show ?thesis by simp
  next
    case False
    with Suc have "pad_scan padded m n = i" by simp
    with Suc.prems False show ?thesis by simp
  qed
qed

lemma pad_scan_result:
  assumes "pad_scan padded m n = i"
  shows "i \<le> n" and "\<forall>j. i \<le> j \<and> j < n \<longrightarrow> padded ! j = 0" and "m \<le> n \<Longrightarrow> m \<le> i"
proof -
  have "i \<le> n \<and> (\<forall>j. i \<le> j \<and> j < n \<longrightarrow> padded ! j = 0) \<and> (m \<le> n \<longrightarrow> m \<le> i)"
    using assms by (induction n) (auto simp: less_Suc_eq not_less split: if_splits)
  then show "i \<le> n" and "\<forall>j. i \<le> j \<and> j < n \<longrightarrow> padded ! j = 0" and "m \<le> n \<Longrightarrow> m \<le> i"
    by blast+
qed

lemma length_scp03t_pad:
  "length (scp03t_pad p) = length p + (16 - length p mod 16)"
  by (simp add: scp03t_pad_def Let_def Suc_diff_Suc)

lemma scp03t_pad_blocks [simp]: "length (scp03t_pad p) mod 16 = 0"
  by (simp add: length_scp03t_pad) presburger

lemma scp03t_pad_bounds:
  "length p + 1 \<le> length (scp03t_pad p)" "length (scp03t_pad p) \<le> length p + 16"
  "16 \<le> length (scp03t_pad p)"
proof -
  have "length p mod 16 < 16" by simp
  then show "length p + 1 \<le> length (scp03t_pad p)" "length (scp03t_pad p) \<le> length p + 16"
    unfolding length_scp03t_pad by linarith+
  have "16 * (length p div 16) + length p mod 16 = length p" by simp
  with \<open>length p mod 16 < 16\<close> show "16 \<le> length (scp03t_pad p)"
    unfolding length_scp03t_pad by linarith
qed

lemma pad_scan_pad:
  "pad_scan (scp03t_pad p) (length (scp03t_pad p) - 16) (length (scp03t_pad p)) = length p + 1"
proof (rule pad_scan_zeros)
  show "\<forall>j. length p + 1 \<le> j \<and> j < length (scp03t_pad p) \<longrightarrow> scp03t_pad p ! j = 0"
    by (auto simp: scp03t_pad_def Let_def nth_append nth_Cons')
  show "length p + 1 \<le> length (scp03t_pad p)" by (rule scp03t_pad_bounds)
  show "length (scp03t_pad p) - 16 < length p + 1" using scp03t_pad_bounds(2) [of p] by linarith
  show "scp03t_pad p ! (length p + 1 - 1) \<noteq> 0" by (simp add: scp03t_pad_def Let_def)
qed

lemma take_scp03t_pad [simp]: "take (length p) (scp03t_pad p) = p"
  by (simp add: scp03t_pad_def Let_def)

lemma nth_scp03t_pad [simp]: "scp03t_pad p ! length p = 0x80"
  by (simp add: scp03t_pad_def Let_def)

section \<open>What the primitives of a call return\<close>

lemma cmac_run:
  "rsp_cmac M (Some k) (Buf msg) True w = (Inr m, w') \<Longrightarrow> m = m_cmac M k msg \<and> loc w' = loc w"
  by (auto simp: rsp_cmac_def cm_run)

lemma cmac_ok [simp]:
  "faults w = [] \<Longrightarrow> rsp_cmac M (Some k) (Buf msg) True w = (Inr (m_cmac M k msg), w)"
  by (simp add: rsp_cmac_def bnd_def ensure_def ret_def)

lemma cmac_fail: "rsp_cmac M k msg b w = (Inl e, w') \<Longrightarrow> e = Minus1 \<and> loc w' = loc w"
  by (auto simp: rsp_cmac_def cm_run)

lemma mac_run:
  assumes "scp03t_mac M (s_mac s) (s_chain s) tag ct w = (Inr m, w')" "session_wf s"
  shows "m = mac_of M s tag ct \<and> length ct + 8 \<le> 0xFFFFFFFF \<and> loc w' = loc w"
proof -
  from assms(1) obtain lo where lo: "rsp_der_length_octets (length ct + 8) = Some lo"
    and m: "m = m_cmac M (s_mac s) (take 16 (s_chain s) @ tag # lo @ ct)" and "loc w' = loc w"
    by (auto simp: scp03t_mac_def RSP_SCP03T_MAC_LEN_def cm_run dest!: cmac_run)
  moreover have "\<not> 0xFFFFFFFF < length ct + 8"
    using lo der_length_refused [of "length ct + 8"] by simp
  ultimately show ?thesis using assms(2) by (simp add: mac_of_def session_wf_def)
qed

lemma mac_ok [simp]:
  assumes "faults w = []" "session_wf s" "length ct + 8 \<le> 0xFFFFFFFF"
  shows "scp03t_mac M (s_mac s) (s_chain s) tag ct w = (Inr (mac_of M s tag ct), w)"
proof -
  obtain lo where "rsp_der_length_octets (length ct + 8) = Some lo"
    using assms(3) der_length_refused [of "length ct + 8"] by fastforce
  with assms show ?thesis
    by (simp add: scp03t_mac_def RSP_SCP03T_MAC_LEN_def bnd_def lift_opt_def ret_def mac_of_def
                  session_wf_def)
qed

lemma mac_fail: "scp03t_mac M k c tag ct w = (Inl e, w') \<Longrightarrow> e = Minus1 \<and> loc w' = loc w"
  by (auto simp: scp03t_mac_def cm_run dest!: cmac_fail)

lemma mac_loc: "scp03t_mac M k c tag ct w = (Inr m, w') \<Longrightarrow> loc w' = loc w"
  by (auto simp: scp03t_mac_def cm_run dest!: cmac_run)

lemma icv_run: "scp03t_icv M k c w = (Inr i, w') \<Longrightarrow> i = m_aes_ecb M k c \<and> loc w' = loc w"
  by (auto simp: scp03t_icv_def cm_run)

lemma icv_ok [simp]: "faults w = [] \<Longrightarrow> scp03t_icv M k c w = (Inr (m_aes_ecb M k c), w)"
  by (simp add: scp03t_icv_def bnd_def)

lemma icv_fail: "scp03t_icv M k c w = (Inl e, w') \<Longrightarrow> e = Minus1 \<and> loc w' = loc w"
  by (auto simp: scp03t_icv_def cm_run)

lemma session_step_wf [simp]: "session_wf s \<Longrightarrow> length m = 16 \<Longrightarrow> session_wf (session_step s m)"
  by (simp add: session_wf_def session_step_def)

section \<open>Protecting\<close>

lemma length_mac_of [simp]: "cipher_laws M \<Longrightarrow> length (mac_of M s tag ct) = 16"
  by (simp add: mac_of_def cipher_lengths)

lemma length_encrypted_of:
  "cipher_laws M \<Longrightarrow> length (encrypted_of M s p) = length p + (16 - length p mod 16)"
  by (simp add: encrypted_of_def cipher_lengths flip: length_scp03t_pad)

lemma length_sealed:
  "cipher_laws M \<Longrightarrow> length (sealed M tag s p) = length p + (16 - length p mod 16) + 8"
  by (simp add: sealed_def length_encrypted_of)

lemma length_macced: "cipher_laws M \<Longrightarrow> length (macced M tag s p) = length p + 8"
  by (simp add: macced_def)

lemma protect_run:
  assumes "rsp_protect M (Buf p) tag oc w = (Inr out, w')" "loc w = Some s" "session_wf s"
  shows "out = sealed M tag s p" and "loc w' = Some (after_seal M tag s p)"
    and "length (encrypted_of M s p) + 8 \<le> 0xFFFFFFFF"
  using assms
  by (auto simp: rsp_protect_def Let_def cm_run sealed_def after_seal_def encrypted_of_def
                 RSP_SCP03T_MAC_LEN_def
           dest!: icv_run mac_run [OF _ assms(3)])

lemma protect_ok:
  assumes "faults w = []" "loc w = Some s" "session_wf s" "cipher_laws M"
    and cap: "length p + (16 - length p mod 16) + 8 \<le> c"
    and fits: "length p + 24 \<le> 0xFFFFFFFF"
  shows "rsp_protect M (Buf p) tag (Some c) w =
           (Inr (sealed M tag s p), w\<lparr>loc := Some (after_seal M tag s p)\<rparr>)"
proof -
  have "length (encrypted_of M s p) + 8 \<le> 0xFFFFFFFF"
    using fits by (simp add: length_encrypted_of [OF assms(4)])
  then have m: "scp03t_mac M (s_mac s) (s_chain s) tag
        (m_cbc_enc M (s_enc s) (m_aes_ecb M (s_enc s) (enc_counter s)) (scp03t_pad p)) w =
      (Inr (mac_of M s tag (encrypted_of M s p)), w)"
    using assms by (simp flip: encrypted_of_def)
  with assms show ?thesis
    by (simp add: rsp_protect_def Let_def bnd_def get_loc_def ensure_def ret_def recode_def
                  set_loc_def size_max_def RSP_SCP03T_MAC_LEN_def sealed_def after_seal_def
                  encrypted_of_def not_less)
qed

lemma protect_fail:
  "rsp_protect M p tag oc w = (Inl e, w') \<Longrightarrow> e = Minus1 \<and> loc w' = loc w"
  unfolding rsp_protect_def Let_def
  by (auto simp: cm_run dest!: icv_run icv_fail mac_fail mac_loc split: if_splits)

lemma protect_mac_only_run:
  assumes "rsp_protect_mac_only M (Buf p) tag oc w = (Inr out, w')" "loc w = Some s" "session_wf s"
  shows "out = macced M tag s p" and "loc w' = Some (after_mac M tag s p)"
    and "length p + 8 \<le> 0xFFFFFFFF"
  using assms
  by (auto simp: rsp_protect_mac_only_def Let_def cm_run macced_def after_mac_def
                 RSP_SCP03T_MAC_LEN_def
           dest!: mac_run [OF _ assms(3)])

lemma protect_mac_only_ok:
  assumes "faults w = []" "loc w = Some s" "session_wf s"
    and cap: "length p + 8 \<le> c" and fits: "length p + 8 \<le> 0xFFFFFFFF"
  shows "rsp_protect_mac_only M (Buf p) tag (Some c) w =
           (Inr (macced M tag s p), w\<lparr>loc := Some (after_mac M tag s p)\<rparr>)"
  using assms
  by (simp add: rsp_protect_mac_only_def Let_def bnd_def get_loc_def ensure_def ret_def recode_def
                set_loc_def size_max_def RSP_SCP03T_MAC_LEN_def macced_def after_mac_def not_less)

lemma protect_mac_only_fail:
  "rsp_protect_mac_only M p tag oc w = (Inl e, w') \<Longrightarrow> e = Minus1 \<and> loc w' = loc w"
  unfolding rsp_protect_mac_only_def Let_def
  by (auto simp: cm_run dest!: mac_fail mac_loc split: if_splits)

lemma after_seal_wf: "cipher_laws M \<Longrightarrow> session_wf s \<Longrightarrow> session_wf (after_seal M tag s p)"
  by (simp add: after_seal_def)

lemma after_mac_wf: "cipher_laws M \<Longrightarrow> session_wf s \<Longrightarrow> session_wf (after_mac M tag s p)"
  by (simp add: after_mac_def)

section \<open>Unprotecting\<close>

lemma unprotect_sealed:
  assumes "faults w = []" "loc w = Some s" "session_wf s" "cipher_laws M"
    and cap: "length p \<le> c" and fits: "length p + 24 \<le> 0xFFFFFFFF"
  shows "rsp_unprotect M (Buf (sealed M tag s p)) tag (Some c) w =
           (Inr p, w\<lparr>loc := Some (after_seal M tag s p)\<rparr>)"
proof -
  let ?ct = "encrypted_of M s p"
  let ?m = "mac_of M s tag ?ct"
  have lct: "length ?ct = length (scp03t_pad p)"
    by (simp add: length_encrypted_of [OF assms(4)] length_scp03t_pad)
  have lm: "length ?m = 16" using assms(4) by simp
  have parts: "take (length ?ct) (sealed M tag s p) = ?ct"
      "drop (length ?ct) (sealed M tag s p) = take 8 ?m"
      "length (sealed M tag s p) = length ?ct + 8"
    using lm by (simp_all add: sealed_def)
  have dec: "m_cbc_dec M (s_enc s) (m_aes_ecb M (s_enc s) (enc_counter s)) ?ct = scp03t_pad p"
    unfolding encrypted_of_def by (rule cbc_inverse [OF assms(4)]) simp
  have "length ?ct + 8 \<le> 0xFFFFFFFF"
    using fits by (simp add: length_encrypted_of [OF assms(4)])
  then have mac: "scp03t_mac M (s_mac s) (s_chain s) tag ?ct w = (Inr ?m, w)"
    using assms by simp
  have scan: "pad_scan (scp03t_pad p) (length ?ct - 16) (length ?ct) = length p + 1"
    unfolding lct by (rule pad_scan_pad)
  have "length ?ct - 16 < length p + 1" "16 \<le> length ?ct" "length ?ct mod 16 = 0"
    using scp03t_pad_bounds [of p] unfolding lct by simp_all
  with assms parts dec mac scan show ?thesis
    by (simp add: rsp_unprotect_def Let_def bnd_def get_loc_def ensure_def ret_def recode_def
                  set_loc_def RSP_SCP03T_MAC_LEN_def after_seal_def)
qed

lemma unprotect_mac_only_macced:
  assumes "faults w = []" "loc w = Some s" "session_wf s" "cipher_laws M"
    and cap: "length p \<le> c" and fits: "length p + 8 \<le> 0xFFFFFFFF"
  shows "rsp_unprotect_mac_only M (Buf (macced M tag s p)) tag (Some c) w =
           (Inr p, w\<lparr>loc := Some (after_mac M tag s p)\<rparr>)"
proof -
  have "length (macced M tag s p) = length p + 8" using assms(4) by (rule length_macced)
  moreover have "take (length p) (macced M tag s p) = p"
    "drop (length p) (macced M tag s p) = take 8 (mac_of M s tag p)"
    by (simp_all add: macced_def)
  ultimately show ?thesis using assms
    by (simp add: rsp_unprotect_mac_only_def Let_def bnd_def get_loc_def ensure_def ret_def
                  recode_def set_loc_def RSP_SCP03T_MAC_LEN_def after_mac_def)
qed

text \<open>Conversely, whatever is accepted is such a segment: its last eight octets are the MAC of the
  rest under this session, and the rest decrypts to a correctly padded plaintext.\<close>

lemma padded_by_scan:
  assumes "length padded = n" "n mod 16 = 0" "16 \<le> n"
    and i: "i = pad_scan padded (n - 16) n" "i \<noteq> n - 16" "padded ! (i - 1) = 0x80"
  shows "padded = scp03t_pad (take (i - 1) padded)" and "i - 1 < n"
proof -
  from pad_scan_result [OF i(1) [symmetric]] have
    le: "i \<le> n" and zeros: "\<forall>j. i \<le> j \<and> j < n \<longrightarrow> padded ! j = 0" and "n - 16 \<le> i"
    by auto
  with i(2) have lt: "n - 16 < i" by simp
  then show "i - 1 < n" using le by simp
  define q where "q = i - 1"
  have q: "q < n" "n - 16 \<le> q" "i = Suc q" using lt le by (auto simp: q_def)
  have "n - 1 - q = 15 - q mod 16"
  proof -
    from assms(2) have "16 dvd n" by (simp add: mod_eq_0_iff_dvd)
    then obtain a where a: "n = 16 * a" by (elim dvdE)
    define r where "r = q - (n - 16)"
    have r: "r < 16" "q = 16 * (a - 1) + r" using q(1,2) a assms(3) by (auto simp: r_def)
    then have "q mod 16 = r" by simp
    with r a assms(3) show ?thesis by linarith
  qed
  then have len: "16 - length (take q padded) mod 16 - 1 = n - i" using q assms(1) by simp
  have "padded = take q padded @ padded ! q # drop i padded"
    using q assms(1) by (simp add: id_take_nth_drop)
  also have "drop i padded = replicate (n - i) 0"
    using zeros assms(1) by (intro nth_equalityI) auto
  also have "padded ! q = 0x80" using i(3) unfolding q_def .
  finally have eq: "padded = take q padded @ 0x80 # replicate (n - i) 0" .
  show "padded = scp03t_pad (take (i - 1) padded)"
    unfolding scp03t_pad_def Let_def q_def [symmetric] len by (rule eq)
qed

lemma unprotect_run:
  assumes run: "rsp_unprotect M (Buf seg) tag oc w = (Inr p, w')"
    and s: "loc w = Some s" "session_wf s" and M: "cipher_laws M"
  obtains ct where "seg = ct @ take 8 (mac_of M s tag ct)"
    "m_cbc_dec M (s_enc s) (m_aes_ecb M (s_enc s) (enc_counter s)) ct = scp03t_pad p"
    "loc w' = Some (session_step s (mac_of M s tag ct))"
    "length ct mod 16 = 0" "length p < length ct" "oc \<noteq> None" "length p \<le> the oc"
proof -
  define n where "n = length seg - 8"
  define ct where "ct = take n seg"
  define padded where "padded = m_cbc_dec M (s_enc s) (m_aes_ecb M (s_enc s) (enc_counter s)) ct"
  define i where "i = pad_scan padded (n - 16) n"
  from run s(1) have len: "24 \<le> length seg" "n mod 16 = 0"
    unfolding rsp_unprotect_def Let_def RSP_SCP03T_MAC_LEN_def n_def
    by (auto simp: cm_run)
  then have n: "16 \<le> n" "length ct = n" by (auto simp: n_def ct_def)
  from run s n have
    mac: "take 8 (mac_of M s tag ct) = drop n seg" and pad: "i \<noteq> n - 16" "padded ! (i - 1) = 0x80"
    and p: "p = take (i - 1) padded" and l: "loc w' = Some (session_step s (mac_of M s tag ct))"
    and oc: "oc \<noteq> None" "i - 1 \<le> the oc"
    unfolding rsp_unprotect_def Let_def RSP_SCP03T_MAC_LEN_def n_def ct_def i_def padded_def
    by (auto simp: cm_run not_less dest!: icv_run mac_run [OF _ s(2)])
  have lp: "length padded = n" unfolding padded_def using len n M by (simp add: cipher_lengths)
  note P = padded_by_scan [OF lp len(2) n(1) i_def pad]
  show ?thesis
  proof (rule that)
    show "seg = ct @ take 8 (mac_of M s tag ct)" unfolding mac by (simp add: ct_def)
    show "m_cbc_dec M (s_enc s) (m_aes_ecb M (s_enc s) (enc_counter s)) ct = scp03t_pad p"
      using P(1) unfolding p padded_def .
    show "length ct mod 16 = 0" using len n by simp
    show "length p < length ct" "length p \<le> the oc" using P(2) n oc lp unfolding p by auto
  qed (fact l oc)+
qed

lemma unprotect_fail:
  "rsp_unprotect M seg tag oc w = (Inl e, w') \<Longrightarrow> e \<in> {Minus1, Minus2} \<and> loc w' = loc w"
  unfolding rsp_unprotect_def Let_def
  by (auto simp: cm_run dest!: icv_run icv_fail mac_fail mac_loc split: if_splits)

lemma unprotect_mac_only_run:
  assumes run: "rsp_unprotect_mac_only M (Buf seg) tag oc w = (Inr p, w')"
    and s: "loc w = Some s" "session_wf s"
  shows "seg = macced M tag s p" and "loc w' = Some (after_mac M tag s p)"
  using assms
  unfolding rsp_unprotect_mac_only_def Let_def RSP_SCP03T_MAC_LEN_def macced_def after_mac_def
  by (auto simp: cm_run dest!: mac_run [OF _ s(2)])

lemma unprotect_mac_only_fail:
  "rsp_unprotect_mac_only M seg tag oc w = (Inl e, w') \<Longrightarrow> e \<in> {Minus1, Minus2} \<and> loc w' = loc w"
  unfolding rsp_unprotect_mac_only_def Let_def
  by (auto simp: cm_run dest!: mac_fail mac_loc split: if_splits)

section \<open>The contract of a segment channel\<close>

text \<open>A sender and a receiver that start from the same session: one protected segment opens to
  its plaintext and leaves both sides in the same next state. Then a whole sequence of segments,
  of mixed kinds, does.\<close>

locale segment_channel =
  fixes prot :: "'e \<Rightarrow> 'k \<Rightarrow> bytes \<Rightarrow> ('s option, bytes) cm"
    and unprot :: "'e \<Rightarrow> 'k \<Rightarrow> bytes \<Rightarrow> ('s option, bytes) cm"
    and good :: "'e \<Rightarrow> 's \<Rightarrow> bool"
    and fits :: "bytes \<Rightarrow> bool"
  assumes channel_step: "good e s \<Longrightarrow> fits p \<Longrightarrow> faults w = [] \<Longrightarrow> loc w = Some s \<Longrightarrow>
      \<exists>c s'. prot e k p w = (Inr c, w\<lparr>loc := Some s'\<rparr>) \<and>
             unprot e k c w = (Inr p, w\<lparr>loc := Some s'\<rparr>) \<and> good e s'"
begin

lemma channel_all:
  "good e s \<Longrightarrow> \<forall>(k, p) \<in> set items. fits p \<Longrightarrow> faults w = [] \<Longrightarrow> loc w = Some s \<Longrightarrow>
   \<exists>cs s'. map_cm (\<lambda>(k, p). prot e k p) items w = (Inr cs, w\<lparr>loc := Some s'\<rparr>) \<and>
     map_cm (\<lambda>(k, c). unprot e k c) (zip (map fst items) cs) w
       = (Inr (map snd items), w\<lparr>loc := Some s'\<rparr>) \<and> good e s' \<and> length cs = length items"
proof (induction items arbitrary: s w)
  case Nil
  then show ?case by (intro exI [of _ "[]"] exI [of _ s]) (simp add: ret_def)
next
  case (Cons x items)
  obtain k p where x: "x = (k, p)" by (cases x)
  from Cons.prems x channel_step [of e s p w k] obtain c s1 where
    1: "prot e k p w = (Inr c, w\<lparr>loc := Some s1\<rparr>)" "unprot e k c w = (Inr p, w\<lparr>loc := Some s1\<rparr>)"
    and g: "good e s1" by auto
  from Cons.IH [OF g, of "w\<lparr>loc := Some s1\<rparr>"] Cons.prems obtain cs s2 where
    "map_cm (\<lambda>(k, p). prot e k p) items (w\<lparr>loc := Some s1\<rparr>) = (Inr cs, w\<lparr>loc := Some s2\<rparr>)"
    "map_cm (\<lambda>(k, c). unprot e k c) (zip (map fst items) cs) (w\<lparr>loc := Some s1\<rparr>)
       = (Inr (map snd items), w\<lparr>loc := Some s2\<rparr>)" "good e s2" "length cs = length items"
    by auto
  with 1 x show ?case by (intro exI [of _ "c # cs"]) (auto simp: bnd_def ret_def)
qed

end

text \<open>The two kinds of segment of a Bound Profile Package: '86' and '87' are encrypted and MACed,
  '88' is only MACed.\<close>

datatype seg_kind = Encrypted u8 | MacOnly u8

fun protect_kind ::
  "('c, 'g, 'p, 'k) mbedtls \<Rightarrow> seg_kind \<Rightarrow> bytes \<Rightarrow> (rsp_session option, bytes) cm" where
  "protect_kind M (Encrypted t) p = rsp_protect M (Buf p) t (Some (length p + 24))"
| "protect_kind M (MacOnly t) p = rsp_protect_mac_only M (Buf p) t (Some (length p + 24))"

fun unprotect_kind ::
  "('c, 'g, 'p, 'k) mbedtls \<Rightarrow> seg_kind \<Rightarrow> bytes \<Rightarrow> (rsp_session option, bytes) cm" where
  "unprotect_kind M (Encrypted t) c = rsp_unprotect M (Buf c) t (Some (length c))"
| "unprotect_kind M (MacOnly t) c = rsp_unprotect_mac_only M (Buf c) t (Some (length c))"

lemma channel_law:
  assumes "cipher_laws M \<and> session_wf s" "length p + 24 \<le> 0xFFFFFFFF" "faults w = []" "loc w = Some s"
  shows "\<exists>c s'. protect_kind M k p w = (Inr c, w\<lparr>loc := Some s'\<rparr>) \<and>
           unprotect_kind M k c w = (Inr p, w\<lparr>loc := Some s'\<rparr>) \<and> cipher_laws M \<and> session_wf s'"
proof (cases k)
  case (Encrypted t)
  have "length p \<le> length (sealed M t s p)" using assms(1) by (simp add: length_sealed)
  with Encrypted assms show ?thesis
    using protect_ok [of w s M p "length p + 24" t] after_seal_wf [of M s t p]
      unprotect_sealed [of w s M p "length (sealed M t s p)" t]
    by auto
next
  case (MacOnly t)
  have "length p \<le> length (macced M t s p)" using assms(1) by (simp add: length_macced)
  with MacOnly assms show ?thesis
    using protect_mac_only_ok [of w s p "length p + 24" M t] after_mac_wf [of M s t p]
      unprotect_mac_only_macced [of w s M p "length (macced M t s p)" t]
    by auto
qed

interpretation scp: segment_channel
  "protect_kind :: ('c, 'g, 'p, 'k) mbedtls \<Rightarrow> seg_kind \<Rightarrow> bytes \<Rightarrow> (rsp_session option, bytes) cm"
  unprotect_kind "\<lambda>M s. cipher_laws M \<and> session_wf s" "\<lambda>p. length p + 24 \<le> 0xFFFFFFFF"
  by unfold_locales (rule channel_law)

end
