(* ===== verification/Kdf.thy ===== *)
theory Kdf
  imports Scp03t
begin

text \<open>
  Session keys, the first half of \<open>src/rsp_crypto.c\<close>: \<open>rsp_ecdh_p256\<close>, the X9.63 derivation
  \<open>rsp_kdf_x963\<close> with its 32-bit block counter, \<open>rsp_session_init\<close> and \<open>rsp_session_wipe\<close>.
  The derivation writes into the caller's buffer, which is the \<open>loc\<close> part of the state (a
  \<open>cbuf\<close>, so NULL is visible); the session of \<open>rsp_session_init\<close> is its \<open>loc\<close> likewise. Both
  wipe what they wrote when they fail.
\<close>

definition rsp_ecdh_p256 ::
  "('c, 'g, 'p, 'k) mbedtls \<Rightarrow> bytes option \<Rightarrow> bytes option \<Rightarrow> bool \<Rightarrow> ('x, bytes) cm" where
  "rsp_ecdh_p256 M sk pk z_ok =
     bnd (ensure (\<not> (sk = None \<or> pk = None \<or> \<not> z_ok)) Minus1) (\<lambda>_.
     bnd rsp_rng_init (\<lambda>_.
     bnd (ext Minus1 (Some ())) (\<lambda>_.
     bnd (ext Minus1 (m_point_read M (m_p256 M) (the pk))) (\<lambda>q.
     bnd (ext Minus1 (Some (m_mpi_read M (the sk)))) (\<lambda>d.
     bnd (ext Minus1 (m_ecdh M (m_p256 M) q d)) (\<lambda>shared.
     ext Minus1 (m_mpi_write M shared 32)))))))"

definition be32 :: "32 word \<Rightarrow> bytes" where
  "be32 c = [ucast (drop_bit 24 c), ucast (drop_bit 16 c), ucast (drop_bit 8 c), ucast c]"

text \<open>The loop \<open>while (produced < out_len)\<close>.\<close>

function kdf_loop ::
  "('c, 'g, 'p, 'k) mbedtls \<Rightarrow> bytes \<Rightarrow> bytes \<Rightarrow> nat \<Rightarrow> nat \<Rightarrow> 32 word \<Rightarrow> (cbuf, unit) cm" where
  "kdf_loop M z info out_len produced counter =
     (if produced < out_len then
        bnd (ext Minus1 (Some (m_sha256 M (z @ be32 counter @ info)))) (\<lambda>digest.
        let chunk = (if out_len - produced > 32 then 32 else out_len - produced) in
        bnd get_loc (\<lambda>out.
        bnd (set_loc (Buf (take produced (cdata out) @ take chunk digest
                           @ drop (produced + chunk) (cdata out)))) (\<lambda>_.
        kdf_loop M z info out_len (produced + chunk) (counter + 1))))
      else ret ())"
  by pat_completeness auto
termination
  by (relation "measure (\<lambda>(M, z, info, out_len, produced, counter). out_len - produced)") auto

declare kdf_loop.simps [simp del]

definition zero_buf :: "cbuf \<Rightarrow> cbuf" where
  "zero_buf b = (case b of Null n \<Rightarrow> Null n | Buf d \<Rightarrow> Buf (replicate (length d) 0))"

definition rsp_kdf_x963 ::
  "('c, 'g, 'p, 'k) mbedtls \<Rightarrow> cbuf \<Rightarrow> cbuf \<Rightarrow> (cbuf, unit) cm" where
  "rsp_kdf_x963 M z info =
     bnd get_loc (\<lambda>out.
     bnd (ensure (\<not> ((is_null z \<and> clen z \<noteq> 0) \<or> (is_null info \<and> clen info \<noteq> 0) \<or>
                     (is_null out \<and> clen out \<noteq> 0))) Minus1) (\<lambda>_.
     if clen out = 0 then ret ()
     else
       bnd (ensure (clen z + 4 + clen info \<le> size_max) Undefined) (\<lambda>_.
       bnd (malloc Minus1 (clen z + 4 + clen info)) (\<lambda>_.
       on_stop (kdf_loop M (cdata z) (cdata info) (clen out) 0 1) zero_buf))))"

definition zero_session :: rsp_session where
  "zero_session = \<lparr>s_enc = replicate 16 0, s_mac = replicate 16 0, s_chain = replicate 16 0,
                   enc_counter = replicate 16 0\<rparr>"

definition rsp_session_wipe :: "rsp_session option \<Rightarrow> rsp_session option" where
  "rsp_session_wipe sp = (case sp of None \<Rightarrow> None | Some s \<Rightarrow> Some zero_session)"

definition rsp_session_init ::
  "('c, 'g, 'p, 'k) mbedtls \<Rightarrow> bytes option \<Rightarrow> bytes option \<Rightarrow> cbuf \<Rightarrow> (rsp_session option, unit) cm" where
  "rsp_session_init M otsk_dp otpk_euicc shared_info =
     bnd get_loc (\<lambda>out.
     bnd (ensure (\<not> (otsk_dp = None \<or> otpk_euicc = None \<or> out = None)) Minus1) (\<lambda>_.
     on_stop
       (bnd (set_loc (Some zero_session)) (\<lambda>_.
        bnd (recode Minus1 (rsp_ecdh_p256 M otsk_dp otpk_euicc True)) (\<lambda>z.
        bnd (recode Minus1 (nested (Buf (replicate 48 0)) (rsp_kdf_x963 M (Buf z) shared_info))) (\<lambda>r.
        let key_data = cdata (snd r) in
        set_loc (Some \<lparr>s_enc = take 16 (drop 16 key_data),
                       s_mac = take 16 (drop 32 key_data),
                       s_chain = take 16 key_data,
                       enc_counter = replicate 15 0 @ [1]\<rparr>)))))
       rsp_session_wipe))"

section \<open>The X9.63 value\<close>

definition kdf_block :: "('c, 'g, 'p, 'k) mbedtls \<Rightarrow> bytes \<Rightarrow> bytes \<Rightarrow> nat \<Rightarrow> bytes" where
  "kdf_block M z info i = m_sha256 M (z @ be32 (word_of_nat i) @ info)"

definition kdf_value :: "('c, 'g, 'p, 'k) mbedtls \<Rightarrow> bytes \<Rightarrow> bytes \<Rightarrow> nat \<Rightarrow> bytes" where
  "kdf_value M z info n = take n (concat (map (kdf_block M z info) [1..<1 + (n + 31) div 32]))"

definition hash_laws :: "('c, 'g, 'p, 'k) mbedtls \<Rightarrow> bool" where
  "hash_laws M \<longleftrightarrow> (\<forall>x. length (m_sha256 M x) = 32)"

text \<open>The 32-bit counter is written big-endian.\<close>

lemma be32_be_bytes: "be32 c = be_bytes 4 (unat c)"
proof -
  have "word_of_nat (unat c div 2 ^ k) = (ucast (drop_bit k c) :: u8)" for k
    by (simp flip: drop_bit_eq_div unat_drop_bit_eq)
  from this [of 24] this [of 16] this [of 8] show ?thesis
    by (simp add: be32_def be_bytes_small)
qed

lemma be32_val: "be_val (be32 c) = unat c"
proof -
  have "unat c < 2 ^ 32" by (rule order_less_le_trans [OF unsigned_less]) simp
  then show ?thesis by (simp add: be32_be_bytes be_val_be_bytes)
qed

lemma kdf_loop_value:
  assumes "hash_laws M" "faults w = []" "loc w = Buf o1" "length o1 = n" "produced \<le> n"
  shows "kdf_loop M z info n produced (word_of_nat c) w =
    (Inr (), w\<lparr>loc := Buf (take produced o1 @ take (n - produced)
        (concat (map (kdf_block M z info) [c..<c + (n - produced + 31) div 32])))\<rparr>)"
  using assms
proof (induction "n - produced" arbitrary: produced c o1 w rule: less_induct)
  case less
  show ?case
  proof (cases "produced < n")
    case False
    with less.prems show ?thesis by (simp add: kdf_loop.simps ret_def)
  next
    case True
    define chunk where "chunk = (if n - produced > 32 then 32 else n - produced)"
    define o2 where "o2 = take produced o1 @ take chunk (kdf_block M z info c) @ drop (produced + chunk) o1"
    have ch: "0 < chunk" "produced + chunk \<le> n" "chunk \<le> 32" using True by (auto simp: chunk_def)
    have lb: "length (kdf_block M z info c) = 32"
      using less.prems(1) by (simp add: kdf_block_def hash_laws_def)
    have l2: "length o2 = n" using lb ch less.prems by (simp add: o2_def)
    have step: "kdf_loop M z info n produced (word_of_nat c) w =
        kdf_loop M z info n (produced + chunk) (word_of_nat (Suc c)) (w\<lparr>loc := Buf o2\<rparr>)"
      using True less.prems
      by (subst kdf_loop.simps)
        (simp add: bnd_def get_loc_def set_loc_def chunk_def o2_def kdf_block_def Let_def add.commute)
    have "(n - produced + 31) div 32 = Suc ((n - (produced + chunk) + 31) div 32)"
      using True by (auto simp: chunk_def)
    moreover have "[c..<c + Suc m] = c # [Suc c..<Suc c + m]" for m
      by (simp add: upt_conv_Cons del: upt_Suc)
    ultimately have up: "[c..<c + (n - produced + 31) div 32] =
        c # [Suc c..<Suc c + (n - (produced + chunk) + 31) div 32]"
      by presburger
    have tk: "take (produced + chunk) o2 = take produced o1 @ take chunk (kdf_block M z info c)"
      using lb ch less.prems by (simp add: o2_def)
    have cut: "take (n - produced) (kdf_block M z info c @ rest) =
        take chunk (kdf_block M z info c) @ take (n - (produced + chunk)) rest" for rest
      using lb by (auto simp: chunk_def)
    have dec: "n - (produced + chunk) < n - produced" using ch True by linarith
    show ?thesis
      unfolding step up list.map concat.simps cut
      using less.hyps [OF dec, of "w\<lparr>loc := Buf o2\<rparr>" o2 "Suc c"] ch less.prems l2
      by (simp add: tk del: upt_Suc)
  qed
qed

lemma length_kdf_value:
  assumes "hash_laws M"
  shows "length (kdf_value M z info n) = n"
proof -
  have "length (concat (map (kdf_block M z info) xs)) = 32 * length xs" for xs
    using assms by (induction xs) (simp_all add: kdf_block_def hash_laws_def)
  moreover have "n \<le> 32 * ((n + 31) div 32)" by simp
  ultimately show ?thesis by (simp add: kdf_value_def min_def)
qed

text \<open>A run that succeeds is a run without failure.\<close>

lemma kdf_loop_run:
  "kdf_loop M z info n produced c w = (Inr u, w') \<Longrightarrow>
   loc w' = loc (snd (kdf_loop M z info n produced c (w\<lparr>faults := []\<rparr>)))"
proof (induction "n - produced" arbitrary: produced c w rule: less_induct)
  case less
  show ?case
  proof (cases "produced < n")
    case False
    with less.prems show ?thesis by (simp add: kdf_loop.simps [of M z info n produced c] ret_def)
  next
    case True
    define chunk where "chunk = (if n - produced > 32 then 32 else n - produced)"
    define b where "b = Buf (take produced (cdata (loc w)) @ take chunk (m_sha256 M (z @ be32 c @ info))
                             @ drop (produced + chunk) (cdata (loc w)))"
    have dec: "n - (produced + chunk) < n - produced" using True by (auto simp: chunk_def)
    have "kdf_loop M z info n (produced + chunk) (c + 1) (tick (w\<lparr>loc := b\<rparr>)) = (Inr u, w')"
      using less.prems True
      by (simp add: kdf_loop.simps [of M z info n produced c] cm_run Let_def chunk_def b_def)
    from less.hyps [OF dec this]
    have "loc w' = loc (snd (kdf_loop M z info n (produced + chunk) (c + 1) (w\<lparr>loc := b, faults := []\<rparr>)))"
      by (simp add: tick_def)
    moreover have "kdf_loop M z info n produced c (w\<lparr>faults := []\<rparr>) =
        kdf_loop M z info n (produced + chunk) (c + 1) (w\<lparr>faults := [], loc := b\<rparr>)"
      using True by (subst kdf_loop.simps)
        (simp add: bnd_def get_loc_def set_loc_def chunk_def b_def Let_def)
    moreover have "w\<lparr>faults := [], loc := b\<rparr> = w\<lparr>loc := b, faults := []\<rparr>" by simp
    ultimately show ?thesis by metis
  qed
qed

lemma kdf_ok:
  assumes "hash_laws M" "faults w = []" "loc w = Buf o1"
    and "length z + 4 + length info \<le> size_max"
  shows "rsp_kdf_x963 M (Buf z) (Buf info) w = (Inr (), w\<lparr>loc := Buf (kdf_value M z info (length o1))\<rparr>)"
  using assms kdf_loop_value [OF assms(1-3) refl, of 0 z info 1]
  by (auto simp: rsp_kdf_x963_def bnd_def get_loc_def ensure_def ret_def kdf_value_def on_stop_def)

lemma kdf_loop_length:
  assumes "hash_laws M" "length o1 = n" "produced \<le> n"
    and "kdf_loop M z info n produced c w = (r, w')" "loc w = Buf o1"
  shows "\<exists>o2. loc w' = Buf o2 \<and> length o2 = n"
  using assms
proof (induction "n - produced" arbitrary: produced c o1 w rule: less_induct)
  case less
  show ?case
  proof (cases "produced < n \<and> \<not> faulty w")
    case False
    with less.prems show ?thesis
      by (auto simp: kdf_loop.simps [of M z info n produced c] bnd_def ext_def ret_def
               split: if_splits)
  next
    case True
    define chunk where "chunk = (if n - produced > 32 then 32 else n - produced)"
    define o2 where "o2 = take produced o1 @ take chunk (m_sha256 M (z @ be32 c @ info))
                          @ drop (produced + chunk) o1"
    have ch: "0 < chunk" "produced + chunk \<le> n" "chunk \<le> 32" using True by (auto simp: chunk_def)
    have "length o2 = n" using ch less.prems(1-3) by (simp add: o2_def hash_laws_def)
    moreover have "kdf_loop M z info n (produced + chunk) (c + 1) (tick (w\<lparr>loc := Buf o2\<rparr>)) = (r, w')"
      using less.prems True
      by (auto simp: kdf_loop.simps [of M z info n produced c] bnd_def ext_def get_loc_def
                     set_loc_def Let_def chunk_def o2_def)
    ultimately show ?thesis
      using less.hyps [of "produced + chunk" o2 "c + 1" "tick (w\<lparr>loc := Buf o2\<rparr>)"] ch less.prems(1) True
      by auto
  qed
qed

lemma kdf_fail:
  assumes "rsp_kdf_x963 M (Buf z) (Buf info) w = (Inl e, w')" "loc w = Buf o1" "hash_laws M"
  shows "w' = tick w \<or> w' = w \<or> loc w' = Buf (replicate (length o1) 0)"
  using assms kdf_loop_length [OF assms(3), of o1 "length o1" 0]
  unfolding rsp_kdf_x963_def zero_buf_def
  by (fastforce simp: cm_run split: if_splits)

definition ecdh_value :: "('c, 'g, 'p, 'k) mbedtls \<Rightarrow> bytes \<Rightarrow> bytes \<Rightarrow> bytes option" where
  "ecdh_value M sk pk =
     Option.bind (m_point_read M (m_p256 M) pk) (\<lambda>q.
     Option.bind (m_ecdh M (m_p256 M) q (m_mpi_read M sk)) (\<lambda>x. m_mpi_write M x 32))"

lemma ecdh_run:
  "rsp_ecdh_p256 M (Some sk) (Some pk) True w = (Inr z, w') \<Longrightarrow>
   ecdh_value M sk pk = Some z \<and> loc w' = loc w"
  by (auto simp: rsp_ecdh_p256_def ecdh_value_def cm_run)

lemma ecdh_fail: "rsp_ecdh_p256 M sk pk b w = (Inl e, w') \<Longrightarrow> e = Minus1 \<and> loc w' = loc w"
  by (auto simp: rsp_ecdh_p256_def cm_run)

lemma ecdh_ok:
  "faults w = [] \<Longrightarrow> rsp_ecdh_p256 M (Some sk) (Some pk) True w =
     (case ecdh_value M sk pk of None \<Rightarrow> (Inl Minus1, w) | Some z \<Rightarrow> (Inr z, w))"
  by (auto simp: rsp_ecdh_p256_def ecdh_value_def bnd_def ensure_def ret_def
           split: option.splits bind_splits)

text \<open>Annex G: chaining value, S-ENC and S-MAC are consecutive sixteen-octet parts of KeyData;
  the encryption counter starts at one.\<close>

definition session_of :: "bytes \<Rightarrow> rsp_session" where
  "session_of key_data = \<lparr>s_enc = take 16 (drop 16 key_data), s_mac = take 16 (drop 32 key_data),
     s_chain = take 16 key_data, enc_counter = replicate 15 0 @ [1]\<rparr>"

lemma session_of_wf: "length kd = 48 \<Longrightarrow> session_wf (session_of kd)"
  by (simp add: session_wf_def session_of_def)

lemma session_init_ok:
  assumes "hash_laws M" "faults w = []" "loc w = Some s0" "ecdh_value M sk pk = Some z"
    and "length z + 4 + length info \<le> size_max"
  shows "rsp_session_init M (Some sk) (Some pk) (Buf info) w =
           (Inr (), w\<lparr>loc := Some (session_of (kdf_value M z info 48))\<rparr>)"
  using assms ecdh_ok [of "w\<lparr>loc := Some zero_session\<rparr>" M sk pk]
    kdf_ok [OF assms(1), of "\<lparr>faults = [], loc = Buf (replicate 48 0)\<rparr>" "replicate 48 0" z info]
  by (simp add: rsp_session_init_def bnd_def get_loc_def set_loc_def ensure_def ret_def on_stop_def
                recode_def nested_def session_of_def Let_def)

lemma session_init_fail:
  assumes "rsp_session_init M (Some sk) (Some pk) info w = (Inl e, w')" "loc w = Some s0"
  shows "loc w' = Some zero_session"
  using assms
  by (auto simp: rsp_session_init_def rsp_session_wipe_def Let_def cm_run
           dest!: ecdh_run ecdh_fail split: option.splits)

lemma kdf_run:
  assumes "rsp_kdf_x963 M (Buf z) (Buf info) w = (Inr u, w')" "hash_laws M" "loc w = Buf o1" "o1 \<noteq> []"
  shows "loc w' = Buf (kdf_value M z info (length o1))"
proof -
  from assms(1,3,4) have v: "kdf_loop M z info (length o1) 0 1 (tick w) = (Inr u, w')"
    by (auto simp: rsp_kdf_x963_def cm_run split: if_splits)
  from kdf_loop_run [OF v] kdf_loop_value [OF assms(2), of "(tick w)\<lparr>faults := []\<rparr>" o1 "length o1" 0 z info 1] assms(3)
  show ?thesis by (simp add: kdf_value_def)
qed

lemma session_init_run:
  assumes "rsp_session_init M (Some sk) (Some pk) (Buf info) w = (Inr u, w')" "hash_laws M"
  obtains z where "ecdh_value M sk pk = Some z" "loc w' = Some (session_of (kdf_value M z info 48))"
proof -
  let ?v = "w\<lparr>loc := Some zero_session\<rparr>"
  from assms(1) obtain z w1 w2 where
    1: "rsp_ecdh_p256 M (Some sk) (Some pk) True ?v = (Inr z, w1)" and
    2: "rsp_kdf_x963 M (Buf z) (Buf info) \<lparr>faults = faults w1, loc = Buf (replicate 48 0)\<rparr> = (Inr (), w2)" and
    3: "loc w' = Some \<lparr>s_enc = take 16 (drop 16 (cdata (loc w2))), s_mac = take 16 (drop 32 (cdata (loc w2))),
        s_chain = take 16 (cdata (loc w2)), enc_counter = replicate 15 0 @ [1]\<rparr>"
    by (auto simp: rsp_session_init_def cm_run Let_def)
  from ecdh_run [OF 1] kdf_run [OF 2 assms(2)] 3 show ?thesis
    by (intro that [of z]) (auto simp: session_of_def)
qed

end
