(* ===== verification/Asn1.thy ===== *)
theory Asn1
  imports Mbed
begin

text \<open>
  The types of \<open>rsp-2.5.asn\<close> that the library handles, and the interface of the code that
  asn1c generates from that module at build time: encoders, decoders and the runtime's
  \<open>ber_fetch_tag\<close> / \<open>ber_fetch_length\<close>. That code is not in the repository, so the record
  \<open>asn1c\<close> is a parameter of every definition that uses it. An encoder yields the blocks it
  hands to its output callback, in order; \<open>None\<close> is a failed encoding or decoding.
  \<open>'a\<close> is the decoded form of a \<open>Certificate\<close>.

  \<open>ber_laws\<close> states the documented reading rules of X.690 8.1.2 and 8.1.3 for the two fetch
  functions on the forms the library writes, and that they never consume more than they have.
\<close>

record isc_request =
  isc_remoteOpId :: int
  isc_transactionId :: bytes
  isc_keyType :: bytes
  isc_keyLen :: bytes
  isc_hostId :: bytes
  isc_smdpOtpk :: bytes
  isc_smdpSign :: bytes

record configure_isdp =
  dpProprietaryData :: "bytes option"

record store_metadata =
  sm_iccid :: bytes
  sm_serviceProviderName :: bytes
  sm_profileName :: bytes
  sm_others :: bytes

record server_signed1 =
  ss1_transactionId :: bytes
  ss1_euiccChallenge :: bytes
  ss1_serverAddress :: bytes
  ss1_serverChallenge :: bytes

record 'a init_auth_ok =
  ia_transactionId :: bytes
  ia_serverSigned1 :: server_signed1
  ia_serverSignature1 :: bytes
  ia_euiccCiPKIdToBeUsed :: bytes
  ia_serverCertificate :: 'a

record euicc_signed1 =
  es1_transactionId :: bytes
  es1_serverAddress :: bytes
  es1_serverChallenge :: bytes
  es1_euiccInfo2 :: bytes
  es1_ctxParams1 :: bytes

record 'a auth_response_ok =
  ar_euiccSigned1 :: euicc_signed1
  ar_euiccSignature1 :: bytes
  ar_euiccCertificate :: 'a
  ar_eumCertificate :: 'a

datatype 'a auth_server_response =
  AuthenticateResponseOk "'a auth_response_ok" | AuthenticateResponseError

record smdp_signed2 =
  sd2_transactionId :: bytes
  sd2_ccRequiredFlag :: bool
  sd2_bppEuiccOtpk :: "bytes option"

record 'a auth_client_ok =
  ac_transactionId :: bytes
  ac_profileMetaData :: store_metadata
  ac_smdpSigned2 :: smdp_signed2
  ac_smdpSignature2 :: bytes
  ac_smdpCertificate :: 'a

record euicc_signed2 =
  es2_transactionId :: bytes
  es2_euiccOtpk :: bytes
  es2_hashCc :: "bytes option"

record download_ok =
  pd_euiccSigned2 :: euicc_signed2
  pd_euiccSignature2 :: bytes

datatype prepare_download_response = DownloadResponseOk download_ok | DownloadResponseError

text \<open>An INTEGER is its content octets, a BIT STRING its octets and the unused bits of the last.\<close>

record notification_metadata =
  nm_seqNumber :: bytes
  nm_operation :: bytes
  nm_bits_unused :: nat
  nm_iccid :: "bytes option"

datatype final_result =
  SuccessResult | ErrorResult bytes bytes | NoResult

record installation_result =
  pir_transactionId :: bytes
  pir_metadata :: notification_metadata
  pir_finalResult :: final_result
  pir_euiccSignPIR :: bytes

record other_signed_notification =
  osn_tbs :: notification_metadata
  osn_signature :: bytes

record 'a asn1c =
  a_fetch_tag :: "bytes \<Rightarrow> int \<times> nat"
  a_fetch_length :: "bool \<Rightarrow> bytes \<Rightarrow> int \<times> int"
  a_constructed :: "u8 \<Rightarrow> bool"
  a_integer2long :: "bytes \<Rightarrow> int option"
  a_enc_isc :: "isc_request \<Rightarrow> bytes list option"
  a_enc_configure :: "configure_isdp \<Rightarrow> bytes list option"
  a_dec_euicc_info1 :: "bytes \<Rightarrow> bool"
  a_enc_server_signed1 :: "server_signed1 \<Rightarrow> bytes list option"
  a_enc_init_auth_ok :: "'a init_auth_ok \<Rightarrow> bytes list option"
  a_dec_certificate :: "bytes \<Rightarrow> 'a option"
  a_enc_certificate :: "'a \<Rightarrow> bytes list option"
  a_dec_store_metadata :: "bytes \<Rightarrow> store_metadata option"
  a_dec_auth_server_response :: "bytes \<Rightarrow> 'a auth_server_response option"
  a_enc_euicc_signed1 :: "euicc_signed1 \<Rightarrow> bytes list option"
  a_enc_smdp_signed2 :: "smdp_signed2 \<Rightarrow> bytes list option"
  a_enc_auth_client_ok :: "'a auth_client_ok \<Rightarrow> bytes list option"
  a_dec_prepare_download :: "bytes \<Rightarrow> prepare_download_response option"
  a_enc_euicc_signed2 :: "euicc_signed2 \<Rightarrow> bytes list option"
  a_dec_installation_result :: "bytes \<Rightarrow> installation_result option"
  a_dec_other_notification :: "bytes \<Rightarrow> other_signed_notification option"

text \<open>The packed tag of \<open>ber_tlv_tag.h\<close>: class in the low two bits, tag number above them.\<close>

definition packed_tag :: "nat \<Rightarrow> nat \<Rightarrow> nat" where
  "packed_tag class num = num * 4 + class"

definition ber_laws :: "'a asn1c \<Rightarrow> bool" where
  "ber_laws A \<longleftrightarrow>
     (\<forall>bs. fst (a_fetch_tag A bs) \<le> int (length bs)) \<and>
     (\<forall>c bs. fst (a_fetch_length A c bs) \<le> int (length bs)) \<and>
     (\<forall>b rest. unat b mod 32 < 31 \<longrightarrow>
        a_fetch_tag A (b # rest) = (1, packed_tag (unat b div 64) (unat b mod 32))) \<and>
     (\<forall>b c rest. unat b mod 32 = 31 \<and> 30 < unat c \<and> unat c < 128 \<longrightarrow>
        a_fetch_tag A (b # c # rest) = (2, packed_tag (unat b div 64) (unat c))) \<and>
     (\<forall>c n lo rest. rsp_der_length_octets n = Some lo \<longrightarrow>
        a_fetch_length A c (lo @ rest) = (int (length lo), int n))"

text \<open>asn1c counts the octets of an encoding in an \<open>ssize_t\<close>, so no encoding is longer than
  that type's range.\<close>

definition bounded_enc :: "('b \<Rightarrow> bytes list option) \<Rightarrow> bool" where
  "bounded_enc f \<longleftrightarrow> (\<forall>x bs. f x = Some bs \<longrightarrow> length (concat bs) \<le> 2 ^ 63 - 1)"

definition enc_laws :: "'a asn1c \<Rightarrow> bool" where
  "enc_laws A \<longleftrightarrow> bounded_enc (a_enc_isc A) \<and> bounded_enc (a_enc_configure A) \<and>
     bounded_enc (a_enc_server_signed1 A) \<and> bounded_enc (a_enc_init_auth_ok A) \<and>
     bounded_enc (a_enc_certificate A) \<and> bounded_enc (a_enc_euicc_signed1 A) \<and>
     bounded_enc (a_enc_smdp_signed2 A) \<and> bounded_enc (a_enc_auth_client_ok A) \<and>
     bounded_enc (a_enc_euicc_signed2 A)"

section \<open>Encoding through the output callback\<close>

definition der_collect :: "growbuf \<Rightarrow> bytes \<Rightarrow> ('x, growbuf) cm" where
  "der_collect key buf = recode Minus1 (rsp_growbuf_append key buf)"

text \<open>\<open>der_encode_alloc\<close>: the encoder runs the callback on each block and fails when the callback
  does; the buffer's bytes are the result.\<close>

definition der_encode_alloc :: "bytes list option \<Rightarrow> ('x, bytes) cm" where
  "der_encode_alloc blocks =
     bnd (lift_opt Minus1 blocks) (\<lambda>bs.
     bnd (append_blocks der_collect empty_growbuf bs) (\<lambda>g.
     ret (gb_bytes g)))"

lemma der_collect_run:
  "gb_ok g \<Longrightarrow> der_collect g d w = (Inr g', w') \<Longrightarrow>
     gb_ok g' \<and> gb_bytes g' = gb_bytes g @ d \<and> loc w' = loc w"
  by (auto simp: der_collect_def cm_run dest: growbuf_append_run)

lemma der_collect_fail: "der_collect g d w = (Inl e, w') \<Longrightarrow> loc w' = loc w"
  by (auto simp: der_collect_def cm_run dest: growbuf_append_fail)

lemma der_collect_total:
  "gb_ok g \<Longrightarrow> faults w = [] \<Longrightarrow> length (gb_bytes g) + length d \<le> 2 ^ 63 \<Longrightarrow>
     \<exists>g'. der_collect g d w = (Inr g', w)"
  using growbuf_append_total [of g w d] by (auto simp: der_collect_def recode_def)

interpretation dc: byte_buffer
  "der_collect :: growbuf \<Rightarrow> bytes \<Rightarrow> ('x, growbuf) cm" gb_ok gb_bytes "2 ^ 63"
proof (unfold_locales, goal_cases)
  case 1
  then show ?case by (rule der_collect_run)
next
  case 2
  then show ?case by (auto dest: der_collect_fail)
next
  case 3
  then show ?case by (rule der_collect_total)
qed

lemma der_encode_run:
  assumes "der_encode_alloc blocks w = (Inr out, w')"
  shows "\<exists>bs. blocks = Some bs \<and> out = concat bs \<and> loc w' = loc w"
  using assms dc.blocks_run [OF gb_ok_empty(1)]
  by (fastforce simp: der_encode_alloc_def cm_run)

lemma der_encode_ok:
  assumes "faults w = []" "length (concat bs) \<le> 2 ^ 63"
  shows "der_encode_alloc (Some bs) w = (Inr (concat bs), w)"
proof -
  obtain g where g: "append_blocks der_collect empty_growbuf bs w = (Inr g, w)"
    using dc.blocks_total [OF gb_ok_empty(1) assms(1)] assms(2) by auto
  with dc.blocks_run [OF gb_ok_empty(1) g] show ?thesis
    by (simp add: der_encode_alloc_def bnd_def lift_opt_def ret_def)
qed

lemma der_encode_some:
  assumes "bounded_enc f" "f x = Some bs" "faults w = []"
  shows "der_encode_alloc (Some bs) w = (Inr (concat bs), w)"
proof -
  have "length (concat bs) \<le> 2 ^ 63 - 1" using assms(1,2) unfolding bounded_enc_def by blast
  then have "length (concat bs) \<le> 2 ^ 63" by linarith
  then show ?thesis by (rule der_encode_ok [OF assms(3)])
qed

lemma keeps_der_encode [keeps_intros]: "keeps (der_encode_alloc blocks)"
  unfolding der_encode_alloc_def der_collect_def by (intro keeps_intros)

lemma der_encode_fail: "der_encode_alloc blocks w = (Inl e, w') \<Longrightarrow> loc w' = loc w"
  by (rule keepsD [OF keeps_der_encode])

lemma ber_fetch_bounds:
  assumes "ber_laws A"
  shows "fst (a_fetch_tag A bs) \<le> int (length bs)" "fst (a_fetch_length A c bs) \<le> int (length bs)"
  using assms by (simp_all add: ber_laws_def)

lemma ber_fetch_low:
  "ber_laws A \<Longrightarrow> unat b mod 32 < 31 \<Longrightarrow>
     a_fetch_tag A (b # rest) = (1, packed_tag (unat b div 64) (unat b mod 32))"
  by (simp add: ber_laws_def)

lemma ber_fetch_high:
  "ber_laws A \<Longrightarrow> unat b mod 32 = 31 \<Longrightarrow> 30 < unat c \<Longrightarrow> unat c < 128 \<Longrightarrow>
     a_fetch_tag A (b # c # rest) = (2, packed_tag (unat b div 64) (unat c))"
  by (simp add: ber_laws_def)

lemma ber_fetch_len:
  "ber_laws A \<Longrightarrow> rsp_der_length_octets n = Some lo \<Longrightarrow>
     a_fetch_length A c (lo @ rest) = (int (length lo), int n)"
  by (simp add: ber_laws_def)

end
