(* ===== verification/Tlv.thy ===== *)
theory Tlv
  imports Asn1
begin

text \<open>
  Writing and reading TLVs by hand: \<open>put_tlv_tag\<close>, \<open>put_tlv\<close> and \<open>read_tlv\<close> of
  \<open>src/rsp_bpp.c\<close>, the walkers \<open>find_tlv\<close> and \<open>step_tlv\<close> over \<open>ber_fetch_tag\<close> and
  \<open>ber_fetch_length\<close>, and the self-contained walker \<open>parse_tlv\<close> with \<open>take_field\<close> and the two
  response readers \<open>rsp_dp_initiate_fields\<close> and \<open>rsp_dp_authenticate_fields\<close> of
  \<open>src/rsp_es9.c\<close>. A pointer into a received buffer is an offset into it; every read goes
  through \<open>rd\<close> or \<open>rd_block\<close>, so reading outside the buffer shows as \<open>Undefined\<close>.
\<close>

unbundle bit_operations_syntax

section \<open>Writing\<close>

definition put_tlv_tag :: "growbuf \<Rightarrow> bytes \<Rightarrow> bytes \<Rightarrow> ('x, growbuf) cm" where
  "put_tlv_tag g tag content =
     bnd (lift_opt Minus1 (rsp_der_length_octets (length content))) (\<lambda>lo.
     bnd (recode Minus1 (rsp_growbuf_append g tag)) (\<lambda>g.
     bnd (recode Minus1 (rsp_growbuf_append g lo)) (\<lambda>g.
     if length content \<noteq> 0 then recode Minus1 (rsp_growbuf_append g content) else ret g)))"

definition put_tlv :: "growbuf \<Rightarrow> u8 \<Rightarrow> bytes \<Rightarrow> ('x, growbuf) cm" where
  "put_tlv g tag content = put_tlv_tag g [tag] content"

text \<open>The TLV a writer appends.\<close>

definition tlv :: "bytes \<Rightarrow> bytes \<Rightarrow> bytes" where
  "tlv tag content = tag @ the (rsp_der_length_octets (length content)) @ content"

section \<open>Reading through the asn1c runtime\<close>

text \<open>\<open>p\<close> is the rest of the buffer from the pointer on; the result is the size of the whole TLV,
  its packed tag and its content. The sum of the three lengths cannot wrap: the first two are
  at most \<open>n\<close> and the third is a non-negative \<open>ssize_t\<close>.\<close>

definition read_tlv :: "'a asn1c \<Rightarrow> bytes \<Rightarrow> (nat \<times> nat \<times> bytes) option" where
  "read_tlv A p =
     (case a_fetch_tag A p of (tag_len, t) \<Rightarrow>
      if tag_len \<le> 0 then None
      else case a_fetch_length A (a_constructed A (hd p)) (drop (nat tag_len) p) of (len_len, len) \<Rightarrow>
      if len_len \<le> 0 \<or> len < 0 then None
      else if nat tag_len + nat len_len + nat len > length p then None
      else Some (nat tag_len + nat len_len + nat len, t,
                 take (nat len) (drop (nat tag_len + nat len_len) p)))"

definition find_tlv :: "'a asn1c \<Rightarrow> bytes \<Rightarrow> nat \<Rightarrow> bytes \<Rightarrow> ('x, nat \<times> nat) cm" where
  "find_tlv A buf off want =
     bnd (ensure (\<not> off > length buf) Minus1) (\<lambda>_.
     case a_fetch_tag A (drop off buf) of (tn, tag) \<Rightarrow>
     bnd (ensure (\<not> tn \<le> 0) Minus1) (\<lambda>_.
     bnd (ensure (nat tn = length want) Minus1) (\<lambda>_.
     bnd (rd_block buf off (length want)) (\<lambda>got.
     bnd (ensure (got = want) Minus1) (\<lambda>_.
     bnd (rd buf off) (\<lambda>b0.
     case a_fetch_length A (a_constructed A b0) (drop (off + nat tn) buf) of (ll, content) \<Rightarrow>
     bnd (ensure (\<not> (ll \<le> 0 \<or> content < 0)) Minus1) (\<lambda>_.
     bnd (ensure (\<not> nat content > size_sub (length buf - off - nat tn) (nat ll)) Minus1) (\<lambda>_.
     ret (off, nat tn + nat ll + nat content)))))))))"

text \<open>The result: where the whole TLV starts and its length, where its value starts and its
  length, and the advanced offset.\<close>

definition step_tlv ::
  "'a asn1c \<Rightarrow> bytes \<Rightarrow> nat \<Rightarrow> nat \<Rightarrow> ('x, (nat \<times> nat) \<times> (nat \<times> nat) \<times> nat) cm" where
  "step_tlv A buf end off =
     bnd (ensure (\<not> off \<ge> end) Minus1) (\<lambda>_.
     case a_fetch_tag A (take (end - off) (drop off buf)) of (tn, t) \<Rightarrow>
     bnd (ensure (\<not> tn \<le> 0) Minus1) (\<lambda>_.
     bnd (rd buf off) (\<lambda>b0.
     case a_fetch_length A (a_constructed A b0)
            (take (end - off - nat tn) (drop (off + nat tn) buf)) of (ll, cl) \<Rightarrow>
     bnd (ensure (\<not> (ll \<le> 0 \<or> cl < 0)) Minus1) (\<lambda>_.
     let hdr = nat tn + nat ll in
     bnd (ensure (\<not> nat cl > size_sub (end - off) hdr) Minus1) (\<lambda>_.
     ret ((off, hdr + nat cl), (off + hdr, nat cl), off + (hdr + nat cl)))))))"

section \<open>The self-contained walker\<close>

text \<open>\<open>while (p < end && (buf[p] & 0x80)) p++;\<close>\<close>

function tag_cont :: "bytes \<Rightarrow> nat \<Rightarrow> nat \<Rightarrow> ('x, nat) cm" where
  "tag_cont buf end p =
     (if p < end then
        bnd (rd buf p) (\<lambda>b. if b AND 0x80 \<noteq> 0 then tag_cont buf end (p + 1) else ret p)
      else ret p)"
  by pat_completeness auto
termination
  by (relation "measure (\<lambda>(buf, end, p). end - p)") auto

declare tag_cont.simps [simp del]

text \<open>\<open>for (i = 0; i < n; i++) len = (len << 8) | buf[p + i];\<close>\<close>

fun len_loop :: "bytes \<Rightarrow> nat \<Rightarrow> nat \<Rightarrow> 64 word \<Rightarrow> ('x, 64 word) cm" where
  "len_loop buf p 0 len = ret len"
| "len_loop buf p (Suc n) len =
     bnd (rd buf p) (\<lambda>b. len_loop buf (Suc p) n (push_bit 8 len OR ucast b))"

text \<open>From the tag's last octet on: the length octets and the check that the value fits.\<close>

definition parse_tlv_rest :: "bytes \<Rightarrow> nat \<Rightarrow> nat \<Rightarrow> ('x, nat \<times> nat \<times> nat) cm" where
  "parse_tlv_rest buf end lst =
     (let p = lst + 1 in
     bnd (ensure (\<not> p \<ge> end) Minus1) (\<lambda>_.
     bnd (rd buf p) (\<lambda>l.
     bnd (if l < 0x80 then ret (p + 1, unat l)
          else
            let n = unat (l AND 0x7F); p = p + 1 in
            bnd (ensure (\<not> (n = 0 \<or> n > 8 \<or> n > end - p)) Minus1) (\<lambda>_.
            bnd (len_loop buf p n 0) (\<lambda>len.
            ret (p + n, unat len)))) (\<lambda>(p, len).
     bnd (ensure (\<not> len > end - p) Minus1) (\<lambda>_.
     ret (p, len, p + len))))))"

text \<open>The result: where the value starts, its length, and where the next TLV begins.\<close>

definition parse_tlv :: "bytes \<Rightarrow> nat \<Rightarrow> nat \<Rightarrow> ('x, nat \<times> nat \<times> nat) cm" where
  "parse_tlv buf end off =
     bnd (ensure (\<not> off \<ge> end) Minus1) (\<lambda>_.
     bnd (rd buf off) (\<lambda>t.
     bnd (if t AND 0x1F = 0x1F then
            bnd (tag_cont buf end (off + 1)) (\<lambda>p.
            bnd (ensure (\<not> p \<ge> end) Minus1) (\<lambda>_. ret p))
          else ret off) (\<lambda>p.
     parse_tlv_rest buf end p)))"

text \<open>The field's slice of \<open>buf\<close>, and the offset past it.\<close>

definition take_field :: "bytes \<Rightarrow> nat \<Rightarrow> nat \<Rightarrow> ('x, (nat \<times> nat) \<times> nat) cm" where
  "take_field buf end off =
     bnd (parse_tlv buf end off) (\<lambda>(v_off, v_len, next).
     ret ((off, next - off), next))"

record rsp_dp_fields =
  field1 :: "nat \<times> nat"
  field2 :: "nat \<times> nat"
  field3 :: "nat \<times> nat"
  field4 :: "nat \<times> nat"
  field5 :: "nat \<times> nat"

text \<open>Both readers cut the five members of a SEQUENCE, in order: for
  \<open>rsp_dp_initiate_fields_t\<close> transaction_id, server_signed1, server_signature1, euicc_ci_pkid,
  server_certificate; for \<open>rsp_dp_authenticate_fields_t\<close> transaction_id, profile_metadata,
  smdp_signed2, smdp_signature2, smdp_certificate.\<close>

definition rsp_dp_initiate_fields :: "cbuf \<Rightarrow> bool \<Rightarrow> ('x, rsp_dp_fields) cm" where
  "rsp_dp_initiate_fields resp out_ok =
     bnd (ensure (\<not> (is_null resp \<or> \<not> out_ok)) Minus2) (\<lambda>_.
     let buf = cdata resp in
     bnd (parse_tlv buf (length buf) 0) (\<lambda>(v_off, v_len, next).
     let end = v_off + v_len in
     bnd (take_field buf end v_off) (\<lambda>(f1, off).
     bnd (take_field buf end off) (\<lambda>(f2, off).
     bnd (take_field buf end off) (\<lambda>(f3, off).
     bnd (take_field buf end off) (\<lambda>(f4, off).
     bnd (take_field buf end off) (\<lambda>(f5, off).
     ret \<lparr>field1 = f1, field2 = f2, field3 = f3, field4 = f4, field5 = f5\<rparr>)))))))"

definition rsp_dp_authenticate_fields :: "cbuf \<Rightarrow> bool \<Rightarrow> ('x, rsp_dp_fields) cm" where
  "rsp_dp_authenticate_fields resp out_ok =
     bnd (ensure (\<not> (is_null resp \<or> \<not> out_ok)) Minus2) (\<lambda>_.
     let buf = cdata resp in
     bnd (parse_tlv buf (length buf) 0) (\<lambda>(v_off, v_len, next).
     bnd (parse_tlv buf (v_off + v_len) v_off) (\<lambda>(v_off, v_len, next).
     let end = v_off + v_len in
     bnd (take_field buf end v_off) (\<lambda>(f1, off).
     bnd (take_field buf end off) (\<lambda>(f2, off).
     bnd (take_field buf end off) (\<lambda>(f3, off).
     bnd (take_field buf end off) (\<lambda>(f4, off).
     bnd (take_field buf end off) (\<lambda>(f5, off).
     ret \<lparr>field1 = f1, field2 = f2, field3 = f3, field4 = f4, field5 = f5\<rparr>))))))))"

definition slice :: "bytes \<Rightarrow> nat \<times> nat \<Rightarrow> bytes" where
  "slice buf f = take (snd f) (drop (fst f) buf)"

section \<open>What the writers append\<close>

lemma put_tlv_tag_run:
  assumes "gb_ok g" "put_tlv_tag g tag content w = (Inr g', w')"
  shows "gb_ok g' \<and> gb_bytes g' = gb_bytes g @ tlv tag content \<and> loc w' = loc w \<and>
         length content \<le> 0xFFFFFFFF"
proof -
  from assms(2) obtain lo g1 w1 g2 w2 where
    lo: "rsp_der_length_octets (length content) = Some lo"
    and 1: "rsp_growbuf_append g tag w = (Inr g1, w1)"
    and 2: "rsp_growbuf_append g1 lo w1 = (Inr g2, w2)"
    and 3: "(if length content \<noteq> 0 then recode Minus1 (rsp_growbuf_append g2 content) else ret g2) w2
              = (Inr g', w')"
    unfolding put_tlv_tag_def by (auto simp only: cm_run)
  from lo have le: "length content \<le> 0xFFFFFFFF"
    using der_length_refused [of "length content"] by simp
  from growbuf_append_run [OF assms(1) 1] growbuf_append_run [OF _ 2]
  have g2: "gb_ok g2" "gb_bytes g2 = gb_bytes g @ tag @ lo" "loc w2 = loc w" by auto
  with 3 le lo show ?thesis
    by (cases "content = []") (auto simp: cm_run tlv_def dest!: growbuf_append_run [OF g2(1)])
qed

lemma keeps_put_tlv [keeps_intros]: "keeps (put_tlv_tag g tag content)" "keeps (put_tlv g t content)"
  unfolding put_tlv_def put_tlv_tag_def by (intro keeps_intros)+

lemma put_tlv_tag_ok:
  assumes "gb_ok g" "faults w = []" "length content \<le> 0xFFFFFFFF"
    and "length (gb_bytes g) + length (tlv tag content) \<le> 2 ^ 63"
  shows "\<exists>g'. put_tlv_tag g tag content w = (Inr g', w)"
proof -
  obtain lo where lo: "rsp_der_length_octets (length content) = Some lo"
    using der_length_refused [of "length content"] assms(3) by fastforce
  then have len: "length (gb_bytes g) + length tag + length lo + length content \<le> 2 ^ 63"
    using assms(4) by (simp add: tlv_def)
  obtain g1 where 1: "rsp_growbuf_append g tag w = (Inr g1, w)"
    using growbuf_append_total [OF assms(1,2), of tag] len by auto
  note g1 = growbuf_append_run [OF assms(1) 1]
  obtain g2 where 2: "rsp_growbuf_append g1 lo w = (Inr g2, w)"
    using growbuf_append_total [of g1 w lo] assms(2) g1 len by auto
  note g2 = growbuf_append_run [OF conjunct1 [OF g1] 2]
  obtain g3 where 3: "rsp_growbuf_append g2 content w = (Inr g3, w)"
    using growbuf_append_total [of g2 w content] assms(2) g1 g2 len by auto
  from lo 1 2 3 show ?thesis
    by (simp add: put_tlv_tag_def bnd_def lift_opt_def ret_def recode_def)
qed

section \<open>Reading back what was written\<close>

text \<open>The tag octets the library writes: one octet in low-tag-number form, or two in
  high-tag-number form.\<close>

definition tag_class_num :: "bytes \<Rightarrow> (nat \<times> nat) option" where
  "tag_class_num tag = (case tag of
       [b] \<Rightarrow> if unat b mod 32 < 31 then Some (unat b div 64, unat b mod 32) else None
     | [b, c] \<Rightarrow> if unat b mod 32 = 31 \<and> 30 < unat c \<and> unat c < 128
                then Some (unat b div 64, unat c) else None
     | _ \<Rightarrow> None)"

lemma fetch_tag_octets:
  assumes "ber_laws A" "tag_class_num tag = Some (c, n)"
  shows "a_fetch_tag A (tag @ rest) = (int (length tag), packed_tag c n)" and "0 < length tag"
  using assms
  by (auto simp: tag_class_num_def ber_fetch_low ber_fetch_high split: list.splits if_splits)

lemma read_tlv_bounds:
  assumes "read_tlv A p = Some (n, t, v)"
  shows "0 < n \<and> n \<le> length p \<and> length v < n"
proof -
  from assms obtain tn ll len where r: "0 < tn" "0 < ll" "n = nat tn + nat ll + nat len"
    "v = take (nat len) (drop (nat tn + nat ll) p)" "n \<le> length p"
    by (auto simp: read_tlv_def not_le split: prod.splits if_splits)
  have "length v \<le> nat len" unfolding r(4) by simp
  moreover have "0 < nat tn" using r(1) by simp
  ultimately show ?thesis using r(3,5) by linarith
qed

lemma der_octets_exist:
  assumes "n \<le> 0xFFFFFFFF"
  obtains lo where "rsp_der_length_octets n = Some lo" "lo \<noteq> []"
proof -
  obtain lo where lo: "rsp_der_length_octets n = Some lo"
    using der_length_refused [of n] assms by fastforce
  moreover from der_length_size [OF this] have "lo \<noteq> []" by auto
  ultimately show thesis by (rule that)
qed

lemma read_tlv_tlv:
  assumes "ber_laws A" "tag_class_num tag = Some (c, n)" "length v \<le> 0xFFFFFFFF"
  shows "read_tlv A (tlv tag v @ rest) = Some (length (tlv tag v), packed_tag c n, v)"
proof -
  obtain lo where lo: "rsp_der_length_octets (length v) = Some lo" "lo \<noteq> []"
    using assms(3) by (rule der_octets_exist)
  then show ?thesis
    using fetch_tag_octets(1) [OF assms(1,2), of "lo @ v @ rest"] fetch_tag_octets(2) [OF assms(1,2)]
      ber_fetch_len [OF assms(1) lo(1)]
    by (simp add: read_tlv_def tlv_def)
qed

section \<open>The self-contained walker stays inside its buffer\<close>

lemma tag_cont_wp:
  assumes "end \<le> length buf" "p \<le> end"
  shows "\<exists>q. tag_cont buf end p w = (Inr q, w) \<and> p \<le> q \<and> q \<le> end"
  using assms
proof (induction buf "end" p rule: tag_cont.induct)
  case (1 buf en p)
  show ?case
  proof (cases "p < en \<and> buf ! p AND 0x80 \<noteq> 0")
    case True
    with 1 obtain q where "tag_cont buf en (p + 1) w = (Inr q, w)" "p + 1 \<le> q" "q \<le> en" by auto
    with True 1(2) show ?thesis
      by (intro exI [of _ q]) (simp add: tag_cont.simps [of buf en p] bnd_def rd_def ret_def)
  next
    case False
    with 1(2,3) show ?thesis
      by (intro exI [of _ p]) (auto simp: tag_cont.simps [of buf en p] bnd_def rd_def ret_def)
  qed
qed

lemma shift_or_byte: "push_bit 8 x OR ucast (b::u8) = x * 256 + (ucast b :: 64 word)"
proof -
  have "push_bit 8 x AND ucast b = 0"
    by (rule bit_eqI) (auto simp: bit_simps dest: bit_imp_le_length)
  then have "push_bit 8 x OR ucast b = push_bit 8 x + ucast b"
    by (subst disjunctive_add) (auto simp: bit_eq_iff bit_simps)
  then show ?thesis by (simp add: push_bit_eq_mult)
qed

lemma len_loop_value:
  assumes "p + n \<le> length buf"
  shows "len_loop buf p n len w = (Inr (len * 256 ^ n + word_of_nat (be_val (take n (drop p buf)))), w)"
  using assms
proof (induction n arbitrary: p len)
  case 0
  then show ?case by (simp add: ret_def)
next
  case (Suc n)
  have t: "take (Suc n) (drop p buf) = buf ! p # take n (drop (Suc p) buf)"
    using Suc.prems by (simp add: Cons_nth_drop_Suc [symmetric])
  have u: "(ucast (buf ! p) :: 64 word) = word_of_nat (unat (buf ! p))" by simp
  have l: "length (take n (drop (Suc p) buf)) = n" using Suc.prems by simp
  show ?case unfolding t be_val.simps l using Suc
    by (simp add: bnd_def rd_def ret_def shift_or_byte u algebra_simps
             del: unsigned_ucast_eq of_nat_unat)
qed

lemma wp_len_loop [wp_simps]:
  "p + n \<le> length buf \<Longrightarrow> wp (len_loop buf p n len) Q E w =
     Q (len * 256 ^ n + word_of_nat (be_val (take n (drop p buf)))) w"
  by (simp add: wp_def len_loop_value)

text \<open>Whatever the octets are, the walker reads inside \<open>buf[0..end)\<close> only, and what it accepts lies
  inside it.\<close>

lemma parse_tlv_rest_wp:
  assumes "end \<le> length buf" "off \<le> p"
  shows "wp (parse_tlv_rest buf end p)
    (\<lambda>(v, l, n) w'. off < v \<and> v + l = n \<and> n \<le> end \<and> w' = w) (\<lambda>e w'. e = Minus1 \<and> w' = w) w"
  unfolding parse_tlv_rest_def Let_def using assms by (auto simp: wp_simps Let_def not_le)

lemma parse_tlv_wp:
  assumes "end \<le> length buf"
  shows "wp (parse_tlv buf end off)
    (\<lambda>(v, l, n) w'. off < v \<and> v + l = n \<and> n \<le> end \<and> w' = w) (\<lambda>e w'. e = Minus1 \<and> w' = w) w"
proof (cases "off < end \<and> buf ! off AND 0x1F = 0x1F")
  case True
  then obtain q where q: "tag_cont buf end (off + 1) w = (Inr q, w)" "off + 1 \<le> q" "q \<le> end"
    using tag_cont_wp [OF assms, of "off + 1" w] by auto
  then have "wp (tag_cont buf end (off + 1)) Q E w = Q q w" for Q E by (simp add: wp_def)
  with True q assms parse_tlv_rest_wp [OF assms, of off q w] show ?thesis
    unfolding parse_tlv_def by (simp add: wp_simps)
next
  case False
  with assms parse_tlv_rest_wp [OF assms, of off off w] show ?thesis
    unfolding parse_tlv_def by (simp add: wp_simps)
qed

lemma take_field_wp:
  assumes "end \<le> length buf"
  shows "wp (take_field buf end off)
    (\<lambda>(f, n) w'. fst f = off \<and> off + snd f = n \<and> 0 < snd f \<and> n \<le> end \<and> w' = w)
    (\<lambda>e w'. e = Minus1 \<and> w' = w) w"
  unfolding take_field_def wp_bnd
  by (rule wp_mono [OF parse_tlv_wp [OF assms]]) (auto simp: wp_simps)

section \<open>The self-contained walker reads what the writers write\<close>

definition tlv_ok :: "bytes \<Rightarrow> bytes \<Rightarrow> bool" where
  "tlv_ok tag v \<longleftrightarrow> tag_class_num tag \<noteq> None \<and> length v \<le> 0xFFFFFFFF"

definition tlv_header :: "bytes \<Rightarrow> bytes \<Rightarrow> nat" where
  "tlv_header tag v = length tag + length (the (rsp_der_length_octets (length v)))"

lemma length_tlv: "length (tlv tag v) = tlv_header tag v + length v"
  by (simp add: tlv_def tlv_header_def)

lemma tag_octet_bits:
  "(b AND 0x1F = 0x1F) \<longleftrightarrow> unat (b::u8) mod 32 = 31"
  "unat (b::u8) < 128 \<Longrightarrow> b AND 0x80 = 0"
proof -
  have "b AND 0x1F = take_bit 5 b" by (simp add: take_bit_eq_mask mask_eq_decr_exp)
  then show "(b AND 0x1F = 0x1F) \<longleftrightarrow> unat b mod 32 = 31"
    by (simp add: word_unat_eq_iff unsigned_take_bit_eq take_bit_eq_mod unat_mod)
next
  assume b: "unat b < 128"
  have "b = take_bit 7 b" using b by (simp add: word_unat_eq_iff unsigned_take_bit_eq take_bit_nat_eq_self)
  then have "b AND 0x80 = (b AND 0x7F) AND 0x80" by (simp add: take_bit_eq_mask mask_eq_decr_exp)
  also have "\<dots> = b AND (0x7F AND 0x80)" by (rule and.assoc)
  also have "(0x7F AND 0x80 :: u8) = 0" by simp
  finally show "b AND 0x80 = 0" by simp
qed

lemma parse_tlv_rest_run:
  assumes lo: "rsp_der_length_octets n = Some lo"
    and buf: "take (length lo) (drop (lst + 1) buf) = lo" "lst + 1 + length lo + n \<le> end" "end \<le> length buf"
  shows "wp (parse_tlv_rest buf end lst) Q E w =
    Q (lst + 1 + length lo, n, lst + 1 + length lo + n) w"
proof -
  define q where "q = lst + 1"
  have "lo \<noteq> []" using der_length_size [OF lo] by auto
  then have q: "q < end" "q < length buf" using buf(2,3) by (cases lo; simp add: q_def)+
  have hd: "buf ! q = hd lo" and tl: "take (length lo - 1) (drop (q + 1) buf) = tl lo"
    using buf(1) \<open>lo \<noteq> []\<close> q(2) unfolding q_def [symmetric]
    by (cases lo; simp add: Cons_nth_drop_Suc [symmetric])+
  show ?thesis
  proof (cases "n < 0x80")
    case True
    with lo have "lo = [word_of_nat n]" by (simp add: rsp_der_length_octets_def)
    moreover have "\<not> end - Suc q < n" using buf(2) \<open>lo = _\<close> by (simp add: q_def)
    ultimately show ?thesis using True hd q
      unfolding parse_tlv_rest_def q_def [symmetric] Let_def
      by (simp add: wp_simps word_less_nat_alt unat_of_nat not_less)
  next
    case False
    then have n: "0x80 \<le> n" by simp
    note L = der_octets_long [OF n lo]
    define k where "k = der_len_size n"
    have k: "k \<in> {1, 2, 3, 4}" unfolding k_def by (rule der_len_size_bounds(1) [OF n L(1)])
    then have l: "\<not> hd lo < 0x80" "unat (hd lo AND 0x7F) = k"
      using L(2) by (auto simp: k_def)
    have "be_val (tl lo) = n"
      using L(2) der_len_size_bounds(2) [OF n L(1)] by (simp add: be_val_be_bytes)
    moreover have lk: "length lo = k + 1" using L(2) by (simp add: k_def)
    ultimately have v: "be_val (take k (drop (q + 1) buf)) = n" using tl by simp
    have u: "unat (word_of_nat n :: 64 word) = n" using L(1) by (simp add: unat_of_nat)
    have b: "q + 1 + k + n \<le> end" using buf(2) lk by (simp add: q_def)
    have k8: "k \<noteq> 0" "\<not> 8 < k" "\<not> end - (q + 1) < k" "q + 1 + k \<le> length buf" "\<not> end - (q + 1 + k) < n"
      using k b buf(3) by auto
    show ?thesis
      unfolding parse_tlv_rest_def q_def [symmetric] Let_def lk
      using q hd l k8 v u by (simp add: wp_simps)
  qed
qed

lemma parse_tlv_at:
  assumes tlv: "tlv_ok tag v" "slice buf (off, length (tlv tag v)) = tlv tag v"
    and fits: "off + length (tlv tag v) \<le> end" "end \<le> length buf"
  shows "wp (parse_tlv buf end off) Q E w =
    Q (off + tlv_header tag v, length v, off + length (tlv tag v)) w"
proof -
  obtain lo where lo: "rsp_der_length_octets (length v) = Some lo" "lo \<noteq> []"
    using tlv(1) der_octets_exist [of "length v"] by (auto simp: tlv_ok_def)
  have t: "tlv tag v = tag @ lo @ v" "tlv_header tag v = length tag + length lo"
    by (simp_all add: tlv_def tlv_header_def lo)
  have len: "length (tlv tag v) = length tag + length lo + length v" by (simp add: t)
  have s: "take (length tag + length lo + length v) (drop off buf) = tag @ lo @ v"
    using tlv(2) unfolding slice_def t by (simp add: add.assoc)
  have nth: "buf ! (off + i) = (tag @ lo @ v) ! i" if "i < length tag" for i
    using that arg_cong [OF s, of "\<lambda>x. x ! i"] fits by (simp add: len nth_append)
  have d: "take (length lo) (drop (off + length tag) buf) = lo"
    using arg_cong [OF s, of "\<lambda>x. take (length lo) (drop (length tag) x)"]
    by (simp add: drop_take add.commute)
  have tag: "0 < length tag" using tlv(1)
    by (auto simp: tlv_ok_def tag_class_num_def split: list.splits)
  have rest: "wp (parse_tlv_rest buf end (off + (length tag - 1))) Q E w =
      Q (off + tlv_header tag v, length v, off + length (tlv tag v)) w"
  proof -
    define l where "l = off + (length tag - 1)"
    have l: "l + 1 = off + length tag" using tag by (simp add: l_def)
    have "l + 1 + length lo + length v \<le> end" using fits(1) unfolding l len by simp
    from parse_tlv_rest_run [OF lo(1) d [folded l] this fits(2), of Q E w]
    show ?thesis unfolding l_def [symmetric] l t(2) len by (simp add: add.assoc)
  qed
  have lt: "off + length tag < end" using fits(1) lo(2) unfolding len by (cases lo) auto
  show ?thesis
  proof (cases "length tag = 1")
    case True
    then obtain b where b: "tag = [b]" by (auto simp: length_Suc_conv)
    with tlv(1) have "\<not> b AND 0x1F = 0x1F"
      by (auto simp: tlv_ok_def tag_class_num_def tag_octet_bits(1) split: if_splits)
    moreover have "off < end" "off < length buf" "buf ! off = b"
      using lt fits(2) nth [of 0] b by simp_all
    ultimately show ?thesis using rest
      unfolding parse_tlv_def b by (simp add: wp_simps)
  next
    case False
    with tlv(1) obtain b c where b: "tag = [b, c]" "b AND 0x1F = 0x1F" "c AND 0x80 = 0"
      by (auto simp: tlv_ok_def tag_class_num_def tag_octet_bits split: list.splits if_splits)
    have o: "off < end" "off < length buf" "buf ! off = b" "off + 1 < end" "off + 1 < length buf" "buf ! (off + 1) = c"
      using lt fits(2) nth [of 0] nth [of 1] b(1) by simp_all
    then have "tag_cont buf end (off + 1) w = (Inr (off + 1), w)"
      using b(3) by (subst tag_cont.simps) (simp add: bnd_def rd_def ret_def)
    then have "wp (tag_cont buf end (off + 1)) Q E w = Q (off + 1) w" for Q E by (simp add: wp_def)
    then show ?thesis using rest o b(2)
      unfolding parse_tlv_def b(1) by (simp add: wp_simps)
  qed
qed

lemma take_field_at:
  assumes "tlv_ok tag v" "slice buf (off, length (tlv tag v)) = tlv tag v"
    and "off + length (tlv tag v) \<le> end" "end \<le> length buf"
  shows "wp (take_field buf end off) Q E w =
    Q ((off, length (tlv tag v)), off + length (tlv tag v)) w"
  by (simp add: take_field_def wp_simps parse_tlv_at [OF assms])

lemma slice_mid: "buf = a @ b @ c \<Longrightarrow> off = length a \<Longrightarrow> slice buf (off, length b) = b"
  by (simp add: slice_def)

text \<open>The five cuts that both readers make, inside a value that starts at \<open>length pre\<close>.\<close>

definition cut5 :: "bytes \<Rightarrow> nat \<Rightarrow> nat \<Rightarrow> ('x, rsp_dp_fields) cm" where
  "cut5 buf end off =
     bnd (take_field buf end off) (\<lambda>(f1, off).
     bnd (take_field buf end off) (\<lambda>(f2, off).
     bnd (take_field buf end off) (\<lambda>(f3, off).
     bnd (take_field buf end off) (\<lambda>(f4, off).
     bnd (take_field buf end off) (\<lambda>(f5, off).
     ret \<lparr>field1 = f1, field2 = f2, field3 = f3, field4 = f4, field5 = f5\<rparr>)))))"

definition field_list :: "rsp_dp_fields \<Rightarrow> (nat \<times> nat) list" where
  "field_list f = [field1 f, field2 f, field3 f, field4 f, field5 f]"

lemma cut5_at:
  assumes ok: "tlv_ok t1 v1" "tlv_ok t2 v2" "tlv_ok t3 v3" "tlv_ok t4 v4" "tlv_ok t5 v5"
    and buf: "buf = pre @ tlv t1 v1 @ tlv t2 v2 @ tlv t3 v3 @ tlv t4 v4 @ tlv t5 v5 @ post"
    and "end \<le> length buf" "length buf - length post \<le> end"
  shows "wp (cut5 buf end (length pre))
    (\<lambda>f w'. w' = w \<and> map (slice buf) (field_list f) =
       [tlv t1 v1, tlv t2 v2, tlv t3 v3, tlv t4 v4, tlv t5 v5])
    (\<lambda>_ _. False) w"
proof -
  define b1 b2 b3 b4 b5 where bs: "b1 = tlv t1 v1" "b2 = tlv t2 v2" "b3 = tlv t3 v3"
    "b4 = tlv t4 v4" "b5 = tlv t5 v5"
  have buf': "buf = pre @ b1 @ b2 @ b3 @ b4 @ b5 @ post" unfolding bs by (rule buf)
  have s: "slice buf (length pre, length b1) = b1"
    "slice buf (length pre + length b1, length b2) = b2"
    "slice buf (length pre + length b1 + length b2, length b3) = b3"
    "slice buf (length pre + length b1 + length b2 + length b3, length b4) = b4"
    "slice buf (length pre + length b1 + length b2 + length b3 + length b4, length b5) = b5"
    by (auto simp: buf' slice_def)
  have e: "length pre + length b1 + length b2 + length b3 + length b4 + length b5 \<le> end"
    using assms(8) unfolding buf' by simp
  note t = take_field_at [OF ok(1), folded bs, OF s(1)] take_field_at [OF ok(2), folded bs, OF s(2)]
    take_field_at [OF ok(3), folded bs, OF s(3)] take_field_at [OF ok(4), folded bs, OF s(4)]
    take_field_at [OF ok(5), folded bs, OF s(5)]
  from e assms(7) show ?thesis
    unfolding cut5_def bs [symmetric] by (simp add: wp_simps t field_list_def s)
qed

lemma tlv_prefix: "tlv tag v = take (tlv_header tag v) (tlv tag v) @ v"
  by (simp add: tlv_def tlv_header_def)

lemma initiate_fields_cut:
  assumes ok: "tlv_ok t v" "tlv_ok t1 v1" "tlv_ok t2 v2" "tlv_ok t3 v3" "tlv_ok t4 v4" "tlv_ok t5 v5"
    and v: "v = tlv t1 v1 @ tlv t2 v2 @ tlv t3 v3 @ tlv t4 v4 @ tlv t5 v5 @ extra"
  shows "wp (rsp_dp_initiate_fields (Buf (tlv t v @ post)) True)
    (\<lambda>f w'. w' = w \<and> map (slice (tlv t v @ post)) (field_list f) =
       [tlv t1 v1, tlv t2 v2, tlv t3 v3, tlv t4 v4, tlv t5 v5])
    (\<lambda>_ _. False) w"
proof -
  let ?buf = "tlv t v @ post"
  define pre where "pre = take (tlv_header t v) (tlv t v)"
  have lp: "length pre = tlv_header t v" by (simp add: pre_def length_tlv)
  have b: "?buf = pre @ tlv t1 v1 @ tlv t2 v2 @ tlv t3 v3 @ tlv t4 v4 @ tlv t5 v5 @ extra @ post"
    using tlv_prefix [of t v] unfolding pre_def [symmetric] by (simp add: v)
  have p: "wp (parse_tlv ?buf (length ?buf) 0) Q E w = Q (length pre, length v, length (tlv t v)) w" for Q E
    using parse_tlv_at [OF ok(1), of ?buf 0 "length ?buf" Q E w] by (simp add: slice_def lp)
  have e: "length pre + length v \<le> length ?buf" "length ?buf - length (extra @ post) \<le> length pre + length v"
    by (simp_all add: lp length_tlv v)
  note c = cut5_at [OF ok(2-6) b e]
  show ?thesis
    unfolding rsp_dp_initiate_fields_def cut5_def [symmetric] Let_def
    using p c by (simp add: wp_simps del: length_append)
qed

lemma authenticate_fields_cut:
  assumes ok: "tlv_ok t0 (tlv t v @ ex0)" "tlv_ok t v" "tlv_ok t1 v1" "tlv_ok t2 v2" "tlv_ok t3 v3"
      "tlv_ok t4 v4" "tlv_ok t5 v5"
    and v: "v = tlv t1 v1 @ tlv t2 v2 @ tlv t3 v3 @ tlv t4 v4 @ tlv t5 v5 @ ex1"
  shows "wp (rsp_dp_authenticate_fields (Buf (tlv t0 (tlv t v @ ex0) @ post)) True)
    (\<lambda>f w'. w' = w \<and> map (slice (tlv t0 (tlv t v @ ex0) @ post)) (field_list f) =
       [tlv t1 v1, tlv t2 v2, tlv t3 v3, tlv t4 v4, tlv t5 v5])
    (\<lambda>_ _. False) w"
proof -
  let ?in = "tlv t v @ ex0"
  let ?buf = "tlv t0 ?in @ post"
  define pre0 where "pre0 = take (tlv_header t0 ?in) (tlv t0 ?in)"
  define pre where "pre = take (tlv_header t v) (tlv t v)"
  have lp0: "length pre0 = tlv_header t0 ?in" by (simp add: pre0_def length_tlv)
  have lp: "length pre = tlv_header t v" by (simp add: pre_def length_tlv)
  have b0: "?buf = pre0 @ tlv t v @ ex0 @ post"
    using tlv_prefix [of t0 ?in] unfolding pre0_def [symmetric] by simp
  have b: "?buf = (pre0 @ pre) @ tlv t1 v1 @ tlv t2 v2 @ tlv t3 v3 @ tlv t4 v4 @ tlv t5 v5 @ ex1 @ ex0 @ post"
    using b0 tlv_prefix [of t v] unfolding pre_def [symmetric] by (simp add: v)
  have p0: "wp (parse_tlv ?buf (length ?buf) 0) Q E w = Q (length pre0, length ?in, length (tlv t0 ?in)) w" for Q E
    using parse_tlv_at [OF ok(1), of ?buf 0 "length ?buf" Q E w] by (simp add: slice_def lp0)
  have s: "slice ?buf (length pre0, length (tlv t v)) = tlv t v"
    by (rule slice_mid [OF b0 refl])
  have le: "length pre0 + length (tlv t v) \<le> length pre0 + length ?in"
    "length pre0 + length ?in \<le> length ?buf" by (simp_all add: lp0 length_tlv)
  note p = parse_tlv_at [OF ok(2) s le]
  have e: "length (pre0 @ pre) + length v \<le> length ?buf"
    "length ?buf - length (ex1 @ ex0 @ post) \<le> length (pre0 @ pre) + length v"
    by (simp_all add: lp0 lp length_tlv v)
  note c = cut5_at [OF ok(3-7) b e]
  show ?thesis
    unfolding rsp_dp_authenticate_fields_def cut5_def [symmetric] Let_def
    using c by (simp add: wp_simps p p0 del: length_append) (simp add: lp add.assoc)
qed

text \<open>Whatever is accepted, the five cuts follow one another inside the response.\<close>

fun chained :: "nat \<Rightarrow> (nat \<times> nat) list \<Rightarrow> nat \<Rightarrow> bool" where
  "chained start [] end = (start \<le> end)"
| "chained start ((off, n) # fs) end = (off = start \<and> 0 < n \<and> chained (off + n) fs end)"

lemma chained_mono: "chained start fs m \<Longrightarrow> m \<le> n \<Longrightarrow> chained start fs n"
  by (induction start fs m rule: chained.induct) auto

lemma cut5_wp:
  assumes "end \<le> length buf"
  shows "wp (cut5 buf end off)
    (\<lambda>f w'. w' = w \<and> chained off (field_list f) end) (\<lambda>e w'. e = Minus1 \<and> w' = w) w"
  unfolding cut5_def field_list_def wp_bnd
  apply (rule wp_mono [OF take_field_wp [OF assms]])
   apply clarsimp
   apply (subst wp_bnd, rule wp_mono [OF take_field_wp [OF assms]])
    apply clarsimp
    apply (subst wp_bnd, rule wp_mono [OF take_field_wp [OF assms]])
     apply clarsimp
     apply (subst wp_bnd, rule wp_mono [OF take_field_wp [OF assms]])
      apply clarsimp
      apply (subst wp_bnd, rule wp_mono [OF take_field_wp [OF assms]])
       apply (auto simp: wp_simps)
  done

lemma initiate_fields_wp:
  "wp (rsp_dp_initiate_fields resp out_ok)
    (\<lambda>f w'. w' = w \<and> (\<exists>start. chained start (field_list f) (length (cdata resp))))
    (\<lambda>e w'. e \<in> {Minus1, Minus2} \<and> w' = w) w"
  unfolding rsp_dp_initiate_fields_def cut5_def [symmetric] Let_def
  apply (simp add: wp_bnd wp_ensure)
  apply (intro impI wp_mono [OF parse_tlv_wp [OF order_refl]])
   apply clarsimp
   apply (rule wp_mono [OF cut5_wp])
  by (auto intro: chained_mono)

lemma authenticate_fields_wp:
  "wp (rsp_dp_authenticate_fields resp out_ok)
    (\<lambda>f w'. w' = w \<and> (\<exists>start. chained start (field_list f) (length (cdata resp))))
    (\<lambda>e w'. e \<in> {Minus1, Minus2} \<and> w' = w) w"
  unfolding rsp_dp_authenticate_fields_def cut5_def [symmetric] Let_def
  apply (simp add: wp_bnd wp_ensure)
  apply (intro impI wp_mono [OF parse_tlv_wp [OF order_refl]])
   apply (clarsimp simp: wp_bnd)
   apply (rule wp_mono [OF parse_tlv_wp], simp)
    apply clarsimp
    apply (rule wp_mono [OF cut5_wp], simp)
  by (auto intro!: exI elim!: chained_mono)

section \<open>The walkers over the asn1c runtime\<close>

lemma find_tlv_wp:
  assumes "ber_laws A"
  shows "wp (find_tlv A buf off want)
    (\<lambda>(start, n) w'. start = off \<and> off + n \<le> length buf \<and> 0 < n \<and>
       take (length want) (drop off buf) = want \<and> w' = w)
    (\<lambda>e w'. e = Minus1 \<and> w' = w) w"
proof -
  obtain tn t where f: "a_fetch_tag A (drop off buf) = (tn, t)" by (cases "a_fetch_tag A (drop off buf)")
  have tn: "tn \<le> int (length buf - off)"
    using ber_fetch_bounds(1) [OF assms, of "drop off buf"] f by simp
  define l where "l = a_fetch_length A (a_constructed A (buf ! off)) (drop (off + nat tn) buf)"
  obtain ll n where l: "l = (ll, n)" by (cases l)
  have ll: "ll \<le> int (length buf - off - nat tn)"
    using ber_fetch_bounds(2) [OF assms] l by (auto simp: l_def) (metis diff_diff_left fst_conv length_drop)
  show ?thesis
    using tn ll l unfolding find_tlv_def f prod.case l_def
    by (auto simp: wp_simps)
qed

lemma step_tlv_wp:
  assumes "ber_laws A" "end \<le> length buf"
  shows "wp (step_tlv A buf end off)
    (\<lambda>((ws, wl), (vs, vl), off') w'. ws = off \<and> 0 < wl \<and> off' = off + wl \<and> off' \<le> end \<and>
       off \<le> vs \<and> vs + vl = off' \<and> w' = w)
    (\<lambda>e w'. e = Minus1 \<and> w' = w) w"
proof -
  obtain tn t where f: "a_fetch_tag A (take (end - off) (drop off buf)) = (tn, t)"
    by (cases "a_fetch_tag A (take (end - off) (drop off buf))")
  have tn: "tn \<le> int (end - off)"
    using ber_fetch_bounds(1) [OF assms(1), of "take (end - off) (drop off buf)"] f assms(2) by simp
  define l where "l = a_fetch_length A (a_constructed A (buf ! off))
    (take (end - off - nat tn) (drop (off + nat tn) buf))"
  obtain ll n where l: "l = (ll, n)" by (cases l)
  have ll: "ll \<le> int (end - off - nat tn)"
    using ber_fetch_bounds(2) [OF assms(1), of "a_constructed A (buf ! off)"
        "take (end - off - nat tn) (drop (off + nat tn) buf)"] l by (simp add: l_def)
  show ?thesis
    using tn ll l assms(2) unfolding step_tlv_def f prod.case l_def
    by (auto simp: wp_simps Let_def)
qed

lemma keeps_walkers [keeps_intros]: "keeps (find_tlv A buf off want)" "keeps (step_tlv A buf end off)"
  unfolding find_tlv_def step_tlv_def Let_def by (intro keeps_intros)+

lemma find_tlv_at:
  assumes A: "ber_laws A" and tag: "tag_class_num tag = Some (c, k)" "length v \<le> 0xFFFFFFFF"
    and buf: "slice buf (off, length (tlv tag v)) = tlv tag v" "off + length (tlv tag v) \<le> length buf"
  shows "find_tlv A buf off tag w = (Inr (off, length (tlv tag v)), w)"
proof -
  obtain lo where lo: "rsp_der_length_octets (length v) = Some lo" "lo \<noteq> []"
    using tag(2) by (rule der_octets_exist)
  have t: "tlv tag v = tag @ lo @ v" by (simp add: tlv_def lo)
  define post where "post = drop (off + length (tlv tag v)) buf"
  have d: "drop off buf = tag @ lo @ v @ post"
    using buf(1) append_take_drop_id [of "length (tlv tag v)" "drop off buf"]
    unfolding slice_def post_def by (simp add: t add.commute)
  have d2: "drop (off + length tag) buf = lo @ v @ post"
    using arg_cong [OF d, of "drop (length tag)"] by (simp add: add.commute)
  have f: "a_fetch_tag A (drop off buf) = (int (length tag), packed_tag c k)"
    unfolding d by (rule fetch_tag_octets(1) [OF A tag(1)])
  have l: "a_fetch_length A b (drop (off + length tag) buf) = (int (length lo), int (length v))" for b
    unfolding d2 by (rule ber_fetch_len [OF A lo(1)])
  have "take (length tag) (drop off buf) = tag" unfolding d by simp
  moreover have "0 < length tag" by (rule fetch_tag_octets(2) [OF A tag(1)])
  moreover from this buf(2) have "off < length buf"
    "\<not> length buf - (off + length tag + length lo) < length v"
    unfolding t length_append by linarith+
  ultimately show ?thesis
    using buf(2) l lo(2) unfolding find_tlv_def f t
    by (simp add: bnd_def ensure_def ret_def rd_block_def rd_def)
qed

lemma step_tlv_at:
  assumes A: "ber_laws A" and tag: "tag_class_num tag = Some (c, k)" "length v \<le> 0xFFFFFFFF"
    and buf: "slice buf (off, length (tlv tag v)) = tlv tag v" "off + length (tlv tag v) \<le> end"
      "end \<le> length buf"
  shows "step_tlv A buf end off w =
    (Inr ((off, length (tlv tag v)), (off + tlv_header tag v, length v), off + length (tlv tag v)), w)"
proof -
  obtain lo where lo: "rsp_der_length_octets (length v) = Some lo" "lo \<noteq> []"
    using tag(2) by (rule der_octets_exist)
  have t: "tlv tag v = tag @ lo @ v" "tlv_header tag v = length tag + length lo"
    by (simp_all add: tlv_def tlv_header_def lo)
  have d0: "take (length (tlv tag v)) (drop off (take end buf)) = tlv tag v"
    using buf(1,2) by (auto simp: slice_def drop_take min_def)
  define post where "post = drop (length (tlv tag v)) (drop off (take end buf))"
  have d: "drop off (take end buf) = tag @ lo @ v @ post"
    using append_take_drop_id [of "length (tlv tag v)" "drop off (take end buf)", unfolded d0]
    unfolding post_def [symmetric] by (simp add: t)
  have d2: "drop (off + length tag) (take end buf) = lo @ v @ post"
    using arg_cong [OF d, of "drop (length tag)"] by (simp add: add.commute)
  have f: "a_fetch_tag A (take (end - off) (drop off buf)) = (int (length tag), packed_tag c k)"
    using fetch_tag_octets(1) [OF A tag(1), of "lo @ v @ post"] d by (simp add: drop_take)
  have l: "a_fetch_length A b (take (end - off - length tag) (drop (off + length tag) buf)) =
      (int (length lo), int (length v))" for b
    using ber_fetch_len [OF A lo(1), of b "v @ post"] d2 by (simp add: drop_take)
  have "0 < length tag" by (rule fetch_tag_octets(2) [OF A tag(1)])
  moreover from this buf(2,3) have "off < end" "off < length buf"
    "\<not> end - (off + (length tag + length lo)) < length v" "length tag + length lo \<le> end - off"
    unfolding t length_append by linarith+
  ultimately show ?thesis
    using buf(2,3) l lo(2) unfolding step_tlv_def f t
    by (simp add: bnd_def ensure_def ret_def rd_def Let_def)
qed

end
