(* ===== verification/Sign.thy ===== *)
theory Sign
  imports Mbed
begin

text \<open>
  ECDSA, \<open>src/rsp_sign.c\<close>, and the SM-DP+ credentials, \<open>src/rsp_pki.c\<close>. A
  \<open>rsp_credential_t\<close> is its certificate (a \<open>cbuf\<close>, so a NULL one is visible) and its private
  scalar. \<open>rsp_pki_dp\<close> writes into the caller's credential, which is the \<open>loc\<close> part of the
  state. What a signature or a verified credential means is stated against the parsed
  certificate; \<open>ecdsa_laws\<close> is the ECDSA correctness that mbedTLS documents.
\<close>

record rsp_credential =
  cr_der :: cbuf
  cr_sk :: bytes

definition rsp_sign ::
  "('c, 'g, 'p, 'k) mbedtls \<Rightarrow> rsp_credential option \<Rightarrow> cbuf \<Rightarrow> bool \<Rightarrow> ('x, bytes) cm" where
  "rsp_sign M c tbs sig_ok =
     bnd (ensure (\<not> (c = None \<or> \<not> sig_ok \<or> (is_null tbs \<and> clen tbs \<noteq> 0))) Minus1) (\<lambda>_.
     bnd (ext Minus1 (Some (m_sha256 M (cdata tbs)))) (\<lambda>hash.
     bnd rsp_rng_init (\<lambda>_.
     bnd (ext Minus1 (Some ())) (\<lambda>_.
     bnd (ext Minus1 (Some (m_mpi_read M (cr_sk (the c))))) (\<lambda>d.
     bnd (ext Minus1 (m_sign_det M (m_p256 M) d hash)) (\<lambda>(r, s).
     bnd (ext Minus1 (m_mpi_write M r 32)) (\<lambda>r32.
     bnd (ext Minus1 (m_mpi_write M s 32)) (\<lambda>s32.
     ret (r32 @ s32)))))))))"

definition rsp_sign_verify ::
  "('c, 'g, 'p, 'k) mbedtls \<Rightarrow> cbuf \<Rightarrow> cbuf \<Rightarrow> bytes option \<Rightarrow> ('x, unit) cm" where
  "rsp_sign_verify M cert tbs sig =
     bnd (ensure (\<not> (is_null cert \<or> clen cert = 0 \<or> sig = None \<or> (is_null tbs \<and> clen tbs \<noteq> 0))) Minus2) (\<lambda>_.
     bnd (ext Minus2 (Some (m_sha256 M (cdata tbs)))) (\<lambda>hash.
     bnd (ext Minus2 (m_crt_parse M (rsp_accept_certificate_policies M) (cdata cert))) (\<lambda>crt.
     bnd (ensure (m_crt_is_ec M crt) Minus2) (\<lambda>_.
     bnd (ext Minus2 (m_crt_ec M crt)) (\<lambda>(grp, q).
     bnd (ext Minus2 (Some (m_mpi_read M (take 32 (the sig))))) (\<lambda>r.
     bnd (ext Minus2 (Some (m_mpi_read M (take 32 (drop 32 (the sig)))))) (\<lambda>s.
     bnd (ext Minus1 (if m_verify M grp hash q r s then Some () else None)) (\<lambda>_.
     ret ()))))))))"

section \<open>Credentials\<close>

definition zero_credential :: rsp_credential where
  "zero_credential = \<lparr>cr_der = Null 0, cr_sk = replicate 32 0\<rparr>"

definition rsp_pki_test_ci :: "sgp26 \<Rightarrow> bool \<Rightarrow> bool \<Rightarrow> ('x, bytes) cm" where
  "rsp_pki_test_ci S der_ok len_ok =
     bnd (ensure (\<not> (\<not> der_ok \<or> \<not> len_ok)) Minus1) (\<lambda>_. ret (ci_der S))"

definition rsp_pki_dp ::
  "('c, 'g, 'p, 'k) mbedtls \<Rightarrow> sgp26 \<Rightarrow> int \<Rightarrow> (rsp_credential option, unit) cm" where
  "rsp_pki_dp M S role =
     bnd get_loc (\<lambda>out.
     bnd (ensure (out \<noteq> None) Minus1) (\<lambda>_.
     bnd (set_loc (Some zero_credential)) (\<lambda>_.
     bnd (if role = 0 then ret (dpauth_der S, dpauth_key_pem S)
          else if role = 1 then ret (dppb_der S, dppb_key_pem S)
          else stop_with Minus1) (\<lambda>(cert_der, key_pem).
     bnd (malloc Minus1 (length cert_der)) (\<lambda>_.
     bnd (set_loc (Some (zero_credential\<lparr>cr_der := Buf cert_der\<rparr>))) (\<lambda>_.
     on_stop
       (bnd (recode Minus1 rsp_rng_init) (\<lambda>_.
        bnd (ext Minus1 (m_pk_parse M key_pem)) (\<lambda>pk.
        bnd (ensure (m_pk_is_ec M pk) Minus1) (\<lambda>_.
        bnd (ext Minus1 (m_pk_write_key M pk)) (\<lambda>sk.
        bnd (ensure (length sk = 32) Minus1) (\<lambda>_.
        set_loc (Some \<lparr>cr_der = Buf cert_der, cr_sk = sk\<rparr>)))))))
       (\<lambda>_. Some zero_credential)))))))"

definition rsp_pki_verify ::
  "('c, 'g, 'p, 'k) mbedtls \<Rightarrow> sgp26 \<Rightarrow> rsp_credential option \<Rightarrow> ('x, unit) cm" where
  "rsp_pki_verify M S c =
     bnd (ensure (\<not> (c = None \<or> is_null (cr_der (the c)) \<or> clen (cr_der (the c)) = 0)) Minus2) (\<lambda>_.
     bnd (recode Minus2 (rsp_pki_test_ci S True True)) (\<lambda>ci_der.
     bnd (attempt rsp_rng_init) (\<lambda>rng.
     bnd (ext Minus2 (m_crt_parse M (rsp_accept_certificate_policies M) ci_der)) (\<lambda>ci.
     bnd (ext Minus2 (m_crt_parse M (rsp_accept_certificate_policies M) (cdata (cr_der (the c))))) (\<lambda>leaf.
     bnd (ext Minus1 (if m_crt_verify M leaf [ci] then Some () else None)) (\<lambda>_.
     bnd (ensure (\<not> (\<not> m_crt_is_ec M leaf \<or> rng = None)) Minus2) (\<lambda>_.
     bnd (ext Minus1 (m_crt_ec M leaf)) (\<lambda>(grp, cert_q).
     bnd (ext Minus1 (Some (m_mpi_read M (cr_sk (the c))))) (\<lambda>d.
     bnd (ext Minus1 (m_mul_g M grp d)) (\<lambda>derived.
     bnd (ext Minus1 (m_point_write M grp derived)) (\<lambda>buf_derived.
     bnd (ext Minus1 (m_point_write M grp cert_q)) (\<lambda>buf_cert.
     bnd (ensure (length buf_derived = length buf_cert \<and> buf_derived = buf_cert) Minus1) (\<lambda>_.
     ret ())))))))))))))"

definition rsp_credential_free :: "rsp_credential option \<Rightarrow> rsp_credential option" where
  "rsp_credential_free c = (case c of None \<Rightarrow> None | Some c \<Rightarrow> Some zero_credential)"

section \<open>What the operations compute\<close>

definition sign_value :: "('c, 'g, 'p, 'k) mbedtls \<Rightarrow> bytes \<Rightarrow> bytes \<Rightarrow> bytes option" where
  "sign_value M sk tbs =
     Option.bind (m_sign_det M (m_p256 M) (m_mpi_read M sk) (m_sha256 M tbs)) (\<lambda>(r, s).
     Option.bind (m_mpi_write M r 32) (\<lambda>r32.
     Option.bind (m_mpi_write M s 32) (\<lambda>s32. Some (r32 @ s32))))"

definition signature_good :: "('c, 'g, 'p, 'k) mbedtls \<Rightarrow> bytes \<Rightarrow> bytes \<Rightarrow> bytes \<Rightarrow> bool" where
  "signature_good M cert tbs sig \<longleftrightarrow> cert \<noteq> [] \<and>
     (case m_crt_parse M (rsp_accept_certificate_policies M) cert of None \<Rightarrow> False
      | Some crt \<Rightarrow> m_crt_is_ec M crt \<and>
          (case m_crt_ec M crt of None \<Rightarrow> False
           | Some (grp, q) \<Rightarrow> m_verify M grp (m_sha256 M tbs) q
               (m_mpi_read M (take 32 sig)) (m_mpi_read M (take 32 (drop 32 sig)))))"

definition key_matches :: "('c, 'g, 'p, 'k) mbedtls \<Rightarrow> 'c \<Rightarrow> bytes \<Rightarrow> bool" where
  "key_matches M crt sk \<longleftrightarrow> (case m_crt_ec M crt of None \<Rightarrow> False
     | Some (grp, q) \<Rightarrow> (case m_mul_g M grp (m_mpi_read M sk) of None \<Rightarrow> False
         | Some p \<Rightarrow> m_point_write M grp p \<noteq> None \<and> m_point_write M grp p = m_point_write M grp q))"

definition credential_good :: "('c, 'g, 'p, 'k) mbedtls \<Rightarrow> sgp26 \<Rightarrow> rsp_credential \<Rightarrow> bool" where
  "credential_good M S c \<longleftrightarrow> \<not> is_null (cr_der c) \<and> clen (cr_der c) \<noteq> 0 \<and>
     (case m_crt_parse M (rsp_accept_certificate_policies M) (ci_der S) of None \<Rightarrow> False
      | Some ci \<Rightarrow> (case m_crt_parse M (rsp_accept_certificate_policies M) (cdata (cr_der c)) of
            None \<Rightarrow> False
          | Some leaf \<Rightarrow> m_crt_verify M leaf [ci] \<and> m_crt_is_ec M leaf \<and> key_matches M leaf (cr_sk c)))"

definition ecdsa_laws :: "('c, 'g, 'p, 'k) mbedtls \<Rightarrow> bool" where
  "ecdsa_laws M \<longleftrightarrow>
     (\<forall>n k b. m_mpi_write M n k = Some b \<longrightarrow> length b = k \<and> m_mpi_read M b = n) \<and>
     (\<forall>g p q b. m_point_write M g p = Some b \<and> m_point_write M g q = Some b \<longrightarrow> p = q) \<and>
     (\<forall>g d h q r s. m_mul_g M g d = Some q \<and> m_sign_det M g d h = Some (r, s) \<longrightarrow> m_verify M g h q r s)"

lemma keeps_sign [keeps_intros]: "keeps (rsp_sign M c tbs ok)" "keeps (rsp_sign_verify M cert tbs sig)"
  "keeps (rsp_pki_test_ci S a b)"
  unfolding rsp_sign_def rsp_sign_verify_def rsp_pki_test_ci_def by (intro keeps_intros)+

lemma sign_run:
  "rsp_sign M (Some c) (Buf tbs) True w = (Inr sig, w') \<Longrightarrow>
   sign_value M (cr_sk c) tbs = Some sig \<and> loc w' = loc w"
  by (auto simp: rsp_sign_def sign_value_def cm_run split: prod.splits)

lemma sign_fail: "rsp_sign M c tbs ok w = (Inl e, w') \<Longrightarrow> e = Minus1 \<and> loc w' = loc w"
  by (auto simp: rsp_sign_def cm_run split: prod.splits)

lemma sign_ok:
  "faults w = [] \<Longrightarrow> rsp_sign M (Some c) (Buf tbs) True w =
     (case sign_value M (cr_sk c) tbs of None \<Rightarrow> (Inl Minus1, w) | Some sig \<Rightarrow> (Inr sig, w))"
  by (auto simp: rsp_sign_def sign_value_def bnd_def ensure_def ret_def split: option.splits bind_splits prod.splits)

lemma sign_value_length: "ecdsa_laws M \<Longrightarrow> sign_value M sk tbs = Some sig \<Longrightarrow> length sig = 64"
  by (auto simp: sign_value_def ecdsa_laws_def bind_eq_Some_conv split: prod.splits)

lemma verify_run:
  "rsp_sign_verify M (Buf cert) (Buf tbs) (Some sig) w = (Inr u, w') \<Longrightarrow>
   signature_good M cert tbs sig \<and> loc w' = loc w"
  by (auto simp: rsp_sign_verify_def signature_good_def cm_run split: prod.splits if_splits)

lemma verify_fail:
  "rsp_sign_verify M cert tbs sig w = (Inl e, w') \<Longrightarrow> e \<in> {Minus1, Minus2} \<and> loc w' = loc w"
  by (auto simp: rsp_sign_verify_def cm_run split: prod.splits)

lemma verify_ok:
  assumes "faults w = []"
  shows "rsp_sign_verify M (Buf cert) (Buf tbs) (Some sig) w = (Inr (), w) \<longleftrightarrow> signature_good M cert tbs sig"
  using assms
  by (auto simp: rsp_sign_verify_def signature_good_def bnd_def ensure_def ret_def stop_with_def
           split: option.splits prod.splits if_splits)

text \<open>The answer -1 without an operational failure is the answer of \<open>mbedtls_ecdsa_verify\<close>.\<close>

lemma verify_no:
  assumes "faults w = []" "rsp_sign_verify M (Buf cert) (Buf tbs) (Some sig) w = (Inl Minus1, w')"
  shows "cert \<noteq> []" and "\<exists>crt grp q. m_crt_parse M (rsp_accept_certificate_policies M) cert = Some crt \<and>
      m_crt_is_ec M crt \<and> m_crt_ec M crt = Some (grp, q) \<and>
      \<not> m_verify M grp (m_sha256 M tbs) q (m_mpi_read M (take 32 sig)) (m_mpi_read M (take 32 (drop 32 sig)))"
  using assms
  by (auto simp: rsp_sign_verify_def bnd_def ensure_def ret_def stop_with_def ext_def
           split: option.splits prod.splits if_splits)

lemma credential_goodI:
  assumes "\<not> is_null (cr_der c)" "clen (cr_der c) \<noteq> 0"
    "m_crt_parse M (rsp_accept_certificate_policies M) (ci_der S) = Some ci"
    "m_crt_parse M (rsp_accept_certificate_policies M) (cdata (cr_der c)) = Some leaf"
    "m_crt_verify M leaf [ci]" "m_crt_is_ec M leaf" "m_crt_ec M leaf = Some (g, q)"
    "m_mul_g M g (m_mpi_read M (cr_sk c)) = Some p"
    "m_point_write M g p = Some b" "m_point_write M g q = Some b"
  shows "credential_good M S c"
  using assms by (simp add: credential_good_def key_matches_def)

lemma pki_verify_wp:
  "wp (rsp_pki_verify M S (Some c)) (\<lambda>_ w'. credential_good M S c \<and> loc w' = loc w)
     (\<lambda>e w'. e \<in> {Minus1, Minus2} \<and> loc w' = loc w) w"
  unfolding rsp_pki_verify_def rsp_pki_test_ci_def
  by (simp add: wp_simps split: option.split prod.split) (blast intro: credential_goodI)

lemma pki_verify_run:
  "rsp_pki_verify M S (Some c) w = (Inr u, w') \<Longrightarrow> credential_good M S c \<and> loc w' = loc w"
  using wp_Inr [OF pki_verify_wp] by blast

lemma pki_verify_fail:
  "rsp_pki_verify M S (Some c) w = (Inl e, w') \<Longrightarrow> e \<in> {Minus1, Minus2} \<and> loc w' = loc w"
  using wp_Inl [OF pki_verify_wp] by blast

lemma pki_verify_ok:
  assumes "faults w = []"
  shows "rsp_pki_verify M S (Some c) w = (Inr (), w) \<longleftrightarrow> credential_good M S c"
proof
  assume "credential_good M S c"
  then obtain ci leaf g q p b where
    "\<not> is_null (cr_der c)" "clen (cr_der c) \<noteq> 0"
    "m_crt_parse M (rsp_accept_certificate_policies M) (ci_der S) = Some ci"
    "m_crt_parse M (rsp_accept_certificate_policies M) (cdata (cr_der c)) = Some leaf"
    "m_crt_verify M leaf [ci]" "m_crt_is_ec M leaf" "m_crt_ec M leaf = Some (g, q)"
    "m_mul_g M g (m_mpi_read M (cr_sk c)) = Some p"
    "m_point_write M g p = Some b" "m_point_write M g q = Some b"
    by (fastforce simp: credential_good_def key_matches_def split: option.splits prod.splits)
  with assms show "rsp_pki_verify M S (Some c) w = (Inr (), w)"
    by (simp add: rsp_pki_verify_def rsp_pki_test_ci_def bnd_def ensure_def ret_def recode_def attempt_def)
qed (blast dest: pki_verify_run)

lemma pki_dp_run:
  assumes "rsp_pki_dp M S role w = (Inr u, w')"
  shows "\<exists>pk sk. role \<in> {0, 1} \<and> loc w \<noteq> None \<and>
    m_pk_parse M (if role = 0 then dpauth_key_pem S else dppb_key_pem S) = Some pk \<and>
    m_pk_is_ec M pk \<and> m_pk_write_key M pk = Some sk \<and> length sk = 32 \<and>
    loc w' = Some \<lparr>cr_der = Buf (if role = 0 then dpauth_der S else dppb_der S), cr_sk = sk\<rparr>"
  using assms by (auto simp: rsp_pki_dp_def cm_run split: if_splits)

text \<open>A failing load leaves nothing of the key behind.\<close>

lemma pki_dp_fail:
  "rsp_pki_dp M S role w = (Inl e, w') \<Longrightarrow>
   e = Minus1 \<and> loc w' = (if loc w = None then None else Some zero_credential)"
  by (auto simp: rsp_pki_dp_def cm_run split: if_splits)

definition dp_credential :: "('c, 'g, 'p, 'k) mbedtls \<Rightarrow> sgp26 \<Rightarrow> int \<Rightarrow> rsp_credential option" where
  "dp_credential M S role =
     Option.bind (m_pk_parse M (if role = 0 then dpauth_key_pem S else dppb_key_pem S)) (\<lambda>pk.
     Option.bind (m_pk_write_key M pk) (\<lambda>sk.
     if m_pk_is_ec M pk \<and> length sk = 32
     then Some \<lparr>cr_der = Buf (if role = 0 then dpauth_der S else dppb_der S), cr_sk = sk\<rparr> else None))"

lemma pki_dp_value:
  assumes "rsp_pki_dp M S role w = (Inr u, w')"
  shows "role \<in> {0, 1} \<and> loc w' = dp_credential M S role \<and> loc w' \<noteq> None"
  using pki_dp_run [OF assms] by (auto simp: dp_credential_def)

lemma pki_dp_ok:
  assumes "faults w = []" "role \<in> {0, 1}" "loc w \<noteq> None" "dp_credential M S role = Some c"
  shows "rsp_pki_dp M S role w = (Inr (), w\<lparr>loc := Some c\<rparr>)"
  using assms
  by (auto simp: rsp_pki_dp_def dp_credential_def bind_eq_Some_conv bnd_def get_loc_def set_loc_def
                 ensure_def ret_def on_stop_def recode_def split: if_splits)

text \<open>A credential that \<open>rsp_pki_verify\<close> accepts and whose certificate is on P-256 signs what its
  certificate verifies.\<close>

lemma signed_is_good:
  assumes "ecdsa_laws M" "credential_good M S c" "sign_value M (cr_sk c) tbs = Some sig"
    and p256: "\<And>crt g q. m_crt_parse M (rsp_accept_certificate_policies M) (cdata (cr_der c)) = Some crt \<Longrightarrow>
        m_crt_ec M crt = Some (g, q) \<Longrightarrow> g = m_p256 M"
  shows "signature_good M (cdata (cr_der c)) tbs sig"
proof -
  from assms(2) obtain leaf g q p b where
    leaf: "m_crt_parse M (rsp_accept_certificate_policies M) (cdata (cr_der c)) = Some leaf"
    "m_crt_is_ec M leaf" "m_crt_ec M leaf = Some (g, q)" and
    p: "m_mul_g M g (m_mpi_read M (cr_sk c)) = Some p" "m_point_write M g p = Some b"
    "m_point_write M g q = Some b" and ne: "clen (cr_der c) \<noteq> 0" "\<not> is_null (cr_der c)"
    by (fastforce simp: credential_good_def key_matches_def split: option.splits prod.splits)
  have g: "g = m_p256 M" by (rule p256 [OF leaf(1,3)])
  from p(2,3) assms(1) have "p = q" unfolding ecdsa_laws_def by blast
  moreover from assms(3) obtain r s r32 s32 where
    "m_sign_det M (m_p256 M) (m_mpi_read M (cr_sk c)) (m_sha256 M tbs) = Some (r, s)"
    "m_mpi_write M r 32 = Some r32" "m_mpi_write M s 32 = Some s32" "sig = r32 @ s32"
    by (auto simp: sign_value_def bind_eq_Some_conv)
  moreover from this assms(1) have "length r32 = 32" "length s32 = 32"
    "m_mpi_read M r32 = r" "m_mpi_read M s32 = s" by (auto simp: ecdsa_laws_def)
  ultimately show ?thesis
    using leaf p(1) g ne assms(1) unfolding signature_good_def
    by (cases "cr_der c") (auto simp: ecdsa_laws_def)
qed

end
