(* ===== verification/Bpp.thy ===== *)
theory Bpp
  imports Scp03t Tlv Sign
begin

text \<open>
  Assembling a Bound Profile Package, the building half of \<open>src/rsp_bpp.c\<close>. The session is the
  \<open>loc\<close> part of the state, as in \<open>Scp03t\<close>; \<open>rsp_bpp_build\<close> returns the package's octets.
  \<open>bpp_of\<close> is the package SGP.22 2.5.4 describes, as a plain function of the session and the
  parts; a successful build yields it, and without operational failure the build succeeds.
\<close>

record rsp_bpp_input =
  bi_upp :: cbuf
  bi_otpk_dp :: "bytes option"
  bi_metadata :: cbuf
  bi_transaction_id :: "bytes option"
  bi_euicc_otpk :: "bytes option"
  bi_dppb :: "rsp_credential option"

definition RSP_BPP_MAX_SEGMENT_PLAINTEXT :: nat where
  "RSP_BPP_MAX_SEGMENT_PLAINTEXT = 1007"

definition RSP_BPP_SEGMENT_BUF :: nat where
  "RSP_BPP_SEGMENT_BUF = RSP_BPP_MAX_SEGMENT_PLAINTEXT + 16 + 8"

definition TAG_BYTE :: "nat \<Rightarrow> bool \<Rightarrow> nat \<Rightarrow> u8" where
  "TAG_BYTE class2 constructed num =
     word_of_nat (push_bit 6 class2 OR (if constructed then 0x20 else 0) OR num)"

definition TAG_BPP :: bytes where "TAG_BPP = [0xBF, 0x36]"
definition TAG_F87_WRAPPER :: u8 where "TAG_F87_WRAPPER = TAG_BYTE 2 True 0"
definition TAG_88_WRAPPER :: u8 where "TAG_88_WRAPPER = TAG_BYTE 2 True 1"
definition TAG_86_WRAPPER :: u8 where "TAG_86_WRAPPER = TAG_BYTE 2 True 3"
definition TAG_87_ELEMENT :: u8 where "TAG_87_ELEMENT = TAG_BYTE 2 False 7"
definition TAG_88_ELEMENT :: u8 where "TAG_88_ELEMENT = TAG_BYTE 2 False 8"
definition TAG_86_ELEMENT :: u8 where "TAG_86_ELEMENT = TAG_BYTE 2 False 6"
definition TAG_REMOTEOPID :: u8 where "TAG_REMOTEOPID = TAG_BYTE 2 False 2"
definition TAG_TRANSACTIONID :: u8 where "TAG_TRANSACTIONID = TAG_BYTE 2 False 0"
definition TAG_CRT :: u8 where "TAG_CRT = TAG_BYTE 2 True 6"
definition TAG_CRT_KEYTYPE :: u8 where "TAG_CRT_KEYTYPE = TAG_BYTE 2 False 0"
definition TAG_CRT_KEYLEN :: u8 where "TAG_CRT_KEYLEN = TAG_BYTE 2 False 1"
definition TAG_CRT_HOSTID :: u8 where "TAG_CRT_HOSTID = TAG_BYTE 2 False 4"
definition TAG_OTPK :: bytes where "TAG_OTPK = [0x5F, 0x49]"

text \<open>\<open>PACKED_TAG\<close> is \<open>packed_tag\<close>; \<open>RemoteOpId_installBoundProfilePackage\<close> is 1 in
  \<open>rsp-2.5.asn\<close>.\<close>

definition installBoundProfilePackage :: int where
  "installBoundProfilePackage = 1"

section \<open>The key-agreement request\<close>

definition build_isc_tbs ::
  "growbuf \<Rightarrow> bytes \<Rightarrow> u8 \<Rightarrow> u8 \<Rightarrow> bytes \<Rightarrow> bytes \<Rightarrow> bytes \<Rightarrow> ('x, growbuf) cm" where
  "build_isc_tbs g transaction_id key_type key_len host_id smdp_otpk euicc_otpk =
     bnd (recode Minus1 (put_tlv empty_growbuf TAG_CRT_KEYTYPE [key_type])) (\<lambda>crt.
     bnd (recode Minus1 (put_tlv crt TAG_CRT_KEYLEN [key_len])) (\<lambda>crt.
     bnd (recode Minus1 (put_tlv crt TAG_CRT_HOSTID host_id)) (\<lambda>crt.
     bnd (recode Minus1 (put_tlv g TAG_REMOTEOPID [word_of_int installBoundProfilePackage])) (\<lambda>g.
     bnd (recode Minus1 (put_tlv g TAG_TRANSACTIONID transaction_id)) (\<lambda>g.
     bnd (recode Minus1 (put_tlv g TAG_CRT (gb_bytes crt))) (\<lambda>g.
     bnd (recode Minus1 (put_tlv_tag g TAG_OTPK smdp_otpk)) (\<lambda>g.
     recode Minus1 (put_tlv_tag g TAG_OTPK euicc_otpk))))))))"

text \<open>\<open>octet_string\<close> is \<open>OCTET_STRING_fromBuf\<close>: it copies, and fails when it cannot allocate.\<close>

definition octet_string :: "stop \<Rightarrow> bytes \<Rightarrow> ('x, bytes) cm" where
  "octet_string e b = ext e (Some b)"

definition build_isc ::
  "('c, 'g, 'p, 'k) mbedtls \<Rightarrow> rsp_bpp_input \<Rightarrow> ('x, isc_request) cm" where
  "build_isc M inp =
     bnd (ext Minus1 (Some installBoundProfilePackage)) (\<lambda>op.
     bnd (octet_string Minus1 (the (bi_transaction_id inp))) (\<lambda>tid.
     bnd (octet_string Minus1 [0x88]) (\<lambda>key_type.
     bnd (octet_string Minus1 [0x10]) (\<lambda>key_len.
     bnd (octet_string Minus1 RSP_HOST_ID) (\<lambda>host_id.
     bnd (octet_string Minus1 (the (bi_otpk_dp inp))) (\<lambda>otpk.
     bnd (recode Minus1 (build_isc_tbs empty_growbuf (the (bi_transaction_id inp)) 0x88 0x10
            RSP_HOST_ID (the (bi_otpk_dp inp)) (the (bi_euicc_otpk inp)))) (\<lambda>tbs.
     bnd (recode Minus1 (rsp_sign M (bi_dppb inp) (Buf (gb_bytes tbs)) True)) (\<lambda>sig.
     bnd (octet_string Minus1 sig) (\<lambda>sign.
     ret \<lparr>isc_remoteOpId = op, isc_transactionId = tid, isc_keyType = key_type,
          isc_keyLen = key_len, isc_hostId = host_id, isc_smdpOtpk = otpk, isc_smdpSign = sign\<rparr>)))))))))"

definition build_configure :: configure_isdp where
  "build_configure = \<lparr>dpProprietaryData = None\<rparr>"

section \<open>Building\<close>

text \<open>The do-while loop over the profile's segments.\<close>

function seg86_loop ::
  "('c, 'g, 'p, 'k) mbedtls \<Rightarrow> bytes \<Rightarrow> nat \<Rightarrow> growbuf \<Rightarrow> (rsp_session option, growbuf) cm" where
  "seg86_loop M upp off seq86 =
     (let chunk = (if length upp - off > RSP_BPP_MAX_SEGMENT_PLAINTEXT
                   then RSP_BPP_MAX_SEGMENT_PLAINTEXT else length upp - off);
          p = (if chunk \<noteq> 0 then Buf (take chunk (drop off upp)) else Null 0) in
      bnd (recode Minus1 (rsp_protect M p TAG_86_ELEMENT (Some RSP_BPP_SEGMENT_BUF))) (\<lambda>seg_buf.
      bnd (recode Minus1 (put_tlv seq86 TAG_86_ELEMENT seg_buf)) (\<lambda>seq86.
      if off + chunk < length upp then seg86_loop M upp (off + chunk) seq86 else ret seq86)))"
  by pat_completeness auto
termination
  by (relation "measure (\<lambda>(M, upp, off, seq86). length upp - off)")
    (auto simp: RSP_BPP_MAX_SEGMENT_PLAINTEXT_def split: if_splits)

declare seg86_loop.simps [simp del]

text \<open>One protected element in its own wrapper, appended to the content.\<close>

definition put_wrapped :: "growbuf \<Rightarrow> u8 \<Rightarrow> u8 \<Rightarrow> bytes \<Rightarrow> ('x, growbuf) cm" where
  "put_wrapped content wrapper element prot =
     bnd (recode Minus1 (put_tlv empty_growbuf element prot)) (\<lambda>wrapped.
     recode Minus1 (put_tlv content wrapper (gb_bytes wrapped)))"

text \<open>\<open>rsp_bpp_build\<close> past its argument checks, in two parts: the content of the package, and the
  outer [54] SEQUENCE around it.\<close>

definition bpp_content ::
  "('c, 'g, 'p, 'k) mbedtls \<Rightarrow> 'a asn1c \<Rightarrow> rsp_bpp_input \<Rightarrow> (rsp_session option, growbuf) cm" where
  "bpp_content M A inp =
    (let md = bi_metadata inp in
     bnd (recode Minus1 (build_isc M inp)) (\<lambda>isc.
     bnd (recode Minus1 (der_encode_alloc (a_enc_isc A isc))) (\<lambda>isc_der.
     bnd (recode Minus1 (rsp_growbuf_append empty_growbuf isc_der)) (\<lambda>content.
     bnd (recode Minus1 (der_encode_alloc (a_enc_configure A build_configure))) (\<lambda>configure_der.
     bnd (ensure (\<not> length configure_der > RSP_BPP_MAX_SEGMENT_PLAINTEXT) Minus1) (\<lambda>_.
     bnd (recode Minus1 (rsp_protect M (Buf configure_der) TAG_87_ELEMENT (Some RSP_BPP_SEGMENT_BUF))) (\<lambda>prot87.
     bnd (put_wrapped content TAG_F87_WRAPPER TAG_87_ELEMENT prot87) (\<lambda>content.
     bnd (ensure (\<not> (is_null md \<or> clen md = 0 \<or> clen md > RSP_BPP_MAX_SEGMENT_PLAINTEXT)) Minus1) (\<lambda>_.
     bnd (recode Minus1 (rsp_protect_mac_only M md TAG_88_ELEMENT (Some RSP_BPP_SEGMENT_BUF))) (\<lambda>prot88.
     bnd (put_wrapped content TAG_88_WRAPPER TAG_88_ELEMENT prot88) (\<lambda>content.
     bnd (seg86_loop M (cdata (bi_upp inp)) 0 empty_growbuf) (\<lambda>seq86.
     recode Minus1 (put_tlv content TAG_86_WRAPPER (gb_bytes seq86))))))))))))))"

definition bpp_envelope :: "growbuf \<Rightarrow> ('x, bytes) cm" where
  "bpp_envelope content =
     bnd (lift_opt Minus1 (rsp_der_length_octets (gb_len content))) (\<lambda>lo.
     bnd (recode Minus1 (rsp_growbuf_append empty_growbuf TAG_BPP)) (\<lambda>g.
     bnd (recode Minus1 (rsp_growbuf_append g lo)) (\<lambda>g.
     bnd (recode Minus1 (rsp_growbuf_append g (gb_bytes content))) (\<lambda>g.
     ret (gb_bytes g)))))"

definition rsp_bpp_build ::
  "('c, 'g, 'p, 'k) mbedtls \<Rightarrow> 'a asn1c \<Rightarrow> rsp_bpp_input option \<Rightarrow> bool \<Rightarrow>
   (rsp_session option, bytes) cm" where
  "rsp_bpp_build M A inp out_ok =
     bnd get_loc (\<lambda>s.
     bnd (ensure (\<not> (s = None \<or> inp = None \<or> \<not> out_ok)) Minus1) (\<lambda>_.
     let inp = the inp; upp = bi_upp inp; md = bi_metadata inp in
     bnd (ensure (\<not> (bi_otpk_dp inp = None \<or> is_null md \<or> clen md = 0 \<or>
            bi_transaction_id inp = None \<or> bi_euicc_otpk inp = None \<or> bi_dppb inp = None)) Minus1) (\<lambda>_.
     bnd (ensure (\<not> (is_null upp \<and> clen upp \<noteq> 0)) Minus1) (\<lambda>_.
     bnd (ensure (clen upp \<noteq> 0) Minus1) (\<lambda>_.
     bnd (bpp_content M A inp) (\<lambda>content.
     bpp_envelope content))))))"

lemma tag_bytes [simp]:
  "TAG_F87_WRAPPER = 0xA0" "TAG_88_WRAPPER = 0xA1" "TAG_86_WRAPPER = 0xA3"
  "TAG_87_ELEMENT = 0x87" "TAG_88_ELEMENT = 0x88" "TAG_86_ELEMENT = 0x86"
  "TAG_REMOTEOPID = 0x82" "TAG_TRANSACTIONID = 0x80" "TAG_CRT = 0xA6"
  "TAG_CRT_KEYTYPE = 0x80" "TAG_CRT_KEYLEN = 0x81" "TAG_CRT_HOSTID = 0x84"
  by (simp_all add: TAG_BYTE_def TAG_F87_WRAPPER_def TAG_88_WRAPPER_def TAG_86_WRAPPER_def
      TAG_87_ELEMENT_def TAG_88_ELEMENT_def TAG_86_ELEMENT_def TAG_REMOTEOPID_def
      TAG_TRANSACTIONID_def TAG_CRT_def TAG_CRT_KEYTYPE_def TAG_CRT_KEYLEN_def TAG_CRT_HOSTID_def)

section \<open>The package as a value\<close>

function chunks :: "nat \<Rightarrow> 'b list \<Rightarrow> 'b list list" where
  "chunks n xs = (if n = 0 \<or> xs = [] then [] else take n xs # chunks n (drop n xs))"
  by pat_completeness auto
termination
  by (relation "measure (\<lambda>(n, xs). length xs)") auto

declare chunks.simps [simp del]

fun seal_all ::
  "('c, 'g, 'p, 'k) mbedtls \<Rightarrow> u8 \<Rightarrow> rsp_session \<Rightarrow> bytes list \<Rightarrow> bytes list \<times> rsp_session" where
  "seal_all M t s [] = ([], s)"
| "seal_all M t s (p # ps) =
     (case seal_all M t (after_seal M t s p) ps of (cs, s') \<Rightarrow> (sealed M t s p # cs, s'))"

definition tlvs :: "u8 \<Rightarrow> bytes list \<Rightarrow> bytes" where
  "tlvs t vs = concat (map (tlv [t]) vs)"

definition isc_tbs :: "bytes \<Rightarrow> bytes \<Rightarrow> bytes \<Rightarrow> bytes" where
  "isc_tbs tid otpk_dp otpk_euicc =
     tlv [0x82] [1] @ tlv [0x80] tid @
     tlv [0xA6] (tlv [0x80] [0x88] @ tlv [0x81] [0x10] @ tlv [0x84] RSP_HOST_ID) @
     tlv [0x5F, 0x49] otpk_dp @ tlv [0x5F, 0x49] otpk_euicc"

definition isc_of :: "('c, 'g, 'p, 'k) mbedtls \<Rightarrow> bytes \<Rightarrow> bytes \<Rightarrow> bytes \<Rightarrow> bytes \<Rightarrow> isc_request option" where
  "isc_of M sk tid otpk_dp otpk_euicc =
     map_option (\<lambda>sig. \<lparr>isc_remoteOpId = 1, isc_transactionId = tid, isc_keyType = [0x88],
          isc_keyLen = [0x10], isc_hostId = RSP_HOST_ID, isc_smdpOtpk = otpk_dp, isc_smdpSign = sig\<rparr>)
       (sign_value M sk (isc_tbs tid otpk_dp otpk_euicc))"

definition bpp_parts ::
  "('c, 'g, 'p, 'k) mbedtls \<Rightarrow> rsp_session \<Rightarrow> bytes \<Rightarrow> bytes \<Rightarrow> bytes \<Rightarrow> bytes \<Rightarrow> bytes \<times> rsp_session" where
  "bpp_parts M s isc_der cfg md upp =
     (let s1 = after_seal M 0x87 s cfg; s2 = after_mac M 0x88 s1 md in
      case seal_all M 0x86 s2 (chunks 1007 upp) of (segs, s3) \<Rightarrow>
        (isc_der @ tlv [0xA0] (tlv [0x87] (sealed M 0x87 s cfg)) @
         tlv [0xA1] (tlv [0x88] (macced M 0x88 s1 md)) @ tlv [0xA3] (tlvs 0x86 segs), s3))"

text \<open>The whole package for these inputs, and the session after it; there is none when the encoded
  ConfigureISDP does not fit one segment or the content has no four-octet length.\<close>

definition bpp_of ::
  "('c, 'g, 'p, 'k) mbedtls \<Rightarrow> 'a asn1c \<Rightarrow> rsp_session \<Rightarrow> rsp_bpp_input \<Rightarrow> (bytes \<times> rsp_session) option" where
  "bpp_of M A s inp =
     Option.bind (isc_of M (cr_sk (the (bi_dppb inp))) (the (bi_transaction_id inp))
                   (the (bi_otpk_dp inp)) (the (bi_euicc_otpk inp))) (\<lambda>isc.
     Option.bind (a_enc_isc A isc) (\<lambda>isc_bs.
     Option.bind (a_enc_configure A build_configure) (\<lambda>cfg_bs.
     let r = bpp_parts M s (concat isc_bs) (concat cfg_bs) (cdata (bi_metadata inp)) (cdata (bi_upp inp)) in
     if length (concat cfg_bs) > 1007 \<or> length (fst r) > 0xFFFFFFFF then None
     else Some (tlv [0xBF, 0x36] (fst r), snd r))))"

section \<open>Building yields that package\<close>

lemma put_tlv_run:
  assumes "put_tlv g t content w = (Inr g', w')" "gb_ok g"
  shows "gb_ok g'" "gb_bytes g' = gb_bytes g @ tlv [t] content" "loc w' = loc w"
    "length content \<le> 0xFFFFFFFF"
  using put_tlv_tag_run [OF assms(2) assms(1) [unfolded put_tlv_def]] by auto

lemma put_tlv_ok:
  assumes "gb_ok g" "faults w = []" "length content \<le> 0xFFFFFFFF"
    and "length (gb_bytes g) + length (tlv [t] content) \<le> 2 ^ 63"
  obtains g' where "put_tlv g t content w = (Inr g', w)" "gb_ok g'"
    "gb_bytes g' = gb_bytes g @ tlv [t] content"
  using put_tlv_tag_ok [OF assms] put_tlv_tag_run [OF assms(1)] that unfolding put_tlv_def by blast

lemma build_isc_tbs_run:
  assumes "build_isc_tbs g tid 0x88 0x10 RSP_HOST_ID otpk_dp otpk_euicc w = (Inr g', w')" "gb_ok g"
  shows "gb_ok g' \<and> gb_bytes g' = gb_bytes g @ isc_tbs tid otpk_dp otpk_euicc \<and> loc w' = loc w"
proof -
  from assms(1) obtain c1 w1 c2 w2 c3 w3 g1 w4 g2 w5 g3 w6 g4 w7 where
    c: "put_tlv empty_growbuf 0x80 [0x88] w = (Inr c1, w1)" "put_tlv c1 0x81 [0x10] w1 = (Inr c2, w2)"
      "put_tlv c2 0x84 RSP_HOST_ID w2 = (Inr c3, w3)" and
    t: "put_tlv g 0x82 [1] w3 = (Inr g1, w4)" "put_tlv g1 0x80 tid w4 = (Inr g2, w5)"
      "put_tlv g2 0xA6 (gb_bytes c3) w5 = (Inr g3, w6)" and
    k: "put_tlv_tag g3 TAG_OTPK otpk_dp w6 = (Inr g4, w7)" "put_tlv_tag g4 TAG_OTPK otpk_euicc w7 = (Inr g', w')"
    by (auto simp: build_isc_tbs_def cm_run installBoundProfilePackage_def)
  note C1 = put_tlv_run [OF c(1) gb_ok_empty(1)]
  note C2 = put_tlv_run [OF c(2) C1(1)]
  note C3 = put_tlv_run [OF c(3) C2(1)]
  note T1 = put_tlv_run [OF t(1) assms(2)]
  note T2 = put_tlv_run [OF t(2) T1(1)]
  note T3 = put_tlv_run [OF t(3) T2(1)]
  note K1 = put_tlv_tag_run [OF T3(1) k(1)]
  note K2 = put_tlv_tag_run [OF conjunct1 [OF K1] k(2)]
  show ?thesis
    using K1 K2 by (simp add: isc_tbs_def TAG_OTPK_def C1(2,3) C2(2,3) C3(2,3) T1(2,3) T2(2,3) T3(2,3))
qed

lemma build_isc_run:
  assumes "build_isc M inp w = (Inr isc, w')" "bi_dppb inp = Some c"
  shows "isc_of M (cr_sk c) (the (bi_transaction_id inp)) (the (bi_otpk_dp inp)) (the (bi_euicc_otpk inp)) = Some isc
    \<and> loc w' = loc w"
  using assms
  by (auto simp: build_isc_def cm_run octet_string_def isc_of_def installBoundProfilePackage_def
           dest!: build_isc_tbs_run sign_run)

lemma chunks_step:
  "off < length upp \<Longrightarrow> chunks 1007 (drop off upp) =
     take (min 1007 (length upp - off)) (drop off upp) # chunks 1007 (drop (off + min 1007 (length upp - off)) upp)"
  by (subst chunks.simps) (auto simp: min_def add.commute)

lemma seg86_step:
  assumes "off < length upp"
  shows "seg86_loop M upp off g =
    (let n = min 1007 (length upp - off) in
     bnd (recode Minus1 (rsp_protect M (Buf (take n (drop off upp))) 0x86 (Some 1031))) (\<lambda>seg.
     bnd (recode Minus1 (put_tlv g 0x86 seg)) (\<lambda>g.
     if off + n < length upp then seg86_loop M upp (off + n) g else ret g)))"
proof -
  define n where "n = min 1007 (length upp - off)"
  have n: "(if length upp - off > RSP_BPP_MAX_SEGMENT_PLAINTEXT then RSP_BPP_MAX_SEGMENT_PLAINTEXT
      else length upp - off) = n" "n \<noteq> 0"
    using assms by (auto simp: n_def RSP_BPP_MAX_SEGMENT_PLAINTEXT_def)
  show ?thesis
    unfolding n_def [symmetric] Let_def
    by (subst seg86_loop.simps)
      (simp only: Let_def n if_True not_False_eq_True tag_bytes RSP_BPP_SEGMENT_BUF_def, simp add: RSP_BPP_MAX_SEGMENT_PLAINTEXT_def)
qed

lemma seg86_run:
  assumes "seg86_loop M upp off g w = (Inr g', w')" "loc w = Some s" "session_wf s" "cipher_laws M"
    and "gb_ok g" "off < length upp"
  shows "gb_ok g' \<and>
    gb_bytes g' = gb_bytes g @ tlvs 0x86 (fst (seal_all M 0x86 s (chunks 1007 (drop off upp)))) \<and>
    loc w' = Some (snd (seal_all M 0x86 s (chunks 1007 (drop off upp))))"
  using assms
proof (induction "length upp - off" arbitrary: off g w s rule: less_induct)
  case less
  define n where "n = min 1007 (length upp - off)"
  have n: "n \<noteq> 0" using less.prems(6) by (auto simp: n_def)
  define p where "p = take n (drop off upp)"
  from less.prems(1) obtain seg w1 g1 w2 where
    1: "rsp_protect M (Buf p) 0x86 (Some 1031) w = (Inr seg, w1)" and
    2: "put_tlv g 0x86 seg w1 = (Inr g1, w2)" and
    3: "(if off + n < length upp then seg86_loop M upp (off + n) g1 else ret g1) w2 = (Inr g', w')"
    unfolding seg86_step [OF less.prems(6)] Let_def n_def [symmetric] p_def [symmetric]
    by (auto simp only: cm_run)
  note P = protect_run [OF 1 less.prems(2,3)]
  note T = put_tlv_run [OF 2 less.prems(5)]
  have ch: "chunks 1007 (drop off upp) = p # chunks 1007 (drop (off + n) upp)"
    using chunks_step [OF less.prems(6)] by (simp add: n_def p_def)
  show ?case
  proof (cases "off + n < length upp")
    case True
    have "length upp - (off + n) < length upp - off" using n less.prems(6) by linarith
    moreover have "loc w2 = Some (after_seal M 0x86 s p)" using P T by simp
    moreover have "seg86_loop M upp (off + n) g1 w2 = (Inr g', w')" using 3 True by simp
    ultimately show ?thesis
      using less.hyps [of "off + n" g1 w2 "after_seal M 0x86 s p"] less.prems(3,4) T(1) True
      by (auto simp: after_seal_wf T(2) P(1) ch tlvs_def split: prod.splits)
  next
    case False
    then have "chunks 1007 (drop (off + n) upp) = []" by (simp add: chunks.simps)
    with False 3 P T show ?thesis by (auto simp: cm_run ch tlvs_def)
  qed
qed

lemma put_wrapped_run:
  assumes "put_wrapped content wr el prot w = (Inr g', w')" "gb_ok content"
  shows "gb_ok g'" "gb_bytes g' = gb_bytes content @ tlv [wr] (tlv [el] prot)" "loc w' = loc w"
proof -
  from assms(1) obtain wrapped w1 where
    1: "put_tlv empty_growbuf el prot w = (Inr wrapped, w1)" and
    2: "put_tlv content wr (gb_bytes wrapped) w1 = (Inr g', w')"
    by (auto simp: put_wrapped_def cm_run)
  note W = put_tlv_run [OF 1 gb_ok_empty(1)]
  show "gb_ok g'" "gb_bytes g' = gb_bytes content @ tlv [wr] (tlv [el] prot)" "loc w' = loc w"
    using put_tlv_run [OF 2 assms(2)] W by simp_all
qed

lemma bpp_envelope_run:
  assumes "bpp_envelope ct w = (Inr out, w')" "gb_ok ct"
  shows "out = tlv TAG_BPP (gb_bytes ct)" "loc w' = loc w" "length (gb_bytes ct) \<le> 0xFFFFFFFF"
proof -
  from assms(1) obtain lo g1 w1 g2 w2 g3 where
    lo: "rsp_der_length_octets (gb_len ct) = Some lo" and
    1: "rsp_growbuf_append empty_growbuf TAG_BPP w = (Inr g1, w1)" and
    2: "rsp_growbuf_append g1 lo w1 = (Inr g2, w2)" and
    3: "rsp_growbuf_append g2 (gb_bytes ct) w2 = (Inr g3, w')" and out: "out = gb_bytes g3"
    unfolding bpp_envelope_def by (auto simp only: cm_run)
  note H1 = growbuf_append_run [OF gb_ok_empty(1) 1]
  note H2 = growbuf_append_run [OF conjunct1 [OF H1] 2]
  note H3 = growbuf_append_run [OF conjunct1 [OF H2] 3]
  show "out = tlv TAG_BPP (gb_bytes ct)" "loc w' = loc w"
    using H1 H2 H3 lo length_gb_bytes [OF assms(2)] by (simp_all add: out tlv_def)
  show "length (gb_bytes ct) \<le> 0xFFFFFFFF"
    using lo der_length_refused [of "gb_len ct"] length_gb_bytes [OF assms(2)] by simp
qed

lemma bpp_content_run:
  assumes run: "bpp_content M A inp w = (Inr ct, w')" and inp: "bi_dppb inp = Some c" "cdata (bi_upp inp) \<noteq> []"
    and s: "loc w = Some s" "session_wf s" and M: "cipher_laws M"
  obtains isc ibs cbs where
    "isc_of M (cr_sk c) (the (bi_transaction_id inp)) (the (bi_otpk_dp inp)) (the (bi_euicc_otpk inp)) = Some isc"
    "a_enc_isc A isc = Some ibs" "a_enc_configure A build_configure = Some cbs" "gb_ok ct"
    "bpp_parts M s (concat ibs) (concat cbs) (cdata (bi_metadata inp)) (cdata (bi_upp inp)) = (gb_bytes ct, the (loc w'))"
    "loc w' \<noteq> None" "length (concat cbs) \<le> 1007" "length (cdata (bi_metadata inp)) \<le> 1007"
proof -
  from run obtain isc w1 isc_der w2 ct1 w3 cfg w4 p87 w5 ct2 w6 p88 w7 ct3 w8 seq w9 where
    1: "build_isc M inp w = (Inr isc, w1)" and
    2: "der_encode_alloc (a_enc_isc A isc) w1 = (Inr isc_der, w2)" and
    3: "rsp_growbuf_append empty_growbuf isc_der w2 = (Inr ct1, w3)" and
    4: "der_encode_alloc (a_enc_configure A build_configure) w3 = (Inr cfg, w4)" and
    l: "\<not> length cfg > RSP_BPP_MAX_SEGMENT_PLAINTEXT" and
    5: "rsp_protect M (Buf cfg) 0x87 (Some RSP_BPP_SEGMENT_BUF) w4 = (Inr p87, w5)" and
    6: "put_wrapped ct1 0xA0 0x87 p87 w5 = (Inr ct2, w6)" and
    m: "\<not> is_null (bi_metadata inp)" "\<not> clen (bi_metadata inp) > RSP_BPP_MAX_SEGMENT_PLAINTEXT" and
    7: "rsp_protect_mac_only M (bi_metadata inp) 0x88 (Some RSP_BPP_SEGMENT_BUF) w6 = (Inr p88, w7)" and
    8: "put_wrapped ct2 0xA1 0x88 p88 w7 = (Inr ct3, w8)" and
    9: "seg86_loop M (cdata (bi_upp inp)) 0 empty_growbuf w8 = (Inr seq, w9)" and
    10: "put_tlv ct3 0xA3 (gb_bytes seq) w9 = (Inr ct, w')"
    unfolding bpp_content_def Let_def by (auto simp: cm_run)
  obtain md where md: "bi_metadata inp = Buf md" "length md \<le> 1007"
    using m by (cases "bi_metadata inp") (auto simp: RSP_BPP_MAX_SEGMENT_PLAINTEXT_def)
  from build_isc_run [OF 1 inp(1)] have i: "isc_of M (cr_sk c) (the (bi_transaction_id inp))
      (the (bi_otpk_dp inp)) (the (bi_euicc_otpk inp)) = Some isc" "loc w1 = Some s" using s by auto
  from der_encode_run [OF 2] obtain ibs where ibs: "a_enc_isc A isc = Some ibs" "isc_der = concat ibs"
    "loc w2 = Some s" using i by auto
  note G1 = growbuf_append_run [OF gb_ok_empty(1) 3]
  from der_encode_run [OF 4] obtain cbs where cbs: "a_enc_configure A build_configure = Some cbs"
    "cfg = concat cbs" "loc w4 = Some s" using G1 ibs by auto
  note P = protect_run [OF 5 cbs(3) s(2)]
  note W1 = put_wrapped_run [OF 6 conjunct1 [OF G1]]
  have s1: "loc w6 = Some (after_seal M 0x87 s cfg)" "session_wf (after_seal M 0x87 s cfg)"
    using W1 P s(2) M by (simp_all add: after_seal_wf)
  note Q = protect_mac_only_run [OF 7 [unfolded md(1)] s1]
  note W2 = put_wrapped_run [OF 8 W1(1)]
  have s2: "loc w8 = Some (after_mac M 0x88 (after_seal M 0x87 s cfg) md)"
      "session_wf (after_mac M 0x88 (after_seal M 0x87 s cfg) md)"
    using W2 Q s1(2) M by (simp_all add: after_mac_wf)
  have "0 < length (cdata (bi_upp inp))" using inp(2) by simp
  note S = seg86_run [OF 9 s2 M gb_ok_empty(1) this, simplified]
  note T = put_tlv_run [OF 10 W2(1)]
  have b: "bpp_parts M s (concat ibs) (concat cbs) (cdata (bi_metadata inp)) (cdata (bi_upp inp)) = (gb_bytes ct, the (loc w'))"
    using T(2,3) W2(2) W1(2) G1 P(1) Q(1) S cbs(2) ibs(2)
    by (simp add: bpp_parts_def Let_def md(1) split: prod.splits)
  show ?thesis
    by (rule that [OF i(1) ibs(1) cbs(1) T(1) b])
      (use T(3) S l cbs(2) md in \<open>auto simp: RSP_BPP_MAX_SEGMENT_PLAINTEXT_def\<close>)
qed

lemma bpp_build_run:
  assumes run: "rsp_bpp_build M A (Some inp) True w = (Inr out, w')"
    and s: "loc w = Some s" "session_wf s" and M: "cipher_laws M"
  obtains s' where "bpp_of M A s inp = Some (out, s')" "loc w' = Some s'"
    "cdata (bi_upp inp) \<noteq> []" "cdata (bi_metadata inp) \<noteq> []" "length (cdata (bi_metadata inp)) \<le> 1007"
proof -
  from run s(1) obtain c ct w1 where inp: "bi_dppb inp = Some c" "cdata (bi_upp inp) \<noteq> []" "cdata (bi_metadata inp) \<noteq> []"
    and 1: "bpp_content M A inp w = (Inr ct, w1)" and 2: "bpp_envelope ct w1 = (Inr out, w')"
    unfolding rsp_bpp_build_def Let_def
    by (cases "bi_metadata inp"; cases "bi_upp inp"; auto simp: cm_run)
  obtain isc ibs cbs where C:
    "isc_of M (cr_sk c) (the (bi_transaction_id inp)) (the (bi_otpk_dp inp)) (the (bi_euicc_otpk inp)) = Some isc"
    "a_enc_isc A isc = Some ibs" "a_enc_configure A build_configure = Some cbs" "gb_ok ct"
    "bpp_parts M s (concat ibs) (concat cbs) (cdata (bi_metadata inp)) (cdata (bi_upp inp)) = (gb_bytes ct, the (loc w1))"
    "loc w1 \<noteq> None" "length (concat cbs) \<le> 1007" "length (cdata (bi_metadata inp)) \<le> 1007"
    by (rule bpp_content_run [OF 1 inp(1,2) s M])
  note E = bpp_envelope_run [OF 2 C(4)]
  show ?thesis
    by (rule that [of "the (loc w1)"]) (use C E inp in \<open>auto simp: bpp_of_def TAG_BPP_def Let_def\<close>)
qed

section \<open>Without operational failure the package is built\<close>

lemma tlv_header_le:
  assumes "length v \<le> 0xFFFFFFFF"
  shows "tlv_header tag v \<le> length tag + 5"
proof -
  obtain lo where lo: "rsp_der_length_octets (length v) = Some lo"
    using assms by (rule der_octets_exist)
  show ?thesis using der_length_size [OF lo] lo by (simp add: tlv_header_def der_len_size_def)
qed

lemma length_tlv_le: "length v \<le> 0xFFFFFFFF \<Longrightarrow> length (tlv tag v) \<le> length tag + 5 + length v"
  using tlv_header_le [of v tag] by (simp add: length_tlv)

lemma length_tlv_ge: "length v \<le> length (tlv tag v)"
  by (simp add: length_tlv)

lemma put_small:
  assumes "gb_ok g" "faults w = []" "length content \<le> 2000" "length (gb_bytes g) \<le> 10000" "length tag \<le> 2"
  obtains g' where "put_tlv_tag g tag content w = (Inr g', w)" "gb_ok g'"
    "gb_bytes g' = gb_bytes g @ tlv tag content" "length (gb_bytes g') \<le> length (gb_bytes g) + length content + 7"
proof -
  have l: "length (tlv tag content) \<le> length tag + 5 + length content"
    using assms(3) by (intro length_tlv_le) simp
  obtain g' where g': "put_tlv_tag g tag content w = (Inr g', w)"
    using put_tlv_tag_ok [OF assms(1,2), of content tag] assms l by auto
  with put_tlv_tag_run [OF assms(1) g'] l assms(5) show thesis by (intro that [of g']) auto
qed

lemma build_isc_tbs_ok:
  assumes f: "faults w = []" and "length tid = 16" "length k1 = 65" "length k2 = 65"
  obtains g where "build_isc_tbs empty_growbuf tid 0x88 0x10 RSP_HOST_ID k1 k2 w = (Inr g, w)"
    "gb_ok g" "gb_bytes g = isc_tbs tid k1 k2"
proof -
  have h: "length RSP_HOST_ID = 9" by (simp add: RSP_HOST_ID_def)
  obtain c1 where c1: "put_tlv_tag empty_growbuf [0x80] [0x88] w = (Inr c1, w)" "gb_ok c1"
      "length (gb_bytes c1) \<le> 8" by (rule put_small [of empty_growbuf w "[0x88]" "[0x80]"]) (use f in auto)
  obtain c2 where c2: "put_tlv_tag c1 [0x81] [0x10] w = (Inr c2, w)" "gb_ok c2" "length (gb_bytes c2) \<le> 16"
    by (rule put_small [of c1 w "[0x10]" "[0x81]"]) (use f c1 in auto)
  obtain c3 where c3: "put_tlv_tag c2 [0x84] RSP_HOST_ID w = (Inr c3, w)" "gb_ok c3" "length (gb_bytes c3) \<le> 32"
    by (rule put_small [of c2 w RSP_HOST_ID "[0x84]"]) (use f c2 h in auto)
  obtain g1 where g1: "put_tlv_tag empty_growbuf [0x82] [1] w = (Inr g1, w)" "gb_ok g1" "length (gb_bytes g1) \<le> 8"
    by (rule put_small [of empty_growbuf w "[1]" "[0x82]"]) (use f in auto)
  obtain g2 where g2: "put_tlv_tag g1 [0x80] tid w = (Inr g2, w)" "gb_ok g2" "length (gb_bytes g2) \<le> 31"
    by (rule put_small [of g1 w tid "[0x80]"]) (use f g1 assms in auto)
  obtain g3 where g3: "put_tlv_tag g2 [0xA6] (gb_bytes c3) w = (Inr g3, w)" "gb_ok g3" "length (gb_bytes g3) \<le> 70"
    by (rule put_small [of g2 w "gb_bytes c3" "[0xA6]"]) (use f g2 c3 in auto)
  obtain g4 where g4: "put_tlv_tag g3 TAG_OTPK k1 w = (Inr g4, w)" "gb_ok g4" "length (gb_bytes g4) \<le> 142"
    by (rule put_small [of g3 w k1 TAG_OTPK]) (use f g3 assms in \<open>auto simp: TAG_OTPK_def\<close>)
  obtain g5 where g5: "put_tlv_tag g4 TAG_OTPK k2 w = (Inr g5, w)" "gb_ok g5"
    by (rule put_small [of g4 w k2 TAG_OTPK]) (use f g4 assms in \<open>auto simp: TAG_OTPK_def\<close>)
  have run: "build_isc_tbs empty_growbuf tid 0x88 0x10 RSP_HOST_ID k1 k2 w = (Inr g5, w)"
    using c1 c2 c3 g1 g2 g3 g4 g5
    by (simp add: build_isc_tbs_def bnd_def recode_def put_tlv_def installBoundProfilePackage_def)
  with build_isc_tbs_run [OF run gb_ok_empty(1)] show thesis by (intro that [of g5]) auto
qed

definition input_ok :: "rsp_bpp_input \<Rightarrow> bool" where
  "input_ok inp \<longleftrightarrow> (case (bi_upp inp, bi_metadata inp, bi_transaction_id inp, bi_otpk_dp inp, bi_euicc_otpk inp, bi_dppb inp) of
       (Buf upp, Buf md, Some tid, Some k1, Some k2, Some c) \<Rightarrow>
         upp \<noteq> [] \<and> md \<noteq> [] \<and> length md \<le> 1007 \<and> length tid = 16 \<and> length k1 = 65 \<and> length k2 = 65
     | _ \<Rightarrow> False)"

lemma input_okE:
  assumes "input_ok inp"
  obtains upp md tid k1 k2 c where "inp = \<lparr>bi_upp = Buf upp, bi_otpk_dp = Some k1, bi_metadata = Buf md,
      bi_transaction_id = Some tid, bi_euicc_otpk = Some k2, bi_dppb = Some c\<rparr>"
    "upp \<noteq> []" "md \<noteq> []" "length md \<le> 1007" "length tid = 16" "length k1 = 65" "length k2 = 65"
  using assms unfolding input_ok_def
  by (cases inp) (auto split: cbuf.splits option.splits)

lemma build_isc_ok:
  assumes "faults w = []" "bi_transaction_id inp = Some tid" "bi_otpk_dp inp = Some k1" "bi_euicc_otpk inp = Some k2"
    "bi_dppb inp = Some c" "length tid = 16" "length k1 = 65" "length k2 = 65" "isc_of M (cr_sk c) tid k1 k2 = Some isc"
  shows "build_isc M inp w = (Inr isc, w)"
proof -
  obtain g where g: "build_isc_tbs empty_growbuf tid 0x88 0x10 RSP_HOST_ID k1 k2 w = (Inr g, w)" "gb_ok g"
    "gb_bytes g = isc_tbs tid k1 k2"
    by (rule build_isc_tbs_ok [OF assms(1,6-8)])
  from assms(9) obtain sig where sig: "sign_value M (cr_sk c) (isc_tbs tid k1 k2) = Some sig"
    "isc = \<lparr>isc_remoteOpId = 1, isc_transactionId = tid, isc_keyType = [0x88], isc_keyLen = [0x10],
      isc_hostId = RSP_HOST_ID, isc_smdpOtpk = k1, isc_smdpSign = sig\<rparr>"
    by (auto simp: isc_of_def)
  have "rsp_sign M (Some c) (Buf (isc_tbs tid k1 k2)) True w = (Inr sig, w)"
    using sign_ok [OF assms(1), of M c] sig(1) by simp
  with g sig(2) assms(1-5) show ?thesis
    by (simp add: build_isc_def bnd_def octet_string_def recode_def ret_def installBoundProfilePackage_def)
qed

lemma seg86_ok:
  assumes "faults w = []" "loc w = Some s" "session_wf s" "cipher_laws M" "gb_ok g" "off < length upp"
    and fits: "length (gb_bytes g) + length (tlvs 0x86 (fst (seal_all M 0x86 s (chunks 1007 (drop off upp))))) \<le> 2 ^ 63"
  shows "\<exists>g'. seg86_loop M upp off g w =
    (Inr g', w\<lparr>loc := Some (snd (seal_all M 0x86 s (chunks 1007 (drop off upp))))\<rparr>)"
  using assms
proof (induction "length upp - off" arbitrary: off g w s rule: less_induct)
  case less
  define n where "n = min 1007 (length upp - off)"
  have n: "n \<noteq> 0" "n \<le> 1007" using less.prems(6) by (auto simp: n_def)
  define p where "p = take n (drop off upp)"
  have p: "length p \<le> 1007" using n by (simp add: p_def)
  let ?s1 = "after_seal M 0x86 s p"
  let ?w1 = "w\<lparr>loc := Some ?s1\<rparr>"
  have "length p + (16 - length p mod 16) + 8 \<le> 1031" using p by simp
  then have 1: "rsp_protect M (Buf p) 0x86 (Some 1031) w = (Inr (sealed M 0x86 s p), ?w1)"
    using protect_ok [OF less.prems(1-4)] p by simp
  have ch: "chunks 1007 (drop off upp) = p # chunks 1007 (drop (off + n) upp)"
    using chunks_step [OF less.prems(6)] by (simp add: n_def p_def)
  define rest where "rest = seal_all M 0x86 ?s1 (chunks 1007 (drop (off + n) upp))"
  have all: "seal_all M 0x86 s (chunks 1007 (drop off upp)) = (sealed M 0x86 s p # fst rest, snd rest)"
    by (simp add: ch rest_def split: prod.splits)
  have ls: "length (sealed M 0x86 s p) \<le> 0xFFFFFFFF"
    using p by (simp add: length_sealed [OF less.prems(4)])
  have fit: "length (gb_bytes g) + length (tlv [0x86] (sealed M 0x86 s p)) + length (tlvs 0x86 (fst rest)) \<le> 2 ^ 63"
    using less.prems(7) by (simp add: all tlvs_def)
  obtain g1 where 2: "put_tlv g 0x86 (sealed M 0x86 s p) ?w1 = (Inr g1, ?w1)" "gb_ok g1"
      "gb_bytes g1 = gb_bytes g @ tlv [0x86] (sealed M 0x86 s p)"
    by (rule put_tlv_ok [OF less.prems(5), of ?w1 "sealed M 0x86 s p" "0x86"]) (use less.prems(1) ls fit in auto)
  have step: "seg86_loop M upp off g w = (if off + n < length upp then seg86_loop M upp (off + n) g1 else ret g1) ?w1"
    unfolding seg86_step [OF less.prems(6)] Let_def n_def [symmetric] p_def [symmetric]
    using 1 2(1) by (simp add: bnd_def recode_def)
  show ?case
  proof (cases "off + n < length upp")
    case True
    have "length upp - (off + n) < length upp - off" using n less.prems(6) by linarith
    from less.hyps [OF this, of ?w1 ?s1 g1] True 2 fit less.prems(1,3,4)
    obtain g' where "seg86_loop M upp (off + n) g1 ?w1 = (Inr g', w\<lparr>loc := Some (snd rest)\<rparr>)"
      by (auto simp: after_seal_wf rest_def)
    with True step all show ?thesis by simp
  next
    case False
    then have "rest = ([], ?s1)" by (simp add: rest_def chunks.simps)
    with False step all show ?thesis by (simp add: ret_def)
  qed
qed

lemma put_wrapped_ok:
  assumes "gb_ok g" "faults w = []" "length prot \<le> 2000" "length (gb_bytes g) \<le> 2 ^ 62"
  obtains g' where "put_wrapped g wr el prot w = (Inr g', w)" "gb_ok g'"
    "gb_bytes g' = gb_bytes g @ tlv [wr] (tlv [el] prot)"
proof -
  have l: "length (tlv [el] prot) \<le> 2006" using length_tlv_le [of prot "[el]"] assms(3) by simp
  obtain c where c: "put_tlv empty_growbuf el prot w = (Inr c, w)" "gb_ok c" "gb_bytes c = tlv [el] prot"
    by (rule put_tlv_ok [of empty_growbuf w prot el]) (use assms l in auto)
  have l2: "length (tlv [wr] (tlv [el] prot)) \<le> 2012" using length_tlv_le [of "tlv [el] prot" "[wr]"] l by simp
  obtain g' where g': "put_tlv g wr (gb_bytes c) w = (Inr g', w)" "gb_ok g'"
      "gb_bytes g' = gb_bytes g @ tlv [wr] (gb_bytes c)"
    by (rule put_tlv_ok [OF assms(1,2), of "gb_bytes c" wr]) (use assms(4) c l l2 in auto)
  show thesis
    by (rule that [of g']) (use c g' in \<open>simp_all add: put_wrapped_def bnd_def recode_def\<close>)
qed

lemma bpp_content_ok:
  assumes f: "faults w = []" and s: "loc w = Some s" "session_wf s" and M: "cipher_laws M"
    and inp: "input_ok inp" "bi_dppb inp = Some c"
    and isc: "isc_of M (cr_sk c) (the (bi_transaction_id inp)) (the (bi_otpk_dp inp)) (the (bi_euicc_otpk inp)) = Some isc"
    and enc: "a_enc_isc A isc = Some ibs" "a_enc_configure A build_configure = Some cbs" "length (concat cbs) \<le> 1007"
    and parts: "bpp_parts M s (concat ibs) (concat cbs) (cdata (bi_metadata inp)) (cdata (bi_upp inp)) = (content, s3)"
    and fits: "length content \<le> 0xFFFFFFFF"
  obtains ct where "bpp_content M A inp w = (Inr ct, w\<lparr>loc := Some s3\<rparr>)" "gb_ok ct" "gb_bytes ct = content"
proof -
  obtain upp md tid k1 k2 where i: "bi_upp inp = Buf upp" "bi_metadata inp = Buf md" "bi_transaction_id inp = Some tid"
      "bi_otpk_dp inp = Some k1" "bi_euicc_otpk inp = Some k2"
    and il: "upp \<noteq> []" "md \<noteq> []" "length md \<le> 1007" "length tid = 16" "length k1 = 65" "length k2 = 65"
    using inp(1) by (elim input_okE) simp
  let ?isc = "concat ibs" and ?cfg = "concat cbs"
  let ?s1 = "after_seal M 0x87 s ?cfg"
  let ?s2 = "after_mac M 0x88 ?s1 md"
  let ?c87 = "tlv [0xA0] (tlv [0x87] (sealed M 0x87 s ?cfg))"
  let ?c88 = "tlv [0xA1] (tlv [0x88] (macced M 0x88 ?s1 md))"
  let ?segs = "tlvs 0x86 (fst (seal_all M 0x86 ?s2 (chunks 1007 upp)))"
  have ct: "content = ?isc @ ?c87 @ ?c88 @ tlv [0xA3] ?segs"
    and s3: "s3 = snd (seal_all M 0x86 ?s2 (chunks 1007 upp))"
    using parts by (auto simp: bpp_parts_def Let_def i split: prod.splits)
  have lens: "length ?isc + length ?c87 + length ?c88 + length (tlv [0xA3] ?segs) \<le> 0xFFFFFFFF"
    using fits by (simp add: ct)
  then have lsegs: "length ?segs \<le> 0xFFFFFFFF" using length_tlv_ge [of ?segs "[0xA3]"] by simp
  have wf1: "session_wf ?s1" by (rule after_seal_wf [OF M s(2)])
  have wf2: "session_wf ?s2" by (rule after_mac_wf [OF M wf1])
  have 1: "build_isc M inp w = (Inr isc, w)"
    using isc build_isc_ok [OF f i(3,4,5) inp(2) il(4-6)] i by simp
  have 2: "der_encode_alloc (a_enc_isc A isc) w = (Inr ?isc, w)"
    using der_encode_ok [OF f, of ibs] enc(1) lens by simp
  obtain g1 where 3: "rsp_growbuf_append empty_growbuf ?isc w = (Inr g1, w)"
    using growbuf_append_total [OF gb_ok_empty(1) f, of ?isc] lens by auto
  note g1 = growbuf_append_run [OF gb_ok_empty(1) 3]
  have 4: "der_encode_alloc (a_enc_configure A build_configure) w = (Inr ?cfg, w)"
    using der_encode_ok [OF f, of cbs] enc(2,3) by simp
  have "length ?cfg + (16 - length ?cfg mod 16) + 8 \<le> 1031" using enc(3) by simp
  then have 5: "rsp_protect M (Buf ?cfg) 0x87 (Some RSP_BPP_SEGMENT_BUF) w = (Inr (sealed M 0x87 s ?cfg), w\<lparr>loc := Some ?s1\<rparr>)"
    using protect_ok [OF f s M, of ?cfg 1031 "0x87"] enc(3)
    by (simp add: RSP_BPP_SEGMENT_BUF_def RSP_BPP_MAX_SEGMENT_PLAINTEXT_def)
  obtain g2 where 6: "put_wrapped g1 0xA0 0x87 (sealed M 0x87 s ?cfg) (w\<lparr>loc := Some ?s1\<rparr>) = (Inr g2, w\<lparr>loc := Some ?s1\<rparr>)"
      "gb_ok g2" "gb_bytes g2 = ?isc @ ?c87"
    by (rule put_wrapped_ok [of g1 "w\<lparr>loc := Some ?s1\<rparr>" "sealed M 0x87 s ?cfg" "0xA0" "0x87"])
      (use g1 f enc(3) lens in \<open>auto simp: length_sealed [OF M]\<close>)
  have 7: "rsp_protect_mac_only M (Buf md) 0x88 (Some RSP_BPP_SEGMENT_BUF) (w\<lparr>loc := Some ?s1\<rparr>) =
      (Inr (macced M 0x88 ?s1 md), w\<lparr>loc := Some ?s2\<rparr>)"
    using protect_mac_only_ok [of "w\<lparr>loc := Some ?s1\<rparr>" ?s1 md RSP_BPP_SEGMENT_BUF M "0x88"] f wf1 il(3)
    by (simp add: RSP_BPP_SEGMENT_BUF_def RSP_BPP_MAX_SEGMENT_PLAINTEXT_def)
  obtain g3 where 8: "put_wrapped g2 0xA1 0x88 (macced M 0x88 ?s1 md) (w\<lparr>loc := Some ?s2\<rparr>) = (Inr g3, w\<lparr>loc := Some ?s2\<rparr>)"
      "gb_ok g3" "gb_bytes g3 = ?isc @ ?c87 @ ?c88"
    by (rule put_wrapped_ok [of g2 "w\<lparr>loc := Some ?s2\<rparr>" "macced M 0x88 ?s1 md" "0xA1" "0x88"])
      (use 6(2,3) f il(3) lens in \<open>auto simp: length_macced [OF M]\<close>)
  obtain g4 where 9: "seg86_loop M upp 0 empty_growbuf (w\<lparr>loc := Some ?s2\<rparr>) = (Inr g4, w\<lparr>loc := Some s3\<rparr>)"
    using seg86_ok [of "w\<lparr>loc := Some ?s2\<rparr>" ?s2 M empty_growbuf 0 upp] f wf2 M il(1) lsegs s3 by auto
  have "loc (w\<lparr>loc := Some ?s2\<rparr>) = Some ?s2" "0 < length upp" using il(1) by simp_all
  note g4 = seg86_run [OF 9 this(1) wf2 M gb_ok_empty(1) this(2), simplified]
  obtain ct where 10: "put_tlv g3 0xA3 (gb_bytes g4) (w\<lparr>loc := Some s3\<rparr>) = (Inr ct, w\<lparr>loc := Some s3\<rparr>)" "gb_ok ct"
      "gb_bytes ct = gb_bytes g3 @ tlv [0xA3] (gb_bytes g4)"
    by (rule put_tlv_ok [OF 8(2), of "w\<lparr>loc := Some s3\<rparr>" "gb_bytes g4" "0xA3"]) (use f 8(3) g4 lsegs lens in auto)
  have run: "bpp_content M A inp w = (Inr ct, w\<lparr>loc := Some s3\<rparr>)"
    unfolding bpp_content_def Let_def
    using 1 2 3 4 5 6(1) 7 8(1) 9 10(1) enc(3) i il(2,3)
    by (simp add: bnd_def ensure_def ret_def recode_def RSP_BPP_MAX_SEGMENT_PLAINTEXT_def)
  show thesis by (rule that [OF run 10(2)]) (use 10(3) 8(3) g4 ct in simp)
qed

lemma bpp_envelope_ok:
  assumes "faults w = []" "gb_ok ct" "length (gb_bytes ct) \<le> 0xFFFFFFFF"
  shows "bpp_envelope ct w = (Inr (tlv TAG_BPP (gb_bytes ct)), w)"
proof -
  have len: "gb_len ct = length (gb_bytes ct)" using length_gb_bytes [OF assms(2)] by simp
  obtain lo where lo: "rsp_der_length_octets (length (gb_bytes ct)) = Some lo"
    using assms(3) by (rule der_octets_exist)
  have "length lo \<le> 5" using der_length_size [OF lo] by (simp add: der_len_size_def)
  obtain g1 where 1: "rsp_growbuf_append empty_growbuf TAG_BPP w = (Inr g1, w)"
    using growbuf_append_total [OF gb_ok_empty(1) assms(1), of TAG_BPP] by (auto simp: TAG_BPP_def)
  note g1 = growbuf_append_run [OF gb_ok_empty(1) 1]
  obtain g2 where 2: "rsp_growbuf_append g1 lo w = (Inr g2, w)"
    using growbuf_append_total [of g1 w lo] assms(1) g1 \<open>length lo \<le> 5\<close> by (auto simp: TAG_BPP_def)
  note g2 = growbuf_append_run [OF conjunct1 [OF g1] 2]
  obtain g3 where 3: "rsp_growbuf_append g2 (gb_bytes ct) w = (Inr g3, w)"
    using growbuf_append_total [of g2 w "gb_bytes ct"] assms(1,3) g1 g2 \<open>length lo \<le> 5\<close> by (auto simp: TAG_BPP_def)
  note g3 = growbuf_append_run [OF conjunct1 [OF g2] 3]
  show ?thesis
    using 1 2 3 lo g1 g2 g3
    by (simp add: bpp_envelope_def len bnd_def lift_opt_def ret_def recode_def tlv_def)
qed

lemma bpp_build_ok:
  assumes f: "faults w = []" and s: "loc w = Some s" "session_wf s" and M: "cipher_laws M"
    and inp: "input_ok inp" and spec: "bpp_of M A s inp = Some (out, s')"
  shows "rsp_bpp_build M A (Some inp) True w = (Inr out, w\<lparr>loc := Some s'\<rparr>)"
proof -
  obtain c where c: "bi_dppb inp = Some c" using inp by (elim input_okE) simp
  from spec c obtain isc ibs cbs content where
    i: "isc_of M (cr_sk c) (the (bi_transaction_id inp)) (the (bi_otpk_dp inp)) (the (bi_euicc_otpk inp)) = Some isc"
    and e: "a_enc_isc A isc = Some ibs" "a_enc_configure A build_configure = Some cbs"
    and p: "bpp_parts M s (concat ibs) (concat cbs) (cdata (bi_metadata inp)) (cdata (bi_upp inp)) = (content, s')"
    and out: "out = tlv TAG_BPP content" and cfg: "length (concat cbs) \<le> 1007" and l: "length content \<le> 0xFFFFFFFF"
    by (fastforce simp: bpp_of_def bind_eq_Some_conv TAG_BPP_def Let_def split: if_splits intro: prod_eqI)
  obtain ct where ct: "bpp_content M A inp w = (Inr ct, w\<lparr>loc := Some s'\<rparr>)" "gb_ok ct" "gb_bytes ct = content"
    by (rule bpp_content_ok [OF f s M inp c i e(1,2) cfg p l])
  have "bpp_envelope ct (w\<lparr>loc := Some s'\<rparr>) = (Inr out, w\<lparr>loc := Some s'\<rparr>)"
    using bpp_envelope_ok [of "w\<lparr>loc := Some s'\<rparr>" ct] f ct(2,3) l out by simp
  with ct(1) inp s(1) show ?thesis
    by (elim input_okE) (simp add: rsp_bpp_build_def Let_def bnd_def get_loc_def ensure_def ret_def)
qed

section \<open>Segments\<close>

lemma concat_chunks: "n \<noteq> 0 \<Longrightarrow> concat (chunks n xs) = xs"
  by (induction n xs rule: chunks.induct) (subst chunks.simps, auto)

lemma chunks_length: "x \<in> set (chunks n xs) \<Longrightarrow> length x \<le> n"
proof (induction n xs rule: chunks.induct)
  case (1 n xs)
  then show ?case by (cases "n = 0 \<or> xs = []") (auto simp: chunks.simps [of n xs])
qed

lemma chunks_Nil: "n \<noteq> 0 \<Longrightarrow> chunks n xs = [] \<longleftrightarrow> xs = []"
  by (subst chunks.simps) auto

lemma chunks_count:
  assumes "n \<noteq> 0"
  shows "length (chunks n xs) = (length xs + n - 1) div n"
  using assms
proof (induction n xs rule: chunks.induct)
  case (1 n xs)
  show ?case
  proof (cases "xs = []")
    case True
    with 1(2) show ?thesis by (simp add: chunks.simps)
  next
    case False
    then obtain m where m: "length xs = Suc m" by (cases xs) auto
    have "(length (drop n xs) + n - 1) div n = m div n"
    proof (cases "m < n")
      case True
      then have "length (drop n xs) = 0" by (simp add: m)
      then show ?thesis using True by simp
    next
      case False
      then have "length (drop n xs) + n - 1 = m" unfolding length_drop m by linarith
      then show ?thesis by simp
    qed
    moreover have "(length xs + n - 1) div n = Suc (m div n)"
      using div_add_self2 [OF 1(2), of m] by (simp add: m)
    ultimately show ?thesis
      using 1(1) 1(2) False by (subst chunks.simps) (simp del: length_drop)
  qed
qed

lemma seal_all_lengths:
  "cipher_laws M \<Longrightarrow> map length (fst (seal_all M t s ps)) = map (\<lambda>p. length p + (16 - length p mod 16) + 8) ps"
  by (induction ps arbitrary: s) (simp_all add: length_sealed case_prod_beta)

lemma tlv_header_small:
  "0x80 \<le> length v \<Longrightarrow> length v \<le> 0xFFFF \<Longrightarrow> tlv_header tag v \<le> length tag + 3"
  "length v < 0x80 \<Longrightarrow> tlv_header tag v = length tag + 1"
  by (simp_all add: tlv_header_def rsp_der_length_octets_def)

text \<open>The limit of SGP.22 2.5.3: no '86' TLV is longer than 1020 octets.\<close>

lemma segment_limit:
  assumes "cipher_laws M" "seg \<in> set (fst (seal_all M t s (chunks 1007 upp)))"
  shows "length (tlv [t] seg) \<le> 1020"
proof -
  from assms(2) have "length seg \<in> set (map length (fst (seal_all M t s (chunks 1007 upp))))" by simp
  then obtain p where p: "p \<in> set (chunks 1007 upp)" "length seg = length p + (16 - length p mod 16) + 8"
    by (auto simp: seal_all_lengths [OF assms(1)])
  have "length p + (16 - length p mod 16) \<le> 1008"
  proof -
    define q r where "q = length p div 16" and "r = length p mod 16"
    have "length p = q * 16 + r" "r < 16" by (simp_all add: q_def r_def)
    moreover from this chunks_length [OF p(1)] have "q \<le> 62" by simp
    then have "16 * q + 16 \<le> 1008" by simp
    ultimately show ?thesis unfolding r_def [symmetric] by simp
  qed
  then have "length seg \<le> 1016" using p(2) by simp
  then show ?thesis
    using tlv_header_small [of seg "[t]"] by (cases "length seg < 0x80") (auto simp: length_tlv)
qed

end
