(* ===== verification/Session.thy ===== *)
theory Session
  imports Kdf Bpp
begin

text \<open>
  The RSP session of \<open>src/rsp_es9.c\<close>: \<open>struct rsp_dp_session\<close>, \<open>ascii_ieq\<close>,
  \<open>rsp_dp_initiate_authentication\<close>, \<open>rsp_dp_session_free\<close>, \<open>rsp_dp_session_eid\<close>,
  \<open>rsp_dp_session_euicc_cert\<close> and \<open>extract_eid\<close>. A pointer member is NULL, a block the session
  owns, or \<open>Wild\<close>: the indeterminate value of memory that nothing has written. Freeing or
  reading through a \<open>Wild\<close> pointer is undefined behaviour. What \<open>malloc\<close> leaves in a fresh
  session is a parameter, \<open>junk\<close>.
\<close>

datatype ptr = PNull | Owned bytes | Wild

record rsp_dp_session =
  ss_transaction_id :: bytes
  ss_euicc_challenge :: bytes
  ss_server_challenge :: bytes
  ss_authenticated :: bool
  ss_euicc_cert :: ptr
  ss_euicc_cert_len :: nat
  ss_eid :: bytes
  ss_eid_len :: nat
  ss_metadata :: ptr
  ss_metadata_len :: nat
  ss_smdp_signature2 :: bytes
  ss_have_bpp_session :: bool
  ss_bpp_session :: rsp_session

definition free_ptr :: "ptr \<Rightarrow> ('x, unit) cm" where
  "free_ptr p = ensure (p \<noteq> Wild) Undefined"

text \<open>A pointer member passed on with its length member.\<close>

definition read_ptr :: "ptr \<Rightarrow> nat \<Rightarrow> ('x, cbuf) cm" where
  "read_ptr p n = (case p of
       PNull \<Rightarrow> ret (Null n)
     | Owned b \<Rightarrow> if n \<le> length b then ret (Buf (take n b)) else stop_with Undefined
     | Wild \<Rightarrow> stop_with Undefined)"

definition fold_ascii :: "u8 \<Rightarrow> u8" where
  "fold_ascii c = (if 0x41 \<le> c \<and> c \<le> 0x5A then c - 0x41 + 0x61 else c)"

text \<open>A C string is the list of its characters up to the terminating NUL.\<close>

fun ascii_ieq :: "bytes \<Rightarrow> bytes \<Rightarrow> bool" where
  "ascii_ieq [] [] = True"
| "ascii_ieq (a # as) (b # bs) = (if fold_ascii a \<noteq> fold_ascii b then False else ascii_ieq as bs)"
| "ascii_ieq [] (b # bs) = False"
| "ascii_ieq (a # as) [] = False"

text \<open>What the caller's output pointers refer to: the session and the response.\<close>

record initiate_out =
  io_session :: "rsp_dp_session option"
  io_resp :: cbuf

text \<open>The response, up to the point where everything has been encoded.\<close>

definition initiate_response ::
  "('c, 'g, 'p, 'k) mbedtls \<Rightarrow> 'a asn1c \<Rightarrow> sgp26 \<Rightarrow> bytes \<Rightarrow> bytes \<Rightarrow> bytes \<Rightarrow> bytes \<Rightarrow> ('x, bytes) cm" where
  "initiate_response M A S euicc_challenge transaction_id server_challenge server_address =
     bnd (octet_string Minus2 transaction_id) (\<lambda>tid.
     bnd (octet_string Minus2 euicc_challenge) (\<lambda>chal.
     bnd (octet_string Minus2 server_address) (\<lambda>addr.
     bnd (octet_string Minus2 server_challenge) (\<lambda>schal.
     let ss1 = \<lparr>ss1_transactionId = tid, ss1_euiccChallenge = chal, ss1_serverAddress = addr,
                ss1_serverChallenge = schal\<rparr> in
     bnd (recode Minus2 (der_encode_alloc (a_enc_server_signed1 A ss1))) (\<lambda>ss1_der.
     bnd (recode Minus2 (nested (Some zero_credential) (rsp_pki_dp M S 0))) (\<lambda>(_, dpauth).
     bnd (recode Minus2 (rsp_sign M dpauth (Buf ss1_der) True)) (\<lambda>sig.
     bnd (recode Minus2 (rsp_pki_test_ci S True True)) (\<lambda>ci_der.
     bnd (ext Minus2 (m_crt_parse M (rsp_accept_certificate_policies M) ci_der)) (\<lambda>ci_crt.
     bnd (ensure (length (m_crt_ski M ci_crt) \<noteq> 0) Minus2) (\<lambda>_.
     bnd (octet_string Minus2 transaction_id) (\<lambda>tid.
     bnd (octet_string Minus2 sig) (\<lambda>sig.
     bnd (octet_string Minus2 (m_crt_ski M ci_crt)) (\<lambda>ski.
     bnd (ext Minus2 (a_dec_certificate A (cdata (cr_der (the dpauth))))) (\<lambda>cert.
     recode Minus2 (der_encode_alloc (a_enc_init_auth_ok A
       \<lparr>ia_transactionId = tid, ia_serverSigned1 = ss1, ia_serverSignature1 = sig,
        ia_euiccCiPKIdToBeUsed = ski, ia_serverCertificate = cert\<rparr>))))))))))))))))"

text \<open>The response is handed over and the session allocated; without memory for it the response is
  taken back.\<close>

definition initiate_commit :: "rsp_dp_session \<Rightarrow> bytes \<Rightarrow> bytes \<Rightarrow> bytes \<Rightarrow> bytes \<Rightarrow> (initiate_out, unit) cm" where
  "initiate_commit junk euicc_challenge transaction_id server_challenge resp =
     bnd get_loc (\<lambda>out.
     bnd (set_loc (out\<lparr>io_resp := Buf resp\<rparr>)) (\<lambda>_.
     bnd (on_stop (malloc Minus2 0) (\<lambda>out. out\<lparr>io_resp := Null 0\<rparr>)) (\<lambda>_.
     set_loc (out\<lparr>io_resp := Buf resp,
       io_session := Some (junk\<lparr>ss_transaction_id := transaction_id,
         ss_euicc_challenge := euicc_challenge,
         ss_server_challenge := server_challenge\<rparr>)\<rparr>))))"

definition rsp_dp_initiate_authentication ::
  "('c, 'g, 'p, 'k) mbedtls \<Rightarrow> 'a asn1c \<Rightarrow> sgp26 \<Rightarrow> rsp_dp_session \<Rightarrow> cbuf \<Rightarrow> cbuf \<Rightarrow> bytes option \<Rightarrow>
   bytes option \<Rightarrow> bytes option \<Rightarrow> bytes option \<Rightarrow> bool \<Rightarrow> (initiate_out, unit) cm" where
  "rsp_dp_initiate_authentication M A S junk euicc_challenge euicc_info1 transaction_id
     server_challenge server_address requested_address out_ok =
     bnd (ensure (\<not> (is_null euicc_challenge \<or> clen euicc_challenge \<noteq> 16 \<or> is_null euicc_info1 \<or>
            clen euicc_info1 = 0 \<or> transaction_id = None \<or> server_challenge = None \<or>
            server_address = None \<or> \<not> out_ok)) Minus2) (\<lambda>_.
     bnd (ensure (\<not> (requested_address \<noteq> None \<and>
            \<not> ascii_ieq (the server_address) (the requested_address))) Minus1) (\<lambda>_.
     bnd (ext Minus2 (if a_dec_euicc_info1 A (cdata euicc_info1) then Some () else None)) (\<lambda>_.
     bnd (initiate_response M A S (cdata euicc_challenge) (the transaction_id)
            (the server_challenge) (the server_address)) (\<lambda>resp.
     initiate_commit junk (cdata euicc_challenge) (the transaction_id) (the server_challenge) resp))))"

definition zero_dp_session :: rsp_dp_session where
  "zero_dp_session = \<lparr>ss_transaction_id = replicate 16 0, ss_euicc_challenge = replicate 16 0,
     ss_server_challenge = replicate 16 0, ss_authenticated = False, ss_euicc_cert = PNull,
     ss_euicc_cert_len = 0, ss_eid = replicate 32 0, ss_eid_len = 0, ss_metadata = PNull,
     ss_metadata_len = 0, ss_smdp_signature2 = replicate 64 0, ss_have_bpp_session = False,
     ss_bpp_session = zero_session\<rparr>"

text \<open>The result is what the session's memory holds when it is handed to \<open>free\<close>.\<close>

definition rsp_dp_session_free :: "rsp_dp_session option \<Rightarrow> ('x, rsp_dp_session option) cm" where
  "rsp_dp_session_free s = (case s of None \<Rightarrow> ret None
     | Some s \<Rightarrow>
         bnd (free_ptr (ss_euicc_cert s)) (\<lambda>_.
         bnd (free_ptr (ss_metadata s)) (\<lambda>_.
         ret (Some zero_dp_session))))"

fun extract_eid :: "('c, 'g, 'p, 'k) mbedtls \<Rightarrow> (bytes \<times> bytes) list \<Rightarrow> nat \<Rightarrow> bytes option" where
  "extract_eid M [] cap = None"
| "extract_eid M ((oid, val) # ns) cap =
     (if oid = m_oid_serial M then
        if length val = 0 \<or> length val > cap then None else Some val
      else extract_eid M ns cap)"

definition rsp_dp_session_eid ::
  "rsp_dp_session option \<Rightarrow> bool \<Rightarrow> nat \<Rightarrow> bool \<Rightarrow> ('x, bytes) cm" where
  "rsp_dp_session_eid s eid_ok eid_cap len_ok =
     bnd (ensure (\<not> (s = None \<or> \<not> eid_ok \<or> \<not> len_ok)) Minus2) (\<lambda>_.
     let s = the s in
     bnd (ensure (\<not> (\<not> ss_authenticated s \<or> ss_eid_len s = 0 \<or> ss_eid_len s > eid_cap)) Minus1) (\<lambda>_.
     rd_block (ss_eid s) 0 (ss_eid_len s)))"

definition rsp_dp_session_euicc_cert ::
  "rsp_dp_session option \<Rightarrow> bool \<Rightarrow> bool \<Rightarrow> ('x, ptr \<times> nat) cm" where
  "rsp_dp_session_euicc_cert s der_ok len_ok =
     bnd (ensure (\<not> (s = None \<or> \<not> der_ok \<or> \<not> len_ok)) Minus2) (\<lambda>_.
     let s = the s in
     bnd (ensure (\<not> (ss_euicc_cert s = PNull \<or> ss_euicc_cert_len s = 0)) Minus1) (\<lambda>_.
     ret (ss_euicc_cert s, ss_euicc_cert_len s)))"

section \<open>The address comparison\<close>

text \<open>It compares modulo ASCII case: two strings are equal when their folded forms are.\<close>

lemma ascii_ieq_map: "ascii_ieq a b \<longleftrightarrow> map fold_ascii a = map fold_ascii b"
  by (induction a b rule: ascii_ieq.induct) auto

lemma fold_ascii_idem [simp]: "fold_ascii (fold_ascii c) = fold_ascii c"
proof -
  have "\<not> (0x41 \<le> c - 0x41 + 0x61 \<and> c - 0x41 + 0x61 \<le> (0x5A::u8))" if "0x41 \<le> c" "c \<le> 0x5A"
    using that unfolding word_le_nat_alt by unat_arith
  then show ?thesis by (auto simp: fold_ascii_def)
qed

section \<open>Initiation\<close>

text \<open>The five members of the response, as values.\<close>

definition server_signed1_of :: "bytes \<Rightarrow> bytes \<Rightarrow> bytes \<Rightarrow> bytes \<Rightarrow> server_signed1" where
  "server_signed1_of tid chal addr schal = \<lparr>ss1_transactionId = tid, ss1_euiccChallenge = chal,
     ss1_serverAddress = addr, ss1_serverChallenge = schal\<rparr>"

definition init_response_of ::
  "('c, 'g, 'p, 'k) mbedtls \<Rightarrow> 'a asn1c \<Rightarrow> sgp26 \<Rightarrow> server_signed1 \<Rightarrow> 'a init_auth_ok option" where
  "init_response_of M A S ss1 =
     Option.bind (dp_credential M S 0) (\<lambda>c.
     Option.bind (a_enc_server_signed1 A ss1) (\<lambda>ss1_bs.
     Option.bind (sign_value M (cr_sk c) (concat ss1_bs)) (\<lambda>sig.
     Option.bind (m_crt_parse M (rsp_accept_certificate_policies M) (ci_der S)) (\<lambda>ci.
     Option.bind (a_dec_certificate A (dpauth_der S)) (\<lambda>cert.
     if m_crt_ski M ci = [] then None
     else Some \<lparr>ia_transactionId = ss1_transactionId ss1, ia_serverSigned1 = ss1, ia_serverSignature1 = sig,
                ia_euiccCiPKIdToBeUsed = m_crt_ski M ci, ia_serverCertificate = cert\<rparr>)))))"

lemma keeps_initiate_response: "keeps (initiate_response M A S chal tid schal addr)"
  unfolding initiate_response_def Let_def octet_string_def by (intro keeps_intros)

lemma initiate_response_run:
  fixes w :: "'x st"
  assumes "initiate_response M A S chal tid schal addr w = (Inr resp, w')"
  obtains ok bs where "init_response_of M A S (server_signed1_of tid chal addr schal) = Some ok"
    "a_enc_init_auth_ok A ok = Some bs" "resp = concat bs"
proof -
  let ?ss1 = "server_signed1_of tid chal addr schal"
  from assms obtain w0 :: "'x st" and ss1_der w1 v sig w3 ci cert and w4 :: "'x st" where
    1: "der_encode_alloc (a_enc_server_signed1 A ?ss1) w0 = (Inr ss1_der, w1)" and
    2: "rsp_pki_dp M S 0 \<lparr>faults = faults w1, loc = Some zero_credential\<rparr> = (Inr (), v)" and
    3: "rsp_sign M (loc v) (Buf ss1_der) True (w1\<lparr>faults := faults v\<rparr>) = (Inr sig, w3)" and
    4: "m_crt_parse M (rsp_accept_certificate_policies M) (ci_der S) = Some ci" "m_crt_ski M ci \<noteq> []" and
    5: "a_dec_certificate A (cdata (cr_der (the (loc v)))) = Some cert" and
    7: "der_encode_alloc (a_enc_init_auth_ok A \<lparr>ia_transactionId = tid, ia_serverSigned1 = ?ss1,
        ia_serverSignature1 = sig, ia_euiccCiPKIdToBeUsed = m_crt_ski M ci, ia_serverCertificate = cert\<rparr>) w4
          = (Inr resp, w')"
    unfolding initiate_response_def Let_def octet_string_def rsp_pki_test_ci_def server_signed1_of_def [symmetric]
    by (auto simp: cm_run split: prod.splits)
  from der_encode_run [OF 1] obtain b1 where b1: "a_enc_server_signed1 A ?ss1 = Some b1" "ss1_der = concat b1" by auto
  obtain d where d: "loc v = Some d" "dp_credential M S 0 = Some d" "cdata (cr_der d) = dpauth_der S"
    using pki_dp_value [OF 2] pki_dp_run [OF 2] by auto
  from sign_run [OF 3 [unfolded d(1)]] have s: "sign_value M (cr_sk d) ss1_der = Some sig" by auto
  from der_encode_run [OF 7] obtain b2 where b2: "a_enc_init_auth_ok A \<lparr>ia_transactionId = tid, ia_serverSigned1 = ?ss1,
        ia_serverSignature1 = sig, ia_euiccCiPKIdToBeUsed = m_crt_ski M ci, ia_serverCertificate = cert\<rparr> = Some b2"
    "resp = concat b2" by auto
  have "init_response_of M A S ?ss1 = Some \<lparr>ia_transactionId = tid, ia_serverSigned1 = ?ss1,
        ia_serverSignature1 = sig, ia_euiccCiPKIdToBeUsed = m_crt_ski M ci, ia_serverCertificate = cert\<rparr>"
    using b1 d s 4 5 by (simp add: init_response_of_def server_signed1_of_def)
  then show ?thesis using b2 that by simp
qed

lemma initiate_run:
  assumes "rsp_dp_initiate_authentication M A S junk chal info1 tid schal addr req ok w = (Inr u, w')"
  obtains t sc ad r bs where "tid = Some t" "schal = Some sc" "addr = Some ad"
    "\<forall>rq. req = Some rq \<longrightarrow> ascii_ieq ad rq" "length (cdata chal) = 16"
    "cdata info1 \<noteq> []" "a_dec_euicc_info1 A (cdata info1)"
    "init_response_of M A S (server_signed1_of t (cdata chal) ad sc) = Some r"
    "a_enc_init_auth_ok A r = Some bs" "io_resp (loc w') = Buf (concat bs)"
    "io_session (loc w') = Some (junk\<lparr>ss_transaction_id := t, ss_euicc_challenge := cdata chal,
       ss_server_challenge := sc\<rparr>)"
proof -
  from assms obtain t sc ad and w1 :: "initiate_out st" and resp w2 where
    a: "tid = Some t" "schal = Some sc" "addr = Some ad" "\<forall>rq. req = Some rq \<longrightarrow> ascii_ieq ad rq"
      "length (cdata chal) = 16" "cdata info1 \<noteq> []" "a_dec_euicc_info1 A (cdata info1)" and
    r: "initiate_response M A S (cdata chal) t sc ad w1 = (Inr resp, w2)" and
    l: "io_resp (loc w') = Buf resp" "io_session (loc w') = Some (junk\<lparr>ss_transaction_id := t,
       ss_euicc_challenge := cdata chal, ss_server_challenge := sc\<rparr>)"
    unfolding rsp_dp_initiate_authentication_def initiate_commit_def
    by (cases chal; cases info1; cases req) (auto simp: cm_run split: if_splits)
  from r obtain ok bs where "init_response_of M A S (server_signed1_of t (cdata chal) ad sc) = Some ok"
      "a_enc_init_auth_ok A ok = Some bs" "resp = concat bs" by (rule initiate_response_run)
  then show ?thesis using that a l by simp
qed

text \<open>Without operational failure it does succeed, with exactly that response.\<close>

lemma initiate_response_ok:
  assumes "faults w = []" "enc_laws A" "init_response_of M A S (server_signed1_of tid chal addr schal) = Some r"
    "a_enc_init_auth_ok A r = Some bs"
  shows "initiate_response M A S chal tid schal addr w = (Inr (concat bs), w)"
proof -
  define ss1 where "ss1 = server_signed1_of tid chal addr schal"
  from assms(3) obtain c b1 sig ci cert where
    r: "dp_credential M S 0 = Some c" "a_enc_server_signed1 A ss1 = Some b1"
      "sign_value M (cr_sk c) (concat b1) = Some sig"
      "m_crt_parse M (rsp_accept_certificate_policies M) (ci_der S) = Some ci" "m_crt_ski M ci \<noteq> []"
      "a_dec_certificate A (dpauth_der S) = Some cert"
      "r = \<lparr>ia_transactionId = tid, ia_serverSigned1 = ss1, ia_serverSignature1 = sig,
            ia_euiccCiPKIdToBeUsed = m_crt_ski M ci, ia_serverCertificate = cert\<rparr>"
    by (auto simp: init_response_of_def bind_eq_Some_conv ss1_def server_signed1_of_def split: if_splits)
  have d: "cdata (cr_der c) = dpauth_der S"
    using r(1) by (auto simp: dp_credential_def bind_eq_Some_conv split: if_splits)
  have p: "rsp_pki_dp M S 0 \<lparr>faults = [], loc = Some zero_credential\<rparr> = (Inr (), \<lparr>faults = [], loc = Some c\<rparr>)"
    using pki_dp_ok [of "\<lparr>faults = [], loc = Some zero_credential\<rparr>" 0 M S c] r(1) by simp
  have e: "bounded_enc (a_enc_server_signed1 A)" "bounded_enc (a_enc_init_auth_ok A)"
    using assms(2) by (simp_all add: enc_laws_def)
  show ?thesis
    unfolding initiate_response_def Let_def octet_string_def rsp_pki_test_ci_def server_signed1_of_def [symmetric]
    using assms(1,4) p r d
    by (simp add: bnd_def recode_def nested_def ensure_def ret_def sign_ok ss1_def [symmetric]
          der_encode_some [OF e(1) r(2)] der_encode_some [OF e(2) assms(4) [unfolded r(7)]])
qed

lemma initiate_ok:
  assumes "faults w = []" "enc_laws A" "length chal = 16" "info1 \<noteq> []" "a_dec_euicc_info1 A info1"
    and "\<forall>rq. req = Some rq \<longrightarrow> ascii_ieq ad rq"
    and "init_response_of M A S (server_signed1_of t chal ad sc) = Some r" "a_enc_init_auth_ok A r = Some bs"
  shows "rsp_dp_initiate_authentication M A S junk (Buf chal) (Buf info1) (Some t) (Some sc) (Some ad) req True w =
    (Inr (), w\<lparr>loc := \<lparr>io_session = Some (junk\<lparr>ss_transaction_id := t, ss_euicc_challenge := chal,
       ss_server_challenge := sc\<rparr>), io_resp = Buf (concat bs)\<rparr>\<rparr>)"
  using assms(1,3-6) initiate_response_ok [OF assms(1,2,7,8)]
  by (auto simp: rsp_dp_initiate_authentication_def initiate_commit_def bnd_def ensure_def ret_def get_loc_def set_loc_def on_stop_def)

lemma initiate_fail:
  assumes "rsp_dp_initiate_authentication M A S junk chal info1 tid schal addr req ok w = (Inl e, w')"
  shows "io_session (loc w') = io_session (loc w)"
    and "io_resp (loc w') = io_resp (loc w) \<or> io_resp (loc w') = Null 0"
  using assms unfolding rsp_dp_initiate_authentication_def initiate_commit_def
  by (auto simp: cm_run dest: keepsD [OF keeps_initiate_response])

text \<open>A mismatch of the addresses is refused before anything is decoded, allocated or signed.\<close>

lemma initiate_mismatch:
  assumes "length chal = 16" "info1 \<noteq> []" "\<not> ascii_ieq ad rq"
  shows "rsp_dp_initiate_authentication M A S junk (Buf chal) (Buf info1) (Some t) (Some sc) (Some ad) (Some rq) True w
    = (Inl Minus1, w)"
  using assms by (simp add: rsp_dp_initiate_authentication_def initiate_commit_def bnd_def ensure_def ret_def stop_with_def)

lemma initiate_no:
  assumes "rsp_dp_initiate_authentication M A S junk chal info1 tid schal addr req ok w = (Inl Minus1, w')"
  shows "\<exists>ad rq. addr = Some ad \<and> req = Some rq \<and> \<not> ascii_ieq ad rq \<and> w' = w"
proof -
  have "\<not> (recode Minus2 m v = (Inl Minus1, v'))" for m :: "(initiate_out, 'z) cm" and v v'
    by (auto simp: cm_run)
  moreover have "\<not> (initiate_response M A S c t s a v = (Inl Minus1, v'))" for c t s a and v :: "initiate_out st" and v'
    unfolding initiate_response_def Let_def octet_string_def by (auto simp: cm_run split: prod.splits)
  ultimately show ?thesis
    using assms unfolding rsp_dp_initiate_authentication_def initiate_commit_def
    by (cases addr; cases req) (auto simp: cm_run)
qed

section \<open>The session's memory\<close>

text \<open>No member of a well-formed session is indeterminate, and the members agree: an
  authenticated session has its certificate, an EID that fits and the metadata.\<close>

definition session_ok :: "rsp_dp_session \<Rightarrow> bool" where
  "session_ok s \<longleftrightarrow>
     (case ss_euicc_cert s of Wild \<Rightarrow> False | PNull \<Rightarrow> \<not> ss_authenticated s
      | Owned b \<Rightarrow> ss_euicc_cert_len s = length b \<and> b \<noteq> []) \<and>
     (case ss_metadata s of Wild \<Rightarrow> False | PNull \<Rightarrow> \<not> ss_authenticated s
      | Owned b \<Rightarrow> ss_metadata_len s = length b \<and> b \<noteq> []) \<and>
     length (ss_eid s) = 32 \<and> ss_eid_len s \<le> 32 \<and> (ss_authenticated s \<longrightarrow> ss_eid_len s \<noteq> 0) \<and>
     length (ss_smdp_signature2 s) = 64 \<and> length (ss_transaction_id s) = 16 \<and>
     length (ss_server_challenge s) = 16"

lemma session_ok_owned:
  assumes "session_ok s" "ss_authenticated s"
  obtains cert md where "ss_euicc_cert s = Owned cert" "ss_euicc_cert_len s = length cert" "cert \<noteq> []"
    "ss_metadata s = Owned md" "ss_metadata_len s = length md" "md \<noteq> []"
    "length (ss_eid s) = 32" "ss_eid_len s \<le> 32" "length (ss_smdp_signature2 s) = 64" "length (ss_transaction_id s) = 16"
  using assms by (auto simp: session_ok_def split: ptr.splits)

lemma keeps_read_ptr [keeps_intros]: "keeps (read_ptr p n)"
  unfolding read_ptr_def by (simp split: ptr.split add: keeps_intros)

lemma session_free_ok:
  "session_ok s \<Longrightarrow> rsp_dp_session_free (Some s) w = (Inr (Some zero_dp_session), w)"
  by (auto simp: session_ok_def rsp_dp_session_free_def free_ptr_def bnd_def ensure_def ret_def split: ptr.splits)

lemma session_free_wild:
  "ss_euicc_cert s = Wild \<or> ss_metadata s = Wild \<Longrightarrow> rsp_dp_session_free (Some s) w = (Inl Undefined, w)"
  by (auto simp: rsp_dp_session_free_def free_ptr_def bnd_def ensure_def ret_def stop_with_def)

lemma session_eid_run:
  assumes "session_ok s"
  shows "rsp_dp_session_eid (Some s) True cap True w =
    (if ss_authenticated s \<and> ss_eid_len s \<noteq> 0 \<and> ss_eid_len s \<le> cap then (Inr (take (ss_eid_len s) (ss_eid s)), w)
     else (Inl Minus1, w))"
  using assms
  by (auto simp: session_ok_def rsp_dp_session_eid_def Let_def bnd_def ensure_def ret_def stop_with_def rd_block_def)

lemma extract_eid_Some:
  "extract_eid M ns cap = Some v \<Longrightarrow> v \<noteq> [] \<and> length v \<le> cap \<and> (m_oid_serial M, v) \<in> set ns"
  by (induction M ns cap rule: extract_eid.induct) (auto split: if_splits)

end
