(* ===== verification/Auth.thy ===== *)
theory Auth
  imports Session
begin

text \<open>
  \<open>rsp_dp_authenticate_client\<close> of \<open>src/rsp_es9.c\<close>, in the four stages its body has: reading the
  arguments, the checks of SGP.22 5.6.3, the signed response, and the commit into the session.
  The session and the response pointer are the \<open>loc\<close> part of the state. \<open>auth_checked\<close> is the
  list of checks as a predicate.
\<close>

record auth_out =
  ao_session :: "rsp_dp_session option"
  ao_out :: cbuf

definition auth_decode ::
  "'a asn1c \<Rightarrow> bytes \<Rightarrow> bytes \<Rightarrow> ('x, 'a auth_response_ok) cm" where
  "auth_decode A auth_server_resp metadata =
     bnd (ext Minus2 (a_dec_store_metadata A metadata)) (\<lambda>md_tmp.
     bnd (ensure (\<not> (length (sm_iccid md_tmp) \<noteq> 10 \<or> length (sm_profileName md_tmp) > 64 \<or>
            length (sm_serviceProviderName md_tmp) > 32)) Minus2) (\<lambda>_.
     bnd (ext Minus2 (a_dec_auth_server_response A auth_server_resp)) (\<lambda>resp.
     case resp of
       AuthenticateResponseOk rok \<Rightarrow> ret rok
     | AuthenticateResponseError \<Rightarrow> stop_with Minus2)))"

definition parse_ext_cert :: "('c, 'g, 'p, 'k) mbedtls \<Rightarrow> bytes \<Rightarrow> ('x, 'c) cm" where
  "parse_ext_cert M der =
     ext Minus2 (m_crt_parse M (rsp_accept_certificate_policies_and_name_constraints M) der)"

text \<open>The checks; the result is CERT.EUICC's DER and the EID.\<close>

definition auth_verify ::
  "('c, 'g, 'p, 'k) mbedtls \<Rightarrow> 'a asn1c \<Rightarrow> sgp26 \<Rightarrow> rsp_dp_session \<Rightarrow> 'a auth_response_ok \<Rightarrow>
   ('x, bytes \<times> bytes) cm" where
  "auth_verify M A S s rok =
    (let es1 = ar_euiccSigned1 rok in
     bnd (ensure (\<not> (length (es1_transactionId es1) \<noteq> 16 \<or> es1_transactionId es1 \<noteq> ss_transaction_id s)) Minus1) (\<lambda>_.
     bnd (ensure (\<not> (length (es1_serverChallenge es1) \<noteq> 16 \<or> es1_serverChallenge es1 \<noteq> ss_server_challenge s)) Minus1) (\<lambda>_.
     bnd (recode Minus2 rsp_rng_init) (\<lambda>_.
     bnd (recode Minus2 (der_encode_alloc (a_enc_certificate A (ar_eumCertificate rok)))) (\<lambda>eum_der.
     bnd (recode Minus2 (der_encode_alloc (a_enc_certificate A (ar_euiccCertificate rok)))) (\<lambda>euicc_der.
     bnd (recode Minus2 (rsp_pki_test_ci S True True)) (\<lambda>ci1_der.
     bnd (parse_ext_cert M ci1_der) (\<lambda>ci1.
     bnd (parse_ext_cert M (ci2017_der S)) (\<lambda>ci2.
     bnd (parse_ext_cert M eum_der) (\<lambda>eum.
     bnd (parse_ext_cert M euicc_der) (\<lambda>euicc.
     bnd (ext Minus1 (if m_crt_verify M eum [ci1, ci2] then Some () else None)) (\<lambda>_.
     bnd (ext Minus1 (if m_crt_verify M euicc [eum] then Some () else None)) (\<lambda>_.
     bnd (recode Minus2 (der_encode_alloc (a_enc_euicc_signed1 A es1))) (\<lambda>es1_der.
     bnd (ensure (length (ar_euiccSignature1 rok) = 64) Minus2) (\<lambda>_.
     bnd (rsp_sign_verify M (Buf euicc_der) (Buf es1_der) (Some (ar_euiccSignature1 rok))) (\<lambda>_.
     bnd (lift_opt Minus2 (extract_eid M (m_crt_subject M euicc) 32)) (\<lambda>eid.
     ret (euicc_der, eid))))))))))))))))))"

text \<open>The response; the result is its encoding and smdpSignature2.\<close>

definition auth_respond ::
  "('c, 'g, 'p, 'k) mbedtls \<Rightarrow> 'a asn1c \<Rightarrow> sgp26 \<Rightarrow> rsp_dp_session \<Rightarrow> 'a auth_response_ok \<Rightarrow> bytes \<Rightarrow>
   ('x, bytes \<times> bytes) cm" where
  "auth_respond M A S s rok metadata =
     bnd (octet_string Minus2 (ss_transaction_id s)) (\<lambda>tid.
     bnd (ext Minus2 (a_dec_store_metadata A metadata)) (\<lambda>md.
     bnd (octet_string Minus2 (ss_transaction_id s)) (\<lambda>tid2.
     let sd2 = \<lparr>sd2_transactionId = tid2, sd2_ccRequiredFlag = False, sd2_bppEuiccOtpk = None\<rparr> in
     bnd (recode Minus2 (der_encode_alloc (a_enc_smdp_signed2 A sd2))) (\<lambda>sd2_der.
     bnd (malloc Minus2 (length sd2_der + 3 + 64)) (\<lambda>_.
     let tbs = sd2_der @ [0x5F, 0x37, 64] @ take 64 (ar_euiccSignature1 rok) in
     bnd (recode Minus2 (nested (Some zero_credential) (rsp_pki_dp M S 1))) (\<lambda>(_, dppb).
     bnd (recode Minus2 (rsp_sign M dppb (Buf tbs) True)) (\<lambda>sig.
     bnd (octet_string Minus2 sig) (\<lambda>sig2.
     bnd (ext Minus2 (a_dec_certificate A (cdata (cr_der (the dppb))))) (\<lambda>cert.
     bnd (recode Minus2 (der_encode_alloc (a_enc_auth_client_ok A
       \<lparr>ac_transactionId = tid, ac_profileMetaData = md, ac_smdpSigned2 = sd2,
        ac_smdpSignature2 = sig2, ac_smdpCertificate = cert\<rparr>))) (\<lambda>out.
     ret (out, sig)))))))))))"

text \<open>Both copies are allocated before either is committed.\<close>

definition auth_commit ::
  "rsp_dp_session \<Rightarrow> bytes \<Rightarrow> bytes \<Rightarrow> bytes \<Rightarrow> bytes \<Rightarrow> (auth_out, unit) cm" where
  "auth_commit s euicc_der eid metadata sig =
     bnd (attempt (malloc Minus2 (length euicc_der))) (\<lambda>cert_copy.
     bnd (attempt (malloc Minus2 (length metadata))) (\<lambda>md_copy.
     if cert_copy = None \<or> md_copy = None then
       bnd get_loc (\<lambda>out. bnd (set_loc (out\<lparr>ao_out := Null 0\<rparr>)) (\<lambda>_. stop_with Minus2))
     else
       bnd (free_ptr (ss_euicc_cert s)) (\<lambda>_.
       bnd (free_ptr (ss_metadata s)) (\<lambda>_.
       bnd get_loc (\<lambda>out.
       set_loc (out\<lparr>ao_session := Some (s\<lparr>
         ss_euicc_cert := Owned euicc_der, ss_euicc_cert_len := length euicc_der,
         ss_eid := eid @ drop (length eid) (ss_eid s), ss_eid_len := length eid,
         ss_metadata := Owned metadata, ss_metadata_len := length metadata,
         ss_smdp_signature2 := sig, ss_authenticated := True\<rparr>)\<rparr>))))))"

definition rsp_dp_authenticate_client ::
  "('c, 'g, 'p, 'k) mbedtls \<Rightarrow> 'a asn1c \<Rightarrow> sgp26 \<Rightarrow> cbuf \<Rightarrow> cbuf \<Rightarrow> bool \<Rightarrow> (auth_out, unit) cm" where
  "rsp_dp_authenticate_client M A S auth_server_resp metadata out_ok =
     bnd get_loc (\<lambda>lo.
     let s = ao_session lo in
     bnd (ensure (\<not> (s = None \<or> is_null auth_server_resp \<or> clen auth_server_resp = 0 \<or>
            is_null metadata \<or> clen metadata = 0 \<or> \<not> out_ok)) Minus2) (\<lambda>_.
     bnd (auth_decode A (cdata auth_server_resp) (cdata metadata)) (\<lambda>rok.
     bnd (auth_verify M A S (the s) rok) (\<lambda>(euicc_der, eid).
     bnd (auth_respond M A S (the s) rok (cdata metadata)) (\<lambda>(out, sig).
     bnd (set_loc (lo\<lparr>ao_out := Buf out\<rparr>)) (\<lambda>_.
     auth_commit (the s) euicc_der eid (cdata metadata) sig))))))"

section \<open>What was checked\<close>

definition ext_cert :: "('c, 'g, 'p, 'k) mbedtls \<Rightarrow> bytes \<Rightarrow> 'c option" where
  "ext_cert M der = m_crt_parse M (rsp_accept_certificate_policies_and_name_constraints M) der"

text \<open>The eUICC's certificate chains through the EUM's to one of the two CI certificates.\<close>

definition chain_good :: "('c, 'g, 'p, 'k) mbedtls \<Rightarrow> sgp26 \<Rightarrow> bytes \<Rightarrow> bytes \<Rightarrow> bool" where
  "chain_good M S eum_der euicc_der \<longleftrightarrow>
     (case (ext_cert M (ci_der S), ext_cert M (ci2017_der S), ext_cert M eum_der, ext_cert M euicc_der) of
        (Some ci1, Some ci2, Some eum, Some euicc) \<Rightarrow>
          m_crt_verify M eum [ci1, ci2] \<and> m_crt_verify M euicc [eum]
      | _ \<Rightarrow> False)"

definition auth_checked ::
  "('c, 'g, 'p, 'k) mbedtls \<Rightarrow> 'a asn1c \<Rightarrow> sgp26 \<Rightarrow> rsp_dp_session \<Rightarrow> 'a auth_response_ok \<Rightarrow> bytes \<Rightarrow> bytes \<Rightarrow> bool" where
  "auth_checked M A S s rok euicc_der eid \<longleftrightarrow>
     es1_transactionId (ar_euiccSigned1 rok) = ss_transaction_id s \<and>
     es1_serverChallenge (ar_euiccSigned1 rok) = ss_server_challenge s \<and>
     map_option concat (a_enc_certificate A (ar_euiccCertificate rok)) = Some euicc_der \<and>
     (case (a_enc_certificate A (ar_eumCertificate rok), a_enc_euicc_signed1 A (ar_euiccSigned1 rok), ext_cert M euicc_der) of
        (Some eum_bs, Some es1_bs, Some euicc) \<Rightarrow>
          chain_good M S (concat eum_bs) euicc_der \<and>
          signature_good M euicc_der (concat es1_bs) (ar_euiccSignature1 rok) \<and>
          extract_eid M (m_crt_subject M euicc) 32 = Some eid
      | _ \<Rightarrow> False) \<and> length (ar_euiccSignature1 rok) = 64"

lemma keeps_auth:
  "keeps (auth_decode A r md)" "keeps (auth_verify M A S s rok)" "keeps (auth_respond M A S s rok md)"
proof -
  show "keeps (auth_decode A r md)"
    unfolding auth_decode_def
    by (intro keeps_intros) (simp split: auth_server_response.split add: keeps_basic)
  show "keeps (auth_verify M A S s rok)" "keeps (auth_respond M A S s rok md)"
    unfolding auth_verify_def auth_respond_def parse_ext_cert_def octet_string_def Let_def
    by (intro keeps_intros)+
qed

lemma auth_verify_run:
  fixes w :: "'x st"
  assumes "auth_verify M A S s rok w = (Inr (euicc_der, eid), w')"
  shows "auth_checked M A S s rok euicc_der eid"
proof -
  from assms obtain w0 :: "'x st" and eum_der w1 w2 ci1 ci2 eum euicc and w3 :: "'x st" and es1_der w4 w5 where
    t: "es1_transactionId (ar_euiccSigned1 rok) = ss_transaction_id s"
      "es1_serverChallenge (ar_euiccSigned1 rok) = ss_server_challenge s" "length (ar_euiccSignature1 rok) = 64" and
    1: "der_encode_alloc (a_enc_certificate A (ar_eumCertificate rok)) w0 = (Inr eum_der, w1)" and
    2: "der_encode_alloc (a_enc_certificate A (ar_euiccCertificate rok)) w1 = (Inr euicc_der, w2)" and
    c: "ext_cert M (ci_der S) = Some ci1" "ext_cert M (ci2017_der S) = Some ci2"
      "ext_cert M eum_der = Some eum" "ext_cert M euicc_der = Some euicc"
      "m_crt_verify M eum [ci1, ci2]" "m_crt_verify M euicc [eum]" and
    3: "der_encode_alloc (a_enc_euicc_signed1 A (ar_euiccSigned1 rok)) w3 = (Inr es1_der, w4)" and
    4: "rsp_sign_verify M (Buf euicc_der) (Buf es1_der) (Some (ar_euiccSignature1 rok)) w4 = (Inr (), w5)" and
    e: "extract_eid M (m_crt_subject M euicc) 32 = Some eid"
    unfolding auth_verify_def parse_ext_cert_def ext_cert_def [symmetric] rsp_pki_test_ci_def Let_def
    by (auto simp: cm_run split: if_splits)
  from der_encode_run [OF 1] der_encode_run [OF 2] der_encode_run [OF 3] verify_run [OF 4] t c e
  show ?thesis by (auto simp: auth_checked_def chain_good_def)
qed

definition auth_response_of ::
  "('c, 'g, 'p, 'k) mbedtls \<Rightarrow> 'a asn1c \<Rightarrow> sgp26 \<Rightarrow> bytes \<Rightarrow> bytes \<Rightarrow> bytes \<Rightarrow> 'a auth_client_ok option" where
  "auth_response_of M A S tid euicc_sig1 metadata =
    (let sd2 = \<lparr>sd2_transactionId = tid, sd2_ccRequiredFlag = False, sd2_bppEuiccOtpk = None\<rparr> in
     Option.bind (a_dec_store_metadata A metadata) (\<lambda>md.
     Option.bind (a_enc_smdp_signed2 A sd2) (\<lambda>sd2_bs.
     Option.bind (dp_credential M S 1) (\<lambda>c.
     Option.bind (sign_value M (cr_sk c) (concat sd2_bs @ tlv [0x5F, 0x37] euicc_sig1)) (\<lambda>sig.
     Option.bind (a_dec_certificate A (dppb_der S)) (\<lambda>cert.
     Some \<lparr>ac_transactionId = tid, ac_profileMetaData = md, ac_smdpSigned2 = sd2,
           ac_smdpSignature2 = sig, ac_smdpCertificate = cert\<rparr>))))))"

lemma tlv_sig: "length v = 64 \<Longrightarrow> tlv [0x5F, 0x37] v = [0x5F, 0x37, 64] @ v"
  by (simp add: tlv_def rsp_der_length_octets_def)

lemma auth_respond_run:
  fixes w :: "'x st"
  assumes "auth_respond M A S s rok md w = (Inr (out, sig), w')" "length (ar_euiccSignature1 rok) = 64"
  obtains r bs where "auth_response_of M A S (ss_transaction_id s) (ar_euiccSignature1 rok) md = Some r"
    "a_enc_auth_client_ok A r = Some bs" "out = concat bs" "sig = ac_smdpSignature2 r"
proof -
  define sd2 where "sd2 = \<lparr>sd2_transactionId = ss_transaction_id s, sd2_ccRequiredFlag = False, sd2_bppEuiccOtpk = None\<rparr>"
  from assms(1) obtain w0 :: "'x st" and m sd2_der w1 and w2 :: "'x st" and v and w3 :: "'x st" and w4 and w5 :: "'x st" and cert where
    1: "der_encode_alloc (a_enc_smdp_signed2 A sd2) w0 = (Inr sd2_der, w1)" and
    2: "rsp_pki_dp M S 1 \<lparr>faults = faults w2, loc = Some zero_credential\<rparr> = (Inr (), v)" and
    3: "rsp_sign M (loc v) (Buf (sd2_der @ [0x5F, 0x37, 64] @ take 64 (ar_euiccSignature1 rok))) True w3 = (Inr sig, w4)" and
    4: "a_dec_store_metadata A md = Some m" "a_dec_certificate A (cdata (cr_der (the (loc v)))) = Some cert" and
    5: "der_encode_alloc (a_enc_auth_client_ok A \<lparr>ac_transactionId = ss_transaction_id s, ac_profileMetaData = m,
        ac_smdpSigned2 = sd2, ac_smdpSignature2 = sig, ac_smdpCertificate = cert\<rparr>) w5 = (Inr out, w')"
    unfolding auth_respond_def octet_string_def Let_def
    by (auto simp: cm_run sd2_def)
  from der_encode_run [OF 1] obtain b1 where b1: "a_enc_smdp_signed2 A sd2 = Some b1" "sd2_der = concat b1" by auto
  obtain d where d: "loc v = Some d" "dp_credential M S 1 = Some d" "cdata (cr_der d) = dppb_der S"
    using pki_dp_value [OF 2] pki_dp_run [OF 2] by auto
  from sign_run [OF 3 [unfolded d(1)]] have s: "sign_value M (cr_sk d) (sd2_der @ tlv [0x5F, 0x37] (ar_euiccSignature1 rok)) = Some sig"
    using assms(2) by (simp add: tlv_sig)
  from der_encode_run [OF 5] obtain b2 where b2: "a_enc_auth_client_ok A \<lparr>ac_transactionId = ss_transaction_id s,
      ac_profileMetaData = m, ac_smdpSigned2 = sd2, ac_smdpSignature2 = sig, ac_smdpCertificate = cert\<rparr> = Some b2"
    "out = concat b2" by auto
  show ?thesis
    by (rule that [OF _ b2(1)]) (use b1 b2 d s 4 in \<open>simp_all add: auth_response_of_def Let_def flip: sd2_def\<close>)
qed

lemma auth_commit_run:
  assumes "auth_commit s euicc_der eid md sig w = (Inr u, w')"
  shows "ss_euicc_cert s \<noteq> Wild \<and> ss_metadata s \<noteq> Wild \<and> loc w' = (loc w)\<lparr>ao_session := Some (s\<lparr>
         ss_euicc_cert := Owned euicc_der, ss_euicc_cert_len := length euicc_der,
         ss_eid := eid @ drop (length eid) (ss_eid s), ss_eid_len := length eid,
         ss_metadata := Owned md, ss_metadata_len := length md,
         ss_smdp_signature2 := sig, ss_authenticated := True\<rparr>)\<rparr>"
  using assms unfolding auth_commit_def free_ptr_def
  by (auto simp: cm_run split: option.splits if_splits)

lemma auth_commit_fail:
  assumes "auth_commit s euicc_der eid md sig w = (Inl e, w')"
  shows "ao_session (loc w') = ao_session (loc w) \<and>
    (e = Minus2 \<and> ao_out (loc w') = Null 0 \<or>
     e = Undefined \<and> (ss_euicc_cert s = Wild \<or> ss_metadata s = Wild))"
  using assms unfolding auth_commit_def free_ptr_def
  by (auto simp: cm_run split: option.splits if_splits)

text \<open>What a successful call did, and what a failing one left behind.\<close>

lemma authenticate_run:
  assumes "rsp_dp_authenticate_client M A S resp md ok w = (Inr u, w')"
  obtains s rok euicc_der eid r bs m where "ao_session (loc w) = Some s" "cdata resp \<noteq> []"
    "a_dec_store_metadata A (cdata md) = Some m" "length (sm_iccid m) = 10" "length (sm_profileName m) \<le> 64"
    "length (sm_serviceProviderName m) \<le> 32"
    "a_dec_auth_server_response A (cdata resp) = Some (AuthenticateResponseOk rok)"
    "auth_checked M A S s rok euicc_der eid"
    "auth_response_of M A S (ss_transaction_id s) (ar_euiccSignature1 rok) (cdata md) = Some r"
    "a_enc_auth_client_ok A r = Some bs" "ao_out (loc w') = Buf (concat bs)" "cdata md \<noteq> []"
    "ao_session (loc w') = Some (s\<lparr>ss_euicc_cert := Owned euicc_der, ss_euicc_cert_len := length euicc_der,
         ss_eid := eid @ drop (length eid) (ss_eid s), ss_eid_len := length eid,
         ss_metadata := Owned (cdata md), ss_metadata_len := length (cdata md),
         ss_smdp_signature2 := ac_smdpSignature2 r, ss_authenticated := True\<rparr>)"
proof -
  from assms obtain s rok euicc_der eid out sig and w1 w2 w3 w4 :: "auth_out st" where
    s: "ao_session (loc w) = Some s" "cdata resp \<noteq> []" and md: "cdata md \<noteq> []" and
    1: "auth_decode A (cdata resp) (cdata md) w = (Inr rok, w1)" and
    2: "auth_verify M A S s rok w1 = (Inr (euicc_der, eid), w2)" and
    3: "auth_respond M A S s rok (cdata md) w2 = (Inr (out, sig), w3)" and
    4: "auth_commit s euicc_der eid (cdata md) sig (w3\<lparr>loc := (loc w)\<lparr>ao_out := Buf out\<rparr>\<rparr>) = (Inr (), w')"
    unfolding rsp_dp_authenticate_client_def Let_def
    by (cases md; cases resp) (auto simp: cm_run)
  obtain m where m: "a_dec_store_metadata A (cdata md) = Some m" "length (sm_iccid m) = 10"
      "length (sm_profileName m) \<le> 64" "length (sm_serviceProviderName m) \<le> 32"
    using 1 by (auto simp: auth_decode_def cm_run)
  have d: "a_dec_auth_server_response A (cdata resp) = Some (AuthenticateResponseOk rok)"
  proof -
    from 1 obtain r v where "a_dec_auth_server_response A (cdata resp) = Some r"
      "(case r of AuthenticateResponseOk rok \<Rightarrow> ret rok | AuthenticateResponseError \<Rightarrow> stop_with Minus2) v = (Inr rok, w1)"
      by (auto simp: auth_decode_def cm_run)
    then show ?thesis by (cases r) (auto simp: cm_run)
  qed
  note c = auth_verify_run [OF 2]
  obtain r bs where r: "auth_response_of M A S (ss_transaction_id s) (ar_euiccSignature1 rok) (cdata md) = Some r"
      "a_enc_auth_client_ok A r = Some bs" "out = concat bs" "sig = ac_smdpSignature2 r"
    by (rule auth_respond_run [OF 3]) (use c in \<open>auto simp: auth_checked_def\<close>)
  from auth_commit_run [OF 4] show ?thesis
    using that [OF s m d c r(1,2)] r(3,4) md by simp
qed

lemma authenticate_fail:
  assumes "rsp_dp_authenticate_client M A S resp md ok w = (Inl e, w')"
  shows "ao_session (loc w') = ao_session (loc w)"
    and "ao_out (loc w') = ao_out (loc w) \<or> ao_out (loc w') = Null 0 \<or> e = Undefined"
proof -
  have "ao_session (loc w') = ao_session (loc w) \<and>
      (ao_out (loc w') = ao_out (loc w) \<or> ao_out (loc w') = Null 0 \<or> e = Undefined)"
    using assms unfolding rsp_dp_authenticate_client_def Let_def
    by (auto simp: cm_run dest!: keepsD [OF keeps_auth(1)] keepsD [OF keeps_auth(2)] keepsD [OF keeps_auth(3)]
        dest: auth_commit_fail)
  then show "ao_session (loc w') = ao_session (loc w)"
    "ao_out (loc w') = ao_out (loc w) \<or> ao_out (loc w') = Null 0 \<or> e = Undefined" by blast+
qed

section \<open>A good response is accepted\<close>

lemma signature_good_ok:
  "faults w = [] \<Longrightarrow> signature_good M cert tbs sig \<Longrightarrow>
     rsp_sign_verify M (Buf cert) (Buf tbs) (Some sig) w = (Inr (), w)"
  by (simp add: verify_ok)

lemma auth_verify_ok:
  assumes f: "faults w = []" "enc_laws A" and c: "auth_checked M A S s rok euicc_der eid"
    and l: "length (ss_transaction_id s) = 16" "length (ss_server_challenge s) = 16"
  shows "auth_verify M A S s rok w = (Inr (euicc_der, eid), w)"
proof -
  from c obtain ebs mbs sbs ci1 ci2 eum euicc where
    t: "es1_transactionId (ar_euiccSigned1 rok) = ss_transaction_id s"
      "es1_serverChallenge (ar_euiccSigned1 rok) = ss_server_challenge s" "length (ar_euiccSignature1 rok) = 64" and
    e: "a_enc_certificate A (ar_euiccCertificate rok) = Some ebs" "concat ebs = euicc_der"
      "a_enc_certificate A (ar_eumCertificate rok) = Some mbs" "a_enc_euicc_signed1 A (ar_euiccSigned1 rok) = Some sbs" and
    x: "ext_cert M (ci_der S) = Some ci1" "ext_cert M (ci2017_der S) = Some ci2" "ext_cert M (concat mbs) = Some eum"
      "ext_cert M euicc_der = Some euicc" "m_crt_verify M eum [ci1, ci2]" "m_crt_verify M euicc [eum]" and
    g: "signature_good M euicc_der (concat sbs) (ar_euiccSignature1 rok)"
      "extract_eid M (m_crt_subject M euicc) 32 = Some eid"
    by (auto simp: auth_checked_def chain_good_def split: option.splits)
  have b: "bounded_enc (a_enc_certificate A)" "bounded_enc (a_enc_euicc_signed1 A)"
    using f(2) by (simp_all add: enc_laws_def)
  show ?thesis
    unfolding auth_verify_def parse_ext_cert_def ext_cert_def [symmetric] rsp_pki_test_ci_def Let_def
    using f(1) t l e x g
    by (simp add: bnd_def recode_def ensure_def ret_def lift_opt_def signature_good_ok
        der_encode_some [OF b(1) e(1)] der_encode_some [OF b(1) e(3)] der_encode_some [OF b(2) e(4)])
qed

lemma auth_respond_ok:
  assumes f: "faults w = []" "enc_laws A" and l: "length (ar_euiccSignature1 rok) = 64"
    and r: "auth_response_of M A S (ss_transaction_id s) (ar_euiccSignature1 rok) md = Some r"
      "a_enc_auth_client_ok A r = Some bs"
  shows "auth_respond M A S s rok md w = (Inr (concat bs, ac_smdpSignature2 r), w)"
proof -
  define sd2 where "sd2 = \<lparr>sd2_transactionId = ss_transaction_id s, sd2_ccRequiredFlag = False, sd2_bppEuiccOtpk = None\<rparr>"
  from r(1) obtain m b2 c sig cert where
    v: "a_dec_store_metadata A md = Some m" "a_enc_smdp_signed2 A sd2 = Some b2" "dp_credential M S 1 = Some c"
      "sign_value M (cr_sk c) (concat b2 @ tlv [0x5F, 0x37] (ar_euiccSignature1 rok)) = Some sig"
      "a_dec_certificate A (dppb_der S) = Some cert"
      "r = \<lparr>ac_transactionId = ss_transaction_id s, ac_profileMetaData = m, ac_smdpSigned2 = sd2,
            ac_smdpSignature2 = sig, ac_smdpCertificate = cert\<rparr>"
    by (auto simp: auth_response_of_def Let_def bind_eq_Some_conv sd2_def)
  have d: "cdata (cr_der c) = dppb_der S"
    using v(3) by (auto simp: dp_credential_def bind_eq_Some_conv split: if_splits)
  have p: "rsp_pki_dp M S 1 \<lparr>faults = [], loc = Some zero_credential\<rparr> = (Inr (), \<lparr>faults = [], loc = Some c\<rparr>)"
    using pki_dp_ok [of "\<lparr>faults = [], loc = Some zero_credential\<rparr>" 1 M S c] v(3) by simp
  have b: "bounded_enc (a_enc_smdp_signed2 A)" "bounded_enc (a_enc_auth_client_ok A)"
    using f(2) by (simp_all add: enc_laws_def)
  show ?thesis
    unfolding auth_respond_def octet_string_def Let_def
    using f(1) l p v r(2) d
    by (simp add: bnd_def recode_def nested_def ret_def sign_ok sd2_def [symmetric] tlv_sig
        der_encode_some [OF b(1) v(2)] der_encode_some [OF b(2) r(2) [unfolded v(6)]])
qed

lemma authenticate_ok:
  assumes f: "faults w = []" "enc_laws A" and s: "ao_session (loc w) = Some s" "session_ok s"
    and a: "resp \<noteq> []" "md \<noteq> []" "a_dec_store_metadata A md = Some m" "length (sm_iccid m) = 10"
      "length (sm_profileName m) \<le> 64" "length (sm_serviceProviderName m) \<le> 32"
      "a_dec_auth_server_response A resp = Some (AuthenticateResponseOk rok)"
    and c: "auth_checked M A S s rok euicc_der eid"
    and r: "auth_response_of M A S (ss_transaction_id s) (ar_euiccSignature1 rok) md = Some r"
      "a_enc_auth_client_ok A r = Some bs"
  shows "rsp_dp_authenticate_client M A S (Buf resp) (Buf md) True w = (Inr (), w\<lparr>loc := \<lparr>ao_session =
    Some (s\<lparr>ss_euicc_cert := Owned euicc_der, ss_euicc_cert_len := length euicc_der,
         ss_eid := eid @ drop (length eid) (ss_eid s), ss_eid_len := length eid,
         ss_metadata := Owned md, ss_metadata_len := length md,
         ss_smdp_signature2 := ac_smdpSignature2 r, ss_authenticated := True\<rparr>), ao_out = Buf (concat bs)\<rparr>\<rparr>)"
proof -
  have l: "length (ss_transaction_id s) = 16" "length (ss_server_challenge s) = 16"
    "ss_euicc_cert s \<noteq> Wild" "ss_metadata s \<noteq> Wild"
    using s(2) by (auto simp: session_ok_def)
  have dec: "auth_decode A resp md w = (Inr rok, w)"
    using f a by (simp add: auth_decode_def bnd_def ensure_def ret_def)
  have sig: "length (ar_euiccSignature1 rok) = 64" using c by (simp add: auth_checked_def)
  have rs: "auth_respond M A S s rok md w = (Inr (concat bs, ac_smdpSignature2 r), w)"
    by (rule auth_respond_ok [OF f sig r])
  show ?thesis
    using f(1) s(1) a(1,2) dec auth_verify_ok [OF f c l(1,2)] rs l
    by (simp add: rsp_dp_authenticate_client_def Let_def bnd_def get_loc_def set_loc_def ensure_def ret_def
        auth_commit_def attempt_def free_ptr_def)
qed

end
