(* ===== verification/Recover.thy ===== *)
theory Recover
  imports Bpp
begin

text \<open>
  Recovering the profile from a Bound Profile Package, the other half of \<open>src/rsp_bpp.c\<close>:
  \<open>verify_and_advance\<close> and \<open>rsp_bpp_recover\<close>. \<open>seg_genuine\<close>, \<open>genuine_all\<close> and
  \<open>bpp_groups\<close> say what an accepted package is; every package of \<open>bpp_of\<close> is recovered to its
  profile, with both sides left in the same session.
\<close>

section \<open>Recovering\<close>

function verify_and_advance ::
  "('c, 'g, 'p, 'k) mbedtls \<Rightarrow> 'a asn1c \<Rightarrow> bytes \<Rightarrow> nat \<Rightarrow> nat \<Rightarrow> u8 \<Rightarrow> bool \<Rightarrow>
   (rsp_session option, unit) cm" where
  "verify_and_advance M A wrapper_val p elem_tag wire_tag mac_only =
     (if p < length wrapper_val then
        case read_tlv A (drop p wrapper_val) of
          None \<Rightarrow> stop_with Minus2
        | Some (en, et, ev) \<Rightarrow>
            if et \<noteq> elem_tag then stop_with Minus2
            else
              bnd (malloc Minus2 (if length ev \<noteq> 0 then length ev else 1)) (\<lambda>_.
              bnd (if mac_only then rsp_unprotect_mac_only M (Buf ev) wire_tag (Some (length ev))
                   else rsp_unprotect M (Buf ev) wire_tag (Some (length ev))) (\<lambda>_.
              verify_and_advance M A wrapper_val (p + en) elem_tag wire_tag mac_only))
      else ret ())"
  by pat_completeness auto
termination
  by (relation "measure (\<lambda>(M, A, wrapper_val, p, elem_tag, wire_tag, mac_only). length wrapper_val - p)")
    (auto dest: read_tlv_bounds)

declare verify_and_advance.simps [simp del]

text \<open>The loop over the '86' elements; the result is the accumulated plaintext and the number of
  segments seen.\<close>

function recover86_loop ::
  "('c, 'g, 'p, 'k) mbedtls \<Rightarrow> 'a asn1c \<Rightarrow> bytes \<Rightarrow> nat \<Rightarrow> growbuf \<Rightarrow> nat \<Rightarrow>
   (rsp_session option, growbuf \<times> nat) cm" where
  "recover86_loop M A seq86 p g segments_seen =
     (if p < length seq86 then
        case read_tlv A (drop p seq86) of
          None \<Rightarrow> stop_with Minus2
        | Some (en, et, ev) \<Rightarrow>
            if et \<noteq> packed_tag 2 6 then stop_with Minus2
            else
              bnd (malloc Minus2 (if length ev \<noteq> 0 then length ev else 1)) (\<lambda>_.
              bnd (rsp_unprotect M (Buf ev) TAG_86_ELEMENT (Some (length ev))) (\<lambda>plain.
              bnd (recode Minus2 (rsp_growbuf_append g plain)) (\<lambda>g.
              recover86_loop M A seq86 (p + en) g (Suc segments_seen))))
      else ret (g, segments_seen))"
  by pat_completeness auto
termination
  by (relation "measure (\<lambda>(M, A, seq86, p, g, segments_seen). length seq86 - p)")
    (auto dest: read_tlv_bounds)

declare recover86_loop.simps [simp del]

text \<open>secondSequenceOf87 is skipped when it is there.\<close>

definition skip_second87 :: "'a asn1c \<Rightarrow> bytes \<Rightarrow> nat \<Rightarrow> nat" where
  "skip_second87 A content pos =
     (if pos < length content then
        case read_tlv A (drop pos content) of
          Some (n, t, v) \<Rightarrow> if t = packed_tag 2 2 then pos + n else pos
        | None \<Rightarrow> pos
      else pos)"

definition rsp_bpp_recover ::
  "('c, 'g, 'p, 'k) mbedtls \<Rightarrow> 'a asn1c \<Rightarrow> cbuf \<Rightarrow> bool \<Rightarrow> (rsp_session option, cbuf) cm" where
  "rsp_bpp_recover M A bpp upp_ok =
     bnd get_loc (\<lambda>s.
     bnd (ensure (\<not> (s = None \<or> is_null bpp \<or> \<not> upp_ok)) Minus2) (\<lambda>_.
     bnd (lift_opt Minus2 (read_tlv A (cdata bpp))) (\<lambda>(n, tag, content).
     bnd (ensure (n = clen bpp) Minus2) (\<lambda>_.
     bnd (ensure (tag = packed_tag 2 54) Minus2) (\<lambda>_.
     bnd (lift_opt Minus2 (read_tlv A content)) (\<lambda>(n, t, v).
     bnd (ensure (t = packed_tag 2 35) Minus2) (\<lambda>_.
     let pos = n in
     bnd (lift_opt Minus2 (read_tlv A (drop pos content))) (\<lambda>(n, t, v).
     bnd (ensure (t = packed_tag 2 0) Minus2) (\<lambda>_.
     let pos = pos + n in
     bnd (verify_and_advance M A v 0 (packed_tag 2 7) TAG_87_ELEMENT False) (\<lambda>_.
     bnd (lift_opt Minus2 (read_tlv A (drop pos content))) (\<lambda>(n, t, v).
     bnd (ensure (t = packed_tag 2 1) Minus2) (\<lambda>_.
     let pos = pos + n in
     bnd (verify_and_advance M A v 0 (packed_tag 2 8) TAG_88_ELEMENT True) (\<lambda>_.
     let pos = skip_second87 A content pos in
     bnd (lift_opt Minus2 (read_tlv A (drop pos content))) (\<lambda>(n, t, seq86).
     bnd (ensure (t = packed_tag 2 3) Minus2) (\<lambda>_.
     bnd (ensure (pos + n = length content) Minus2) (\<lambda>_.
     bnd (recover86_loop M A seq86 0 empty_growbuf 0) (\<lambda>(g, segments_seen).
     bnd (ensure (segments_seen \<noteq> 0) Minus2) (\<lambda>_.
     ret (if gb_buf g = [] then Null (gb_len g) else Buf (gb_bytes g))))))))))))))))))))"

section \<open>What a recovering side accepts\<close>

definition seg_body :: "bytes \<Rightarrow> bytes" where
  "seg_body ev = take (length ev - 8) ev"

definition seg_next :: "('c, 'g, 'p, 'k) mbedtls \<Rightarrow> u8 \<Rightarrow> rsp_session \<Rightarrow> bytes \<Rightarrow> rsp_session" where
  "seg_next M t s ev = session_step s (mac_of M s t (seg_body ev))"

text \<open>The last eight octets are the MAC of the rest, under this session.\<close>

definition seg_genuine :: "('c, 'g, 'p, 'k) mbedtls \<Rightarrow> u8 \<Rightarrow> rsp_session \<Rightarrow> bytes \<Rightarrow> bool" where
  "seg_genuine M t s ev \<longleftrightarrow> ev = seg_body ev @ take 8 (mac_of M s t (seg_body ev))"

definition seg_opens :: "('c, 'g, 'p, 'k) mbedtls \<Rightarrow> rsp_session \<Rightarrow> bytes \<Rightarrow> bytes \<Rightarrow> bool" where
  "seg_opens M s ev p \<longleftrightarrow>
     m_cbc_dec M (s_enc s) (m_aes_ecb M (s_enc s) (enc_counter s)) (seg_body ev) = scp03t_pad p"

text \<open>Every element of a group is genuine, each under the session its predecessor left; the
  group's session is the fold of \<open>seg_next\<close>.\<close>

fun genuine_all :: "('c, 'g, 'p, 'k) mbedtls \<Rightarrow> u8 \<Rightarrow> rsp_session \<Rightarrow> bytes list \<Rightarrow> bool" where
  "genuine_all M t s [] = True"
| "genuine_all M t s (ev # evs) = (seg_genuine M t s ev \<and> genuine_all M t (seg_next M t s ev) evs)"

fun opens_all :: "('c, 'g, 'p, 'k) mbedtls \<Rightarrow> u8 \<Rightarrow> rsp_session \<Rightarrow> bytes list \<Rightarrow> bytes list \<Rightarrow> bool" where
  "opens_all M t s [] ps = (ps = [])"
| "opens_all M t s (ev # evs) ps = (case ps of [] \<Rightarrow> False
     | p # ps \<Rightarrow> seg_opens M s ev p \<and> opens_all M t (seg_next M t s ev) evs ps)"

definition session_after :: "('c, 'g, 'p, 'k) mbedtls \<Rightarrow> u8 \<Rightarrow> rsp_session \<Rightarrow> bytes list \<Rightarrow> rsp_session" where
  "session_after M t s evs = foldl (seg_next M t) s evs"

text \<open>The values of the elements of a wrapper, all with the same tag.\<close>

function elements :: "'a asn1c \<Rightarrow> nat \<Rightarrow> bytes \<Rightarrow> bytes list option" where
  "elements A tag xs = (if xs = [] then Some [] else
     case read_tlv A xs of None \<Rightarrow> None
     | Some (n, t, v) \<Rightarrow> if t \<noteq> tag then None else map_option (Cons v) (elements A tag (drop n xs)))"
  by pat_completeness auto
termination
  by (relation "measure (\<lambda>(A, tag, xs). length xs)") (auto dest: read_tlv_bounds)

declare elements.simps [simp del]

lemma seg_parts:
  assumes "seg = ct @ take 8 (mac_of M s t ct)" "cipher_laws M"
  shows "seg_body seg = ct" "seg_genuine M t s seg" "seg_next M t s seg = session_step s (mac_of M s t ct)"
proof -
  have "length seg = length ct + 8" using assms by simp
  then show b: "seg_body seg = ct" using assms(1) by (simp add: seg_body_def)
  show "seg_genuine M t s seg" "seg_next M t s seg = session_step s (mac_of M s t ct)"
    unfolding seg_genuine_def seg_next_def b by (rule assms(1), rule refl)
qed

lemma seg_next_wf: "cipher_laws M \<Longrightarrow> session_wf s \<Longrightarrow> session_wf (seg_next M t s ev)"
  by (simp add: seg_next_def)

lemma unprotect_accepts:
  assumes "rsp_unprotect M (Buf ev) t oc w = (Inr p, w')" "loc w = Some s" "session_wf s" "cipher_laws M"
  shows "seg_genuine M t s ev \<and> seg_opens M s ev p \<and> loc w' = Some (seg_next M t s ev) \<and> length p \<le> length ev"
  using assms(1-4)
proof (rule unprotect_run)
  fix ct
  assume c: "ev = ct @ take 8 (mac_of M s t ct)"
    "m_cbc_dec M (s_enc s) (m_aes_ecb M (s_enc s) (enc_counter s)) ct = scp03t_pad p"
    "loc w' = Some (session_step s (mac_of M s t ct))" "length p < length ct"
  from c seg_parts [OF c(1) assms(4)] show ?thesis by (simp add: seg_opens_def)
qed

lemma unprotect_mac_only_accepts:
  assumes "rsp_unprotect_mac_only M (Buf ev) t oc w = (Inr p, w')" "loc w = Some s" "session_wf s" "cipher_laws M"
  shows "seg_genuine M t s ev \<and> p = seg_body ev \<and> loc w' = Some (seg_next M t s ev)"
  using unprotect_mac_only_run [OF assms(1-3)] seg_parts [of ev p M s t] assms(4)
  by (simp add: macced_def after_mac_def)

lemma verify_and_advance_run:
  assumes "verify_and_advance M A val p tag t mo w = (Inr u, w')" "loc w = Some s" "session_wf s" "cipher_laws M"
  shows "\<exists>evs. elements A tag (drop p val) = Some evs \<and> genuine_all M t s evs \<and>
    loc w' = Some (session_after M t s evs)"
  using assms
proof (induction "length val - p" arbitrary: p w s rule: less_induct)
  case less
  show ?case
  proof (cases "p < length val")
    case False
    with less.prems show ?thesis
      by (simp add: verify_and_advance.simps elements.simps cm_run session_after_def)
  next
    case True
    from less.prems(1) True obtain en ev w1 w2 x where
      r: "read_tlv A (drop p val) = Some (en, tag, ev)" and w1: "w1 = tick w" and
      u: "(if mo then rsp_unprotect_mac_only M (Buf ev) t (Some (length ev))
           else rsp_unprotect M (Buf ev) t (Some (length ev))) w1 = (Inr x, w2)" and
      rec: "verify_and_advance M A val (p + en) tag t mo w2 = (Inr u, w')"
      by (subst (asm) verify_and_advance.simps) (auto simp: cm_run split: option.splits if_splits prod.splits)
    have a: "seg_genuine M t s ev" "loc w2 = Some (seg_next M t s ev)"
      using u less.prems(2-4) w1 unprotect_accepts [of M ev t "Some (length ev)" w1 x w2 s]
        unprotect_mac_only_accepts [of M ev t "Some (length ev)" w1 x w2 s]
      by (auto split: if_splits)
    have "length val - (p + en) < length val - p" using read_tlv_bounds [OF r] True by linarith
    from less.hyps [OF this rec a(2)] less.prems(3,4) obtain evs where
      "elements A tag (drop (p + en) val) = Some evs" "genuine_all M t (seg_next M t s ev) evs"
      "loc w' = Some (session_after M t (seg_next M t s ev) evs)"
      by (auto simp: seg_next_wf)
    with a r True show ?thesis
      by (intro exI [of _ "ev # evs"])
        (simp add: elements.simps [of A tag "drop p val"] session_after_def add.commute)
  qed
qed

lemma recover86_run:
  assumes "recover86_loop M A val p g k w = (Inr r, w')" "loc w = Some s" "session_wf s" "cipher_laws M" "gb_ok g"
  shows "\<exists>evs ps. elements A (packed_tag 2 6) (drop p val) = Some evs \<and> genuine_all M 0x86 s evs \<and>
    opens_all M 0x86 s evs ps \<and> loc w' = Some (session_after M 0x86 s evs) \<and>
    gb_ok (fst r) \<and> gb_bytes (fst r) = gb_bytes g @ concat ps \<and> snd r = k + length evs"
  using assms
proof (induction "length val - p" arbitrary: p g k w s rule: less_induct)
  case less
  show ?case
  proof (cases "p < length val")
    case False
    with less.prems show ?thesis
      by (simp add: recover86_loop.simps elements.simps cm_run session_after_def)
  next
    case True
    from less.prems(1) True obtain en ev w1 w2 w3 plain g1 where
      r: "read_tlv A (drop p val) = Some (en, packed_tag 2 6, ev)" and w1: "w1 = tick w" and
      u: "rsp_unprotect M (Buf ev) 0x86 (Some (length ev)) w1 = (Inr plain, w2)" and
      g: "rsp_growbuf_append g plain w2 = (Inr g1, w3)" and
      rec: "recover86_loop M A val (p + en) g1 (Suc k) w3 = (Inr r, w')"
      by (subst (asm) recover86_loop.simps) (auto simp: cm_run split: option.splits if_splits prod.splits)
    have l: "loc w1 = Some s" using w1 less.prems(2) by simp
    note a = unprotect_accepts [OF u l less.prems(3,4)]
    note G = growbuf_append_run [OF less.prems(5) g]
    have l3: "loc w3 = Some (seg_next M 0x86 s ev)" using a G by simp
    have "length val - (p + en) < length val - p" using read_tlv_bounds [OF r] True by linarith
    from less.hyps [OF this rec l3] less.prems(3,4) G obtain evs ps where
      "elements A (packed_tag 2 6) (drop (p + en) val) = Some evs" "genuine_all M 0x86 (seg_next M 0x86 s ev) evs"
      "opens_all M 0x86 (seg_next M 0x86 s ev) evs ps"
      "loc w' = Some (session_after M 0x86 (seg_next M 0x86 s ev) evs)" "gb_ok (fst r)"
      "gb_bytes (fst r) = gb_bytes g1 @ concat ps" "snd r = Suc k + length evs"
      by (auto simp: seg_next_wf)
    with a r True G show ?thesis
      by (intro exI [of _ "ev # evs"] exI [of _ "plain # ps"])
        (simp add: elements.simps [of A "packed_tag 2 6" "drop p val"] session_after_def add.commute)
  qed
qed

text \<open>The three groups of a package: the values of its '87', '88' and '86' elements.\<close>

definition bpp_groups :: "'a asn1c \<Rightarrow> bytes \<Rightarrow> (bytes list \<times> bytes list \<times> bytes list) option" where
  "bpp_groups A b =
     Option.bind (read_tlv A b) (\<lambda>(n, t, content).
     if n \<noteq> length b \<or> t \<noteq> packed_tag 2 54 then None else
     Option.bind (read_tlv A content) (\<lambda>(n1, t1, v1).
     if t1 \<noteq> packed_tag 2 35 then None else
     Option.bind (read_tlv A (drop n1 content)) (\<lambda>(n2, t2, v87).
     if t2 \<noteq> packed_tag 2 0 then None else
     Option.bind (read_tlv A (drop (n1 + n2) content)) (\<lambda>(n3, t3, v88).
     if t3 \<noteq> packed_tag 2 1 then None else
     let pos = skip_second87 A content (n1 + n2 + n3) in
     Option.bind (read_tlv A (drop pos content)) (\<lambda>(n4, t4, v86).
     if t4 \<noteq> packed_tag 2 3 \<or> pos + n4 \<noteq> length content then None else
     Option.bind (elements A (packed_tag 2 7) v87) (\<lambda>e87.
     Option.bind (elements A (packed_tag 2 8) v88) (\<lambda>e88.
     Option.bind (elements A (packed_tag 2 6) v86) (\<lambda>e86.
     Some (e87, e88, e86)))))))))"

lemma session_after_wf: "cipher_laws M \<Longrightarrow> session_wf s \<Longrightarrow> session_wf (session_after M t s evs)"
  unfolding session_after_def by (induction evs arbitrary: s) (simp_all add: seg_next_wf)

lemma recover_run:
  assumes run: "rsp_bpp_recover M A bpp True w = (Inr upp, w')"
    and s: "loc w = Some s" "session_wf s" and M: "cipher_laws M"
  obtains b e87 e88 e86 ps where "bpp = Buf b" "bpp_groups A b = Some (e87, e88, e86)" "e86 \<noteq> []"
    "genuine_all M 0x87 s e87" "genuine_all M 0x88 (session_after M 0x87 s e87) e88"
    "genuine_all M 0x86 (session_after M 0x88 (session_after M 0x87 s e87) e88) e86"
    "opens_all M 0x86 (session_after M 0x88 (session_after M 0x87 s e87) e88) e86 ps"
    "cdata upp = concat ps"
    "loc w' = Some (session_after M 0x86 (session_after M 0x88 (session_after M 0x87 s e87) e88) e86)"
proof -
  obtain b where b: "bpp = Buf b"
    using run by (cases bpp) (auto simp: rsp_bpp_recover_def cm_run)
  define pos where "pos = (\<lambda>content n1 n2 n3. skip_second87 A content (n1 + n2 + n3))"
  from run s(1) obtain content n1 v1 n2 v87 w1 n3 v88 w2 n4 v86 g k where
    0: "read_tlv A b = Some (length b, packed_tag 2 54, content)" and
    1: "read_tlv A content = Some (n1, packed_tag 2 35, v1)" and
    2: "read_tlv A (drop n1 content) = Some (n2, packed_tag 2 0, v87)" and
    3: "verify_and_advance M A v87 0 (packed_tag 2 7) 0x87 False w = (Inr (), w1)" and
    4: "read_tlv A (drop (n1 + n2) content) = Some (n3, packed_tag 2 1, v88)" and
    5: "verify_and_advance M A v88 0 (packed_tag 2 8) 0x88 True w1 = (Inr (), w2)" and
    6: "read_tlv A (drop (pos content n1 n2 n3) content) = Some (n4, packed_tag 2 3, v86)" and
    7: "pos content n1 n2 n3 + n4 = length content" and
    8: "recover86_loop M A v86 0 empty_growbuf 0 w2 = (Inr (g, k), w')" and
    9: "k \<noteq> 0" "upp = (if gb_buf g = [] then Null (gb_len g) else Buf (gb_bytes g))"
    unfolding rsp_bpp_recover_def Let_def b pos_def by (auto simp: cm_run)
  from verify_and_advance_run [OF 3 s M] obtain e87 where
    e87: "elements A (packed_tag 2 7) v87 = Some e87" "genuine_all M 0x87 s e87"
      "loc w1 = Some (session_after M 0x87 s e87)" by auto
  note wf1 = session_after_wf [OF M s(2), of "0x87" e87]
  from verify_and_advance_run [OF 5 e87(3) wf1 M] obtain e88 where
    e88: "elements A (packed_tag 2 8) v88 = Some e88" "genuine_all M 0x88 (session_after M 0x87 s e87) e88"
      "loc w2 = Some (session_after M 0x88 (session_after M 0x87 s e87) e88)" by auto
  note wf2 = session_after_wf [OF M wf1, of "0x88" e88]
  from recover86_run [OF 8 e88(3) wf2 M gb_ok_empty(1)] obtain e86 ps where
    e86: "elements A (packed_tag 2 6) v86 = Some e86"
      "genuine_all M 0x86 (session_after M 0x88 (session_after M 0x87 s e87) e88) e86"
      "opens_all M 0x86 (session_after M 0x88 (session_after M 0x87 s e87) e88) e86 ps"
      "loc w' = Some (session_after M 0x86 (session_after M 0x88 (session_after M 0x87 s e87) e88) e86)"
      "gb_bytes g = concat ps" "k = length e86" by auto
  have "bpp_groups A b = Some (e87, e88, e86)"
    using 0 1 2 4 6 7 e87(1) e88(1) e86(1) by (simp add: bpp_groups_def pos_def Let_def)
  moreover have "cdata upp = concat ps" "e86 \<noteq> []"
    using e86(5,6) 9 by (auto simp: gb_bytes_def)
  ultimately show ?thesis using that b e87(2) e88(2) e86(2-4) by blast
qed

section \<open>Every package that is built is recovered\<close>

lemma read_element:
  assumes "ber_laws A" "unat t div 64 = 2" "unat t mod 32 = k" "k < 31" "length v \<le> 0xFFFFFFFF"
  shows "read_tlv A (tlv [t] v @ rest) = Some (length (tlv [t] v), packed_tag 2 k, v)"
  by (rule read_tlv_tlv [OF assms(1) _ assms(5)]) (use assms in \<open>simp add: tag_class_num_def\<close>)

lemma tlv_nonempty: "tlv [t] v \<noteq> []"
  by (simp add: tlv_def)

lemma verify_and_advance_single:
  assumes r: "read_tlv A (tlv [t] ev) = Some (length (tlv [t] ev), tag, ev)" and f: "faults w = []"
    and u: "(if mo then rsp_unprotect_mac_only M (Buf ev) t (Some (length ev))
       else rsp_unprotect M (Buf ev) t (Some (length ev))) w = (Inr p, w')"
  shows "verify_and_advance M A (tlv [t] ev) 0 tag t mo w = (Inr (), w')"
proof -
  have e: "verify_and_advance M A (tlv [t] ev) (length (tlv [t] ev)) tag t mo w' = (Inr (), w')"
    by (subst verify_and_advance.simps) (simp add: ret_def)
  show ?thesis
    using r f u e tlv_nonempty [of t ev]
    by (subst verify_and_advance.simps) (auto simp: bnd_def split: if_splits)
qed

lemma recover86_sealed:
  assumes "drop p val = tlvs 0x86 (fst (seal_all M 0x86 s ps))" "\<forall>x\<in>set ps. length x \<le> 1007"
    and "faults w = []" "loc w = Some s" "session_wf s" "cipher_laws M" "ber_laws A" "gb_ok g"
    and "length (gb_bytes g) + length (concat ps) \<le> 2 ^ 63"
  shows "\<exists>g'. recover86_loop M A val p g k w =
      (Inr (g', k + length ps), w\<lparr>loc := Some (snd (seal_all M 0x86 s ps))\<rparr>) \<and>
    gb_ok g' \<and> gb_bytes g' = gb_bytes g @ concat ps"
  using assms
proof (induction ps arbitrary: p s g k w)
  case Nil
  then have "\<not> p < length val" by (simp add: tlvs_def)
  with Nil show ?case by (subst recover86_loop.simps) (simp add: ret_def)
next
  case (Cons x ps)
  let ?seg = "sealed M 0x86 s x"
  let ?s1 = "after_seal M 0x86 s x"
  let ?w1 = "w\<lparr>loc := Some ?s1\<rparr>"
  have x: "length x \<le> 1007" using Cons.prems(2) by simp
  have ls: "length ?seg \<le> 0xFFFFFFFF" "length x \<le> length ?seg"
    using x by (simp_all add: length_sealed [OF Cons.prems(6)])
  have d: "drop p val = tlv [0x86] ?seg @ tlvs 0x86 (fst (seal_all M 0x86 ?s1 ps))"
    using Cons.prems(1) by (simp add: tlvs_def split: prod.splits)
  then have lt: "p < length val" using tlv_nonempty [of "0x86" ?seg] by (metis append_is_Nil_conv drop_all not_le)
  have r: "read_tlv A (drop p val) = Some (length (tlv [0x86] ?seg), packed_tag 2 6, ?seg)"
    unfolding d by (rule read_element [OF Cons.prems(7) _ _ _ ls(1)]) simp_all
  have u: "rsp_unprotect M (Buf ?seg) 0x86 (Some (length ?seg)) w = (Inr x, ?w1)"
    using unprotect_sealed [OF Cons.prems(3-6) ls(2)] x by simp
  obtain g1 where g: "rsp_growbuf_append g x ?w1 = (Inr g1, ?w1)"
    using growbuf_append_total [OF Cons.prems(8), of ?w1 x] Cons.prems(3,9) by auto
  note G = growbuf_append_run [OF Cons.prems(8) g]
  have dr: "drop (p + length (tlv [0x86] ?seg)) val = tlvs 0x86 (fst (seal_all M 0x86 ?s1 ps))"
    using arg_cong [OF d, of "drop (length (tlv [0x86] ?seg))"] by (simp add: add.commute)
  have "session_wf ?s1" by (rule after_seal_wf [OF Cons.prems(6,5)])
  from Cons.IH [OF dr _ _ _ this Cons.prems(6,7) conjunct1 [OF G], of ?w1 "Suc k"] Cons.prems(2,3,9) G
  obtain g' where g': "recover86_loop M A val (p + length (tlv [0x86] ?seg)) g1 (Suc k) ?w1 =
      (Inr (g', Suc k + length ps), ?w1\<lparr>loc := Some (snd (seal_all M 0x86 ?s1 ps))\<rparr>)"
      "gb_ok g'" "gb_bytes g' = gb_bytes g1 @ concat ps" by auto
  have "recover86_loop M A val p g k w = recover86_loop M A val (p + length (tlv [0x86] ?seg)) g1 (Suc k) ?w1"
    using lt r u g Cons.prems(3) by (subst recover86_loop.simps) (simp add: bnd_def recode_def)
  with g' G show ?case by (auto split: prod.splits)
qed

lemma length_seal_all:
  assumes "cipher_laws M"
  shows "length (concat ps) \<le> length (tlvs t (fst (seal_all M t s ps)))"
proof (induction ps arbitrary: s)
  case (Cons p ps)
  have "length p \<le> length (sealed M t s p)" by (simp add: length_sealed [OF assms])
  also have "\<dots> \<le> length (tlv [t] (sealed M t s p))" by (rule length_tlv_ge)
  finally show ?case using Cons.IH [of "after_seal M t s p"] by (simp add: tlvs_def case_prod_beta)
qed (simp add: tlvs_def)

definition isc_codec_law :: "'a asn1c \<Rightarrow> bool" where
  "isc_codec_law A \<longleftrightarrow> (\<forall>isc bs. a_enc_isc A isc = Some bs \<longrightarrow>
     (\<exists>v. concat bs = tlv [0xBF, 0x23] v \<and> length v \<le> 0xFFFFFFFF))"

lemma recover_parts:
  assumes f: "faults w = []" and s: "loc w = Some s" "session_wf s" and M: "cipher_laws M" and A: "ber_laws A"
    and parts: "bpp_parts M s (tlv [0xBF, 0x23] iv) cfg md upp = (content, s3)"
    and len: "length iv \<le> 0xFFFFFFFF" "length cfg \<le> 1007" "length md \<le> 1007" "upp \<noteq> []"
      "length content \<le> 0xFFFFFFFF"
  shows "rsp_bpp_recover M A (Buf (tlv TAG_BPP content)) True w = (Inr (Buf upp), w\<lparr>loc := Some s3\<rparr>)"
proof -
  let ?s1 = "after_seal M 0x87 s cfg" and ?isc = "tlv [0xBF, 0x23] iv"
  let ?s2 = "after_mac M 0x88 ?s1 md" and ?ps = "chunks 1007 upp"
  let ?e87 = "tlv [0x87] (sealed M 0x87 s cfg)" and ?e88 = "tlv [0x88] (macced M 0x88 ?s1 md)"
  let ?segs = "tlvs 0x86 (fst (seal_all M 0x86 ?s2 ?ps))"
  have ct: "content = ?isc @ tlv [0xA0] ?e87 @ tlv [0xA1] ?e88 @ tlv [0xA3] ?segs"
    and s3: "s3 = snd (seal_all M 0x86 ?s2 ?ps)"
    using parts by (auto simp: bpp_parts_def Let_def split: prod.splits)
  have lsegs: "length ?segs \<le> 0xFFFFFFFF" using len(5) length_tlv_ge [of ?segs "[0xA3]"] by (simp add: ct)
  have l7: "length (sealed M 0x87 s cfg) \<le> 1031" "length cfg \<le> length (sealed M 0x87 s cfg)"
    using len(2) by (simp_all add: length_sealed [OF M])
  have l8: "length (macced M 0x88 ?s1 md) \<le> 1015" "length md \<le> length (macced M 0x88 ?s1 md)"
    using len(3) by (simp_all add: length_macced [OF M])
  have le: "length ?e87 \<le> 0xFFFFFFFF" "length ?e88 \<le> 0xFFFFFFFF"
    using length_tlv_le [of "sealed M 0x87 s cfg" "[0x87]"] length_tlv_le [of "macced M 0x88 ?s1 md" "[0x88]"] l7 l8
    by simp_all
  have wf1: "session_wf ?s1" by (rule after_seal_wf [OF M s(2)])
  have wf2: "session_wf ?s2" by (rule after_mac_wf [OF M wf1])
  let ?w1 = "w\<lparr>loc := Some ?s1\<rparr>" and ?w2 = "w\<lparr>loc := Some ?s2\<rparr>"
  have r0: "read_tlv A (tlv TAG_BPP content) = Some (length (tlv TAG_BPP content), packed_tag 2 54, content)"
    using read_tlv_tlv [OF A, of TAG_BPP 2 54 content "[]"] len(5) by (simp add: TAG_BPP_def tag_class_num_def)
  have r1: "read_tlv A content = Some (length ?isc, packed_tag 2 35, iv)"
    unfolding ct by (rule read_tlv_tlv [OF A]) (use len(1) in \<open>simp_all add: tag_class_num_def\<close>)
  have r2: "read_tlv A (drop (length ?isc) content) = Some (length (tlv [0xA0] ?e87), packed_tag 2 0, ?e87)"
    unfolding ct append_eq_conv_conj [THEN iffD1, OF refl, THEN conjunct2, symmetric]
    using read_element [OF A, of "0xA0" 0 ?e87 "tlv [0xA1] ?e88 @ tlv [0xA3] ?segs"] le by simp
  have r3: "read_tlv A (drop (length ?isc + length (tlv [0xA0] ?e87)) content) = Some (length (tlv [0xA1] ?e88), packed_tag 2 1, ?e88)"
    unfolding ct using read_element [OF A, of "0xA1" 1 ?e88 "tlv [0xA3] ?segs"] le by simp
  let ?pos = "length ?isc + length (tlv [0xA0] ?e87) + length (tlv [0xA1] ?e88)"
  have r4: "read_tlv A (drop ?pos content) = Some (length (tlv [0xA3] ?segs), packed_tag 2 3, ?segs)"
    unfolding ct using read_element [OF A, of "0xA3" 3 ?segs "[]"] lsegs by simp
  have skip: "skip_second87 A content ?pos = ?pos"
    unfolding skip_second87_def r4 by (simp add: packed_tag_def)
  have v7: "verify_and_advance M A ?e87 0 (packed_tag 2 7) 0x87 False w = (Inr (), ?w1)"
    by (rule verify_and_advance_single [OF _ f])
      (use read_element [OF A, of "0x87" 7 "sealed M 0x87 s cfg" "[]"] l7 len(2)
        unprotect_sealed [OF f s M l7(2), of "0x87"] in auto)
  have v8: "verify_and_advance M A ?e88 0 (packed_tag 2 8) 0x88 True ?w1 = (Inr (), ?w2)"
    by (rule verify_and_advance_single)
      (use read_element [OF A, of "0x88" 8 "macced M 0x88 ?s1 md" "[]"] l8 len(3) f
        unprotect_mac_only_macced [of ?w1 ?s1 M md "length (macced M 0x88 ?s1 md)" "0x88"] wf1 M in auto)
  have lu: "length upp \<le> 0xFFFFFFFF"
    using length_seal_all [OF M, of ?ps "0x86" ?s2] lsegs by (simp add: concat_chunks)
  obtain g where g: "recover86_loop M A ?segs 0 empty_growbuf 0 ?w2 = (Inr (g, length ?ps), w\<lparr>loc := Some s3\<rparr>)"
      "gb_ok g" "gb_bytes g = upp"
    using recover86_sealed [of 0 ?segs M ?s2 ?ps ?w2 A empty_growbuf 0] f wf2 M A lu s3
    by (auto simp: concat_chunks dest: chunks_length)
  have "gb_buf g \<noteq> []" using g(3) len(4) by (auto simp: gb_bytes_def)
  moreover have "?pos + length (tlv [0xA3] ?segs) = length content" by (simp add: ct)
  ultimately show ?thesis
    unfolding rsp_bpp_recover_def Let_def
    using r0 r1 r2 r3 r4 skip v7 v8 g s(1) len(4)
    by (simp add: bnd_def get_loc_def ensure_def ret_def lift_opt_def chunks_Nil)
qed

lemma recover_built:
  assumes f: "faults w = []" and s: "loc w = Some s" "session_wf s" and M: "cipher_laws M"
    and A: "ber_laws A" "isc_codec_law A" and inp: "input_ok inp"
    and spec: "bpp_of M A s inp = Some (out, s')"
  shows "rsp_bpp_recover M A (Buf out) True w = (Inr (bi_upp inp), w\<lparr>loc := Some s'\<rparr>)"
proof -
  obtain upp md where i: "bi_upp inp = Buf upp" "bi_metadata inp = Buf md" "upp \<noteq> []" "length md \<le> 1007"
    using inp by (elim input_okE) simp
  from spec i obtain isc ibs cbs content where
    e: "a_enc_isc A isc = Some ibs" "a_enc_configure A build_configure = Some cbs"
    and p: "bpp_parts M s (concat ibs) (concat cbs) md upp = (content, s')"
    and out: "out = tlv TAG_BPP content" and cfg: "length (concat cbs) \<le> 1007" and l: "length content \<le> 0xFFFFFFFF"
    by (fastforce simp: bpp_of_def bind_eq_Some_conv TAG_BPP_def Let_def split: if_splits intro: prod_eqI)
  from A(2) e(1) obtain iv where iv: "concat ibs = tlv [0xBF, 0x23] iv" "length iv \<le> 0xFFFFFFFF"
    unfolding isc_codec_law_def by blast
  show ?thesis
    unfolding out i(1)
    by (rule recover_parts [OF f s M A(1) p [unfolded iv(1)] iv(2) cfg i(4,3) l])
qed

section \<open>Failures of recovery\<close>

lemma unprotect_length:
  assumes "rsp_unprotect M seg t (Some c) w = (Inr p, w')"
  shows "length p \<le> c"
proof -
  from assms obtain i padded where "p = take (i - 1) padded" "\<not> i - 1 > c"
    unfolding rsp_unprotect_def Let_def by (simp only: cm_run option.sel sum.inject) blast
  then show ?thesis by simp
qed

lemma verify_and_advance_code:
  "verify_and_advance M A val p tag t mo w = (Inl e, w') \<Longrightarrow> e \<in> {Minus1, Minus2}"
proof (induction "length val - p" arbitrary: p w mo rule: less_induct)
  case less
  show ?case
  proof (cases "p < length val")
    case False
    with less.prems show ?thesis by (simp add: verify_and_advance.simps cm_run)
  next
    case True
    show ?thesis
    proof (cases "read_tlv A (drop p val)")
      case None
      with True less.prems show ?thesis by (simp add: verify_and_advance.simps cm_run)
    next
      case (Some r)
      obtain en et ev where r: "r = (en, et, ev)" by (cases r)
      have d: "length val - (p + en) < length val - p"
        using read_tlv_bounds [OF Some [unfolded r]] True by linarith
      from less.prems True Some r consider "e = Minus2"
        | v v1 where "rsp_unprotect_mac_only M (Buf ev) t (Some (length ev)) v = (Inl e, v1)"
        | v v1 where "rsp_unprotect M (Buf ev) t (Some (length ev)) v = (Inl e, v1)"
        | v where "verify_and_advance M A val (p + en) tag t mo v = (Inl e, w')"
        by (subst (asm) verify_and_advance.simps) (auto simp: cm_run split: if_splits)
      then show ?thesis
      proof cases
        case 2
        from unprotect_mac_only_fail [OF 2] show ?thesis by blast
      next
        case 3
        from unprotect_fail [OF 3] show ?thesis by blast
      next
        case 4
        from less.hyps [OF d 4] show ?thesis .
      qed simp
    qed
  qed
qed

lemma recover86_code:
  assumes "recover86_loop M A val p g k w = (Inl e, w')" "gb_ok g" "length (gb_bytes g) \<le> p" "length val \<le> 2 ^ 63"
  shows "e \<in> {Minus1, Minus2}"
  using assms
proof (induction "length val - p" arbitrary: p g k w rule: less_induct)
  case less
  show ?case
  proof (cases "p < length val")
    case False
    with less.prems show ?thesis by (simp add: recover86_loop.simps cm_run)
  next
    case True
    show ?thesis
    proof (cases "read_tlv A (drop p val)")
      case None
      with True less.prems show ?thesis by (simp add: recover86_loop.simps cm_run)
    next
      case (Some r)
      obtain en et ev where r: "r = (en, et, ev)" by (cases r)
      note b = read_tlv_bounds [OF Some [unfolded r]]
      have d: "length val - (p + en) < length val - p" using b True by linarith
      have app: "e = Minus1" if "rsp_unprotect M (Buf ev) 0x86 (Some (length ev)) v = (Inr plain, v1)"
          "rsp_growbuf_append g plain v1 = (Inl e, v2)" for v plain v1 v2 e
      proof (rule growbuf_append_code [OF less.prems(2) _ that(2)])
        have "length plain \<le> length ev" by (rule unprotect_length [OF that(1)])
        then have "length (gb_bytes g) + length plain \<le> length val"
          using b less.prems(3) True unfolding length_drop by linarith
        then show "length (gb_bytes g) + length plain \<le> 2 ^ 63" using less.prems(4) by linarith
      qed
      have next1: "gb_ok g1 \<and> length (gb_bytes g1) \<le> p + en"
        if "rsp_unprotect M (Buf ev) 0x86 (Some (length ev)) v = (Inr plain, v1)"
          "rsp_growbuf_append g plain v1 = (Inr g1, v2)" for v plain v1 v2 g1
        using growbuf_append_run [OF less.prems(2) that(2)] unprotect_length [OF that(1)] b less.prems(3)
        by auto
      from less.prems(1) True Some r consider "e = Minus2"
        | v v1 where "rsp_unprotect M (Buf ev) 0x86 (Some (length ev)) v = (Inl e, v1)"
        | v plain v1 v2 c where "rsp_unprotect M (Buf ev) 0x86 (Some (length ev)) v = (Inr plain, v1)"
            "rsp_growbuf_append g plain v1 = (Inl c, v2)" "e = (if c = Minus1 \<or> c = Minus2 then Minus2 else c)"
        | v plain v1 v2 g1 where "rsp_unprotect M (Buf ev) 0x86 (Some (length ev)) v = (Inr plain, v1)"
            "rsp_growbuf_append g plain v1 = (Inr g1, v2)"
            "recover86_loop M A val (p + en) g1 (Suc k) v2 = (Inl e, w')"
        by (subst (asm) recover86_loop.simps) (auto simp: cm_run split: if_splits)
      then show ?thesis
      proof cases
        case 2
        from unprotect_fail [OF 2] show ?thesis by blast
      next
        case 3
        then show ?thesis using app [OF 3(1,2)] by simp
      next
        case 4
        from next1 [OF 4(1,2)] less.hyps [OF d 4(3) _ _ less.prems(4)] show ?thesis by blast
      qed simp
    qed
  qed
qed

lemma recover_code:
  assumes "rsp_bpp_recover M A bpp ok w = (Inl e, w')" "clen bpp \<le> 2 ^ 63"
  shows "e \<in> {Minus1, Minus2}"
proof (cases bpp)
  case (Null n)
  with assms show ?thesis by (auto simp: rsp_bpp_recover_def cm_run)
next
  case (Buf b)
  have len: "length v86 \<le> 2 ^ 63"
    if "read_tlv A b = Some (n, t, content)" "read_tlv A (drop pos content) = Some (m, u, v86)"
    for n t content pos m u v86
    using read_tlv_bounds [OF that(1)] read_tlv_bounds [OF that(2)] assms(2)
    unfolding Buf length_drop clen.simps by linarith
  from assms(1) Buf consider "e = Minus2"
    | v1 val tag t mo v2 where "verify_and_advance M A val 0 tag t mo v1 = (Inl e, v2)"
    | n t content pos m u v86 v1 v2 where "read_tlv A b = Some (n, t, content)"
        "read_tlv A (drop pos content) = Some (m, u, v86)"
        "recover86_loop M A v86 0 empty_growbuf 0 v1 = (Inl e, v2)"
    unfolding rsp_bpp_recover_def Let_def by (auto simp: cm_run split: prod.splits)
  then show ?thesis
  proof cases
    case 2
    then show ?thesis by (rule verify_and_advance_code)
  next
    case 3
    from recover86_code [OF 3(3) gb_ok_empty(1)] len [OF 3(1,2)] show ?thesis by simp
  qed simp
qed

end
