(* ===== verification/Download.thy ===== *)
theory Download
  imports Auth Recover
begin

text \<open>
  \<open>rsp_dp_get_bound_profile_package\<close> of \<open>src/rsp_es9.c\<close> and its helpers
  \<open>derive_public_key\<close>, \<open>eid_digits_to_octets\<close> and \<open>build_shared_info\<close>. The session and the
  package pointer are the \<open>loc\<close> part of the state. A successful call is described by
  \<open>download_checked\<close> and \<open>download_of\<close>; \<open>ecdh_laws\<close> is the agreement property of ECDH, under which the eUICC
  derives the same session keys.
\<close>

unbundle bit_operations_syntax

definition derive_public_key ::
  "('c, 'g, 'p, 'k) mbedtls \<Rightarrow> bytes \<Rightarrow> ('x, bytes) cm" where
  "derive_public_key M sk =
     bnd (recode Minus1 rsp_rng_init) (\<lambda>_.
     bnd (ext Minus1 (Some ())) (\<lambda>_.
     bnd (ext Minus1 (Some (m_mpi_read M sk))) (\<lambda>d.
     bnd (ext Minus1 (m_mul_g M (m_p256 M) d)) (\<lambda>q.
     bnd (ext Minus1 (m_point_write M (m_p256 M) q)) (\<lambda>pk.
     bnd (ensure (length pk = 65) Minus1) (\<lambda>_. ret pk))))))"

text \<open>The loop \<open>for (i = 0; i < out_cap; i++)\<close>, one octet from two digits.\<close>

fun eid_loop :: "bytes \<Rightarrow> nat \<Rightarrow> nat \<Rightarrow> ('x, bytes) cm" where
  "eid_loop eid i 0 = ret []"
| "eid_loop eid i (Suc n) =
     bnd (rd eid (2 * i)) (\<lambda>hi.
     bnd (rd eid (2 * i + 1)) (\<lambda>lo.
     bnd (ensure (\<not> (hi < 0x30 \<or> hi > 0x39 \<or> lo < 0x30 \<or> lo > 0x39)) Minus1) (\<lambda>_.
     bnd (eid_loop eid (Suc i) n) (\<lambda>out.
     ret ((push_bit 4 (hi - 0x30) OR (lo - 0x30)) # out)))))"

definition eid_digits_to_octets :: "bytes \<Rightarrow> nat \<Rightarrow> nat \<Rightarrow> ('x, bytes) cm" where
  "eid_digits_to_octets eid eid_len out_cap =
     bnd (ensure (eid_len = out_cap * 2) Minus1) (\<lambda>_. eid_loop eid 0 out_cap)"

definition build_shared_info :: "bytes \<Rightarrow> bytes \<Rightarrow> nat \<Rightarrow> bytes option" where
  "build_shared_info host_id eid out_cap =
     (let n = 2 + 1 + length host_id + 1 + length eid in
      if length host_id > 0xFF \<or> length eid > 0xFF \<or> n > out_cap then None
      else Some ([0x88, 0x10, word_of_nat (length host_id)] @ host_id @ [word_of_nat (length eid)] @ eid))"

record download_out =
  do_session :: "rsp_dp_session option"
  do_bpp :: cbuf

text \<open>The checks on the eUICC's PrepareDownloadResponse; the result is its EuiccSigned2.\<close>

definition download_verify ::
  "('c, 'g, 'p, 'k) mbedtls \<Rightarrow> 'a asn1c \<Rightarrow> rsp_dp_session \<Rightarrow> bytes \<Rightarrow> ('x, euicc_signed2) cm" where
  "download_verify M A s prepare_download_resp =
     bnd (ext Minus2 (a_dec_prepare_download A prepare_download_resp)) (\<lambda>resp.
     bnd (case resp of DownloadResponseOk rok \<Rightarrow> ret rok | DownloadResponseError \<Rightarrow> stop_with Minus2) (\<lambda>rok.
     let es2 = pd_euiccSigned2 rok in
     bnd (ensure (\<not> (length (es2_transactionId es2) \<noteq> 16 \<or> es2_transactionId es2 \<noteq> ss_transaction_id s)) Minus1) (\<lambda>_.
     bnd (recode Minus2 (der_encode_alloc (a_enc_euicc_signed2 A es2))) (\<lambda>es2_der.
     bnd (ensure (length (pd_euiccSignature2 rok) = 64) Minus2) (\<lambda>_.
     bnd (malloc Minus2 (length es2_der + 3 + 64)) (\<lambda>_.
     let tbs = es2_der @ [0x5F, 0x37, 64] @ take 64 (ss_smdp_signature2 s) in
     bnd (read_ptr (ss_euicc_cert s) (ss_euicc_cert_len s)) (\<lambda>cert.
     bnd (rsp_sign_verify M cert (Buf tbs) (Some (pd_euiccSignature2 rok))) (\<lambda>_.
     bnd (ensure (length (es2_euiccOtpk es2) = 65) Minus2) (\<lambda>_.
     ret es2)))))))))"

text \<open>The session keys and the one-time public key.\<close>

definition download_keys ::
  "('c, 'g, 'p, 'k) mbedtls \<Rightarrow> rsp_dp_session \<Rightarrow> bytes \<Rightarrow> bytes \<Rightarrow> ('x, rsp_session option \<times> bytes) cm" where
  "download_keys M s otpk_euicc otsk_dp =
     bnd (recode Minus2 (eid_digits_to_octets (ss_eid s) (ss_eid_len s) 16)) (\<lambda>eid_octets.
     bnd (lift_opt Minus2 (build_shared_info RSP_HOST_ID eid_octets (2 + 1 + length RSP_HOST_ID + 1 + 32))) (\<lambda>shared_info.
     bnd (recode Minus2 (nested (Some zero_session)
            (rsp_session_init M (Some otsk_dp) (Some otpk_euicc) (Buf shared_info)))) (\<lambda>(_, session).
     bnd (recode Minus2 (derive_public_key M otsk_dp)) (\<lambda>otpk_dp.
     ret (session, otpk_dp)))))"

text \<open>The package is built with the DPpb credential and the metadata of the session, and the keys are
  kept.\<close>

definition download_bind ::
  "('c, 'g, 'p, 'k) mbedtls \<Rightarrow> 'a asn1c \<Rightarrow> sgp26 \<Rightarrow> download_out \<Rightarrow> rsp_dp_session \<Rightarrow> cbuf \<Rightarrow> bytes \<Rightarrow>
   rsp_session option \<Rightarrow> bytes \<Rightarrow> (download_out, unit) cm" where
  "download_bind M A S lo s upp euicc_otpk session otpk_dp =
     bnd (recode Minus2 (nested (Some zero_credential) (rsp_pki_dp M S 1))) (\<lambda>(_, dppb).
     bnd (read_ptr (ss_metadata s) (ss_metadata_len s)) (\<lambda>metadata.
     bnd (recode Minus2 (nested session (rsp_bpp_build M A (Some
            \<lparr>bi_upp = upp, bi_otpk_dp = Some otpk_dp, bi_metadata = metadata,
             bi_transaction_id = Some (ss_transaction_id s),
             bi_euicc_otpk = Some euicc_otpk, bi_dppb = dppb\<rparr>) True))) (\<lambda>(bpp, session).
     set_loc (lo\<lparr>do_bpp := Buf bpp,
       do_session := Some (s\<lparr>ss_bpp_session := the session, ss_have_bpp_session := True\<rparr>)\<rparr>))))"

definition rsp_dp_get_bound_profile_package ::
  "('c, 'g, 'p, 'k) mbedtls \<Rightarrow> 'a asn1c \<Rightarrow> sgp26 \<Rightarrow> cbuf \<Rightarrow> cbuf \<Rightarrow> bytes option \<Rightarrow> bool \<Rightarrow> (download_out, unit) cm" where
  "rsp_dp_get_bound_profile_package M A S prepare_download_resp upp otsk_dp out_ok =
     bnd get_loc (\<lambda>lo.
     bnd (ensure (\<not> (do_session lo = None \<or> is_null prepare_download_resp \<or> clen prepare_download_resp = 0 \<or>
            is_null upp \<or> clen upp = 0 \<or> otsk_dp = None \<or> \<not> out_ok)) Minus2) (\<lambda>_.
     let s = the (do_session lo) in
     bnd (ensure (ss_authenticated s) Minus2) (\<lambda>_.
     bnd (download_verify M A s (cdata prepare_download_resp)) (\<lambda>es2.
     bnd (download_keys M s (es2_euiccOtpk es2) (the otsk_dp)) (\<lambda>(session, otpk_dp).
     download_bind M A S lo s upp (es2_euiccOtpk es2) session otpk_dp)))))"

section \<open>The EID and the SharedInfo\<close>

text \<open>Two digits make one octet, the first in the high nibble: read back in hexadecimal, the
  octets are the digits.\<close>

definition nibbles :: "u8 \<Rightarrow> bytes" where
  "nibbles b = [drop_bit 4 b + 0x30, (b AND 0x0F) + 0x30]"

definition is_digit :: "u8 \<Rightarrow> bool" where
  "is_digit c \<longleftrightarrow> 0x30 \<le> c \<and> c \<le> 0x39"

lemma digit_cases:
  assumes "is_digit c"
  shows "c \<in> {0x30, 0x31, 0x32, 0x33, 0x34, 0x35, 0x36, 0x37, 0x38, 0x39}"
proof -
  from assms have "48 \<le> unat c" "unat c \<le> 57" by (simp_all add: is_digit_def word_le_nat_alt)
  then have "unat c = 48 \<or> unat c = 49 \<or> unat c = 50 \<or> unat c = 51 \<or> unat c = 52 \<or> unat c = 53 \<or>
      unat c = 54 \<or> unat c = 55 \<or> unat c = 56 \<or> unat c = 57" by presburger
  then show ?thesis by (simp add: word_unat_eq_iff)
qed

lemma nibbles_pack:
  assumes "is_digit hi" "is_digit lo"
  shows "nibbles (push_bit 4 (hi - 0x30) OR (lo - 0x30)) = [hi, lo]"
  using digit_cases [OF assms(1)] digit_cases [OF assms(2)] by (auto simp: nibbles_def)

lemma eid_loop_wp:
  assumes "2 * (i + n) \<le> length eid"
  shows "wp (eid_loop eid i n)
    (\<lambda>out w'. w' = w \<and> length out = n \<and> concat (map nibbles out) = take (2 * n) (drop (2 * i) eid) \<and>
        list_all is_digit (take (2 * n) (drop (2 * i) eid)))
    (\<lambda>e w'. e = Minus1 \<and> w' = w \<and> \<not> list_all is_digit (take (2 * n) (drop (2 * i) eid))) w"
  using assms
proof (induction n arbitrary: i)
  case 0
  then show ?case by (simp add: wp_simps)
next
  case (Suc n)
  define hi lo where "hi = eid ! (2 * i)" and "lo = eid ! Suc (2 * i)"
  have t: "take (2 * Suc n) (drop (2 * i) eid) = hi # lo # take (2 * n) (drop (2 * Suc i) eid)"
    using Suc.prems by (simp add: hi_def lo_def Cons_nth_drop_Suc [symmetric])
  have d: "(\<not> (hi < 0x30 \<or> hi > 0x39 \<or> lo < 0x30 \<or> lo > 0x39)) \<longleftrightarrow> is_digit hi \<and> is_digit lo"
    by (auto simp: is_digit_def)
  have "2 * (Suc i + n) \<le> length eid" using Suc.prems by simp
  note IH = Suc.IH [OF this]
  have r: "2 * i < length eid" "2 * i + 1 < length eid" using Suc.prems by simp_all
  show ?case
  proof (cases "is_digit hi \<and> is_digit lo")
    case True
    show ?thesis
      unfolding eid_loop.simps t hi_def [symmetric] lo_def [symmetric]
      using True r d
      by (simp add: wp_simps hi_def [symmetric] lo_def [symmetric])
        (rule wp_mono [OF IH]; simp add: nibbles_pack wp_ret)
  next
    case False
    with r d show ?thesis
      unfolding t by (auto simp: wp_simps hi_def [symmetric] lo_def [symmetric])
  qed
qed

text \<open>The octets whose hexadecimal digits are the EID's decimal ones.\<close>

definition eid_packed :: "bytes \<Rightarrow> bytes \<Rightarrow> bool" where
  "eid_packed digits octets \<longleftrightarrow> length octets = 16 \<and> concat (map nibbles octets) = digits \<and> list_all is_digit digits"

lemma eid_octets_wp:
  assumes "length eid = 32" "n \<le> 32"
  shows "wp (eid_digits_to_octets eid n 16) (\<lambda>out w'. w' = w \<and> n = 32 \<and> eid_packed eid out)
    (\<lambda>e w'. e = Minus1 \<and> w' = w \<and> (n \<noteq> 32 \<or> \<not> list_all is_digit eid)) w"
  using assms eid_loop_wp [of 0 16 eid w]
  by (auto simp: eid_digits_to_octets_def wp_simps eid_packed_def elim!: wp_mono)

text \<open>There is only one such octet string.\<close>

lemma nibbles_inject: "nibbles a = nibbles b \<longleftrightarrow> a = b"
proof
  assume "nibbles a = nibbles b"
  then have h: "drop_bit 4 a = drop_bit 4 b" and l: "take_bit 4 a = take_bit 4 b"
    by (simp_all add: nibbles_def take_bit_eq_mask mask_eq_decr_exp)
  from h l have "push_bit 4 (drop_bit 4 a) + take_bit 4 a = push_bit 4 (drop_bit 4 b) + take_bit 4 b" by simp
  then show "a = b" unfolding bits_ident .
qed simp

lemma eid_packed_unique:
  assumes "eid_packed digits x" "eid_packed digits y"
  shows "x = y"
proof -
  have "concat (map nibbles x) = concat (map nibbles y) \<Longrightarrow> length x = length y \<Longrightarrow> x = y" for x y
  proof (induction x y rule: list_induct2')
    case (4 a as b bs)
    then have "nibbles a = nibbles b" "concat (map nibbles as) = concat (map nibbles bs)"
      by (simp_all add: nibbles_def)
    with 4 show ?case by (simp add: nibbles_inject)
  qed simp_all
  with assms show ?thesis by (simp add: eid_packed_def)
qed

lemma eid_octets_ok:
  assumes "length eid = 32" "eid_packed eid octets"
  shows "eid_digits_to_octets eid 32 16 w = (Inr octets, w)"
proof (cases "eid_digits_to_octets eid 32 16 w")
  case (Pair r w')
  show ?thesis
  proof (cases r)
    case (Inl e)
    with wp_Inl [OF eid_octets_wp [OF assms(1)], of 32 w e w'] Pair assms(2) show ?thesis
      by (simp add: eid_packed_def)
  next
    case (Inr out)
    with wp_Inr [OF eid_octets_wp [OF assms(1)], of 32 w out w'] Pair
    have "w' = w" "eid_packed eid out" by simp_all
    with eid_packed_unique [OF assms(2)] Pair Inr show ?thesis by auto
  qed
qed

text \<open>Annex G's SharedInfo for the fixed Host ID.\<close>

definition shared_info_of :: "bytes \<Rightarrow> bytes" where
  "shared_info_of octets = [0x88, 0x10, 9] @ RSP_HOST_ID @ [16] @ octets"

lemma shared_info_value:
  "length octets = 16 \<Longrightarrow> 29 \<le> cap \<Longrightarrow> build_shared_info RSP_HOST_ID octets cap = Some (shared_info_of octets)"
  by (simp add: build_shared_info_def shared_info_of_def RSP_HOST_ID_def)

lemma shared_info_refused:
  "build_shared_info host eid cap = None \<longleftrightarrow>
     255 < length host \<or> 255 < length eid \<or> cap < 4 + length host + length eid"
  by (auto simp: build_shared_info_def Let_def)

section \<open>The one-time key pair and the session keys\<close>

definition public_key :: "('c, 'g, 'p, 'k) mbedtls \<Rightarrow> bytes \<Rightarrow> bytes option" where
  "public_key M sk = Option.bind (m_mul_g M (m_p256 M) (m_mpi_read M sk)) (m_point_write M (m_p256 M))"

lemma keeps_derive [keeps_intros]: "keeps (derive_public_key M sk)"
  unfolding derive_public_key_def by (intro keeps_intros)

lemma derive_public_key_run:
  "derive_public_key M sk w = (Inr pk, w') \<Longrightarrow> public_key M sk = Some pk \<and> length pk = 65"
  by (auto simp: derive_public_key_def public_key_def cm_run)

lemma derive_public_key_ok:
  "faults w = [] \<Longrightarrow> public_key M sk = Some pk \<Longrightarrow> length pk = 65 \<Longrightarrow>
     derive_public_key M sk w = (Inr pk, w)"
  by (auto simp: derive_public_key_def public_key_def bind_eq_Some_conv bnd_def recode_def ensure_def ret_def)

definition session_keys :: "('c, 'g, 'p, 'k) mbedtls \<Rightarrow> bytes \<Rightarrow> bytes \<Rightarrow> bytes \<Rightarrow> rsp_session option" where
  "session_keys M sk pk octets =
     map_option (\<lambda>z. session_of (kdf_value M z (shared_info_of octets) 48)) (ecdh_value M sk pk)"

lemma eid_loop_keeps: "keeps (eid_loop eid i n)"
  by (induction n arbitrary: i) (auto intro!: keeps_intros)

lemma keeps_download_keys [keeps_intros]: "keeps (download_keys M s pk sk)"
  unfolding download_keys_def eid_digits_to_octets_def
  by (intro keeps_intros eid_loop_keeps)

lemma download_keys_run:
  fixes w :: "'x st"
  assumes "download_keys M s pk sk w = (Inr (sess, otpk), w')" "hash_laws M"
    and "length (ss_eid s) = 32" "ss_eid_len s \<le> 32"
  obtains octets bs where "eid_packed (ss_eid s) octets" "ss_eid_len s = 32"
    "session_keys M sk pk octets = Some bs" "sess = Some bs" "public_key M sk = Some otpk" "length otpk = 65"
proof -
  from assms(1) obtain octets w1 si w2 v and w3 :: "'x st" where
    1: "eid_digits_to_octets (ss_eid s) (ss_eid_len s) 16 w = (Inr octets, w1)" and
    2: "build_shared_info RSP_HOST_ID octets (2 + 1 + length RSP_HOST_ID + 1 + 32) = Some si" and
    3: "rsp_session_init M (Some sk) (Some pk) (Buf si) \<lparr>faults = faults w1, loc = Some zero_session\<rparr> = (Inr (), v)" and
    4: "sess = loc v" "derive_public_key M sk w3 = (Inr otpk, w2)"
    by (auto simp: download_keys_def cm_run)
  from wp_Inr [OF eid_octets_wp [OF assms(3,4)] 1] have e: "ss_eid_len s = 32" "eid_packed (ss_eid s) octets" by auto
  then have si: "si = shared_info_of octets" using 2 by (simp add: shared_info_value eid_packed_def)
  obtain z where "ecdh_value M sk pk = Some z" "loc v = Some (session_of (kdf_value M z si 48))"
    by (rule session_init_run [OF 3 assms(2)])
  then show ?thesis
    using that e si 4(1) derive_public_key_run [OF 4(2)] by (simp add: session_keys_def)
qed

section \<open>What a successful download did\<close>

text \<open>The checks on the eUICC's answer: it names this session's transaction, and its signature, over
  the signed data and the TLV of the session's smdpSignature2, is good under the certificate that
  authenticated.\<close>

definition download_checked ::
  "('c, 'g, 'p, 'k) mbedtls \<Rightarrow> 'a asn1c \<Rightarrow> rsp_dp_session \<Rightarrow> download_ok \<Rightarrow> bool" where
  "download_checked M A s rok \<longleftrightarrow>
     es2_transactionId (pd_euiccSigned2 rok) = ss_transaction_id s \<and>
     (case (a_enc_euicc_signed2 A (pd_euiccSigned2 rok), ss_euicc_cert s) of
        (Some bs, Owned cert) \<Rightarrow>
          signature_good M cert (concat bs @ tlv [0x5F, 0x37] (ss_smdp_signature2 s)) (pd_euiccSignature2 rok)
      | _ \<Rightarrow> False) \<and>
     length (pd_euiccSignature2 rok) = 64 \<and> length (es2_euiccOtpk (pd_euiccSigned2 rok)) = 65"

definition download_input :: "rsp_dp_session \<Rightarrow> euicc_signed2 \<Rightarrow> bytes \<Rightarrow> bytes \<Rightarrow> rsp_credential \<Rightarrow> rsp_bpp_input" where
  "download_input s es2 upp otpk c = \<lparr>bi_upp = Buf upp, bi_otpk_dp = Some otpk,
     bi_metadata = (case ss_metadata s of Owned md \<Rightarrow> Buf md | _ \<Rightarrow> Null 0),
     bi_transaction_id = Some (ss_transaction_id s), bi_euicc_otpk = Some (es2_euiccOtpk es2), bi_dppb = Some c\<rparr>"

text \<open>The package for this session, response, profile and one-time key, and the SCP03t session
  after it.\<close>

definition download_of ::
  "('c, 'g, 'p, 'k) mbedtls \<Rightarrow> 'a asn1c \<Rightarrow> sgp26 \<Rightarrow> rsp_dp_session \<Rightarrow> euicc_signed2 \<Rightarrow> bytes \<Rightarrow> bytes \<Rightarrow> bytes \<Rightarrow>
   (bytes \<times> rsp_session) option" where
  "download_of M A S s es2 octets upp sk =
     Option.bind (session_keys M sk (es2_euiccOtpk es2) octets) (\<lambda>ks.
     Option.bind (public_key M sk) (\<lambda>otpk.
     Option.bind (dp_credential M S 1) (\<lambda>c.
     bpp_of M A ks (download_input s es2 upp otpk c))))"

definition download_commit :: "rsp_dp_session \<Rightarrow> rsp_session \<Rightarrow> rsp_dp_session" where
  "download_commit s ks = s\<lparr>ss_bpp_session := ks, ss_have_bpp_session := True\<rparr>"

lemma download_ok_case [cm_run]:
  "(case r of DownloadResponseOk rok \<Rightarrow> ret rok | DownloadResponseError \<Rightarrow> stop_with e) w = (Inr x, w')
     \<longleftrightarrow> r = DownloadResponseOk x \<and> w' = w"
  by (cases r) (auto simp: cm_run)

lemma download_verify_run:
  fixes w :: "'x st"
  assumes "download_verify M A s resp w = (Inr es2, w')" "session_ok s" "ss_authenticated s"
  obtains rok where "a_dec_prepare_download A resp = Some (DownloadResponseOk rok)"
    "es2 = pd_euiccSigned2 rok" "download_checked M A s rok"
proof -
  obtain cert where c: "ss_euicc_cert s = Owned cert" "ss_euicc_cert_len s = length cert"
      "length (ss_smdp_signature2 s) = 64"
    by (rule session_ok_owned [OF assms(2,3)])
  from assms(1) c obtain rok and w0 :: "'x st" and der w1 and w2 :: "'x st" and w3 where
    1: "a_dec_prepare_download A resp = Some (DownloadResponseOk rok)" "es2 = pd_euiccSigned2 rok"
      "es2_transactionId es2 = ss_transaction_id s" "length (pd_euiccSignature2 rok) = 64"
      "length (es2_euiccOtpk es2) = 65" and
    2: "der_encode_alloc (a_enc_euicc_signed2 A es2) w0 = (Inr der, w1)" and
    3: "rsp_sign_verify M (Buf cert) (Buf (der @ [0x5F, 0x37, 64] @ ss_smdp_signature2 s))
          (Some (pd_euiccSignature2 rok)) w2 = (Inr (), w3)"
    unfolding download_verify_def Let_def read_ptr_def
    by (auto simp: cm_run)
  from der_encode_run [OF 2] verify_run [OF 3] c 1 show ?thesis
    by (intro that [OF 1(1,2)]) (auto simp: download_checked_def tlv_sig)
qed

lemma keeps_download_verify: "keeps (download_verify M A s resp)"
  unfolding download_verify_def Let_def
  by (intro keeps_intros) (simp split: prepare_download_response.split add: keeps_intros)

lemma download_run:
  assumes run: "rsp_dp_get_bound_profile_package M A S resp upp sk ok w = (Inr u, w')"
    and s: "do_session (loc w) = Some s" "session_ok s" and M: "cipher_laws M" "hash_laws M"
  obtains rok k octets bpp ks otpk where "ss_authenticated s" "sk = Some k" "cdata resp \<noteq> []"
    "public_key M k = Some otpk" "length otpk = 65"
    "a_dec_prepare_download A (cdata resp) = Some (DownloadResponseOk rok)" "download_checked M A s rok"
    "eid_packed (ss_eid s) octets" "ss_eid_len s = 32" "cdata upp \<noteq> []" "ss_metadata_len s \<le> 1007"
    "download_of M A S s (pd_euiccSigned2 rok) octets (cdata upp) k = Some (bpp, ks)"
    "do_bpp (loc w') = Buf bpp" "do_session (loc w') = Some (download_commit s ks)"
proof -
  from run s(1) have auth: "ss_authenticated s"
    by (auto simp: rsp_dp_get_bound_profile_package_def download_bind_def Let_def cm_run)
  obtain md where md: "ss_metadata s = Owned md" "ss_metadata_len s = length md" "length (ss_eid s) = 32" "ss_eid_len s \<le> 32"
    by (rule session_ok_owned [OF s(2) auth])
  from run s(1) md(1,2) obtain k es2 w1 sess otpk w2 v w4 bpp w5 where
    k: "sk = Some k" "cdata resp \<noteq> []" and u: "upp = Buf (cdata upp)" and
    1: "download_verify M A s (cdata resp) w = (Inr es2, w1)" and
    2: "download_keys M s (es2_euiccOtpk es2) k w1 = (Inr (sess, otpk), w2)" and
    3: "rsp_pki_dp M S 1 \<lparr>faults = faults w2, loc = Some zero_credential\<rparr> = (Inr (), v)" and
    4: "rsp_bpp_build M A (Some \<lparr>bi_upp = upp, bi_otpk_dp = Some otpk, bi_metadata = Buf md,
         bi_transaction_id = Some (ss_transaction_id s), bi_euicc_otpk = Some (es2_euiccOtpk es2), bi_dppb = loc v\<rparr>)
         True w4 = (Inr bpp, w5)" "loc w4 = sess" and
    5: "do_bpp (loc w') = Buf bpp" "do_session (loc w') = Some (download_commit s (the (loc w5)))"
    unfolding rsp_dp_get_bound_profile_package_def download_bind_def Let_def read_ptr_def download_commit_def
    by (cases upp; cases resp) (auto simp: cm_run)
  obtain rok where r: "a_dec_prepare_download A (cdata resp) = Some (DownloadResponseOk rok)"
      "es2 = pd_euiccSigned2 rok" "download_checked M A s rok"
    by (rule download_verify_run [OF 1 s(2) auth])
  obtain octets ks where ke: "eid_packed (ss_eid s) octets" "ss_eid_len s = 32"
    "session_keys M k (es2_euiccOtpk es2) octets = Some ks" "sess = Some ks" "public_key M k = Some otpk" "length otpk = 65"
    by (rule download_keys_run [OF 2 M(2) md(3,4)])
  from pki_dp_value [OF 3] obtain c where c: "loc v = Some c" "dp_credential M S 1 = Some c" by (metis not_None_eq)
  have wf: "session_wf ks"
    using ke(3) by (auto simp: session_keys_def session_of_wf length_kdf_value [OF M(2)])
  obtain ks' where b: "bpp_of M A ks (download_input s es2 (cdata upp) otpk c) = Some (bpp, ks')" "loc w5 = Some ks'"
    and l: "cdata upp \<noteq> []" "length md \<le> 1007"
    by (rule bpp_build_run [OF 4(1) _ wf M(1)]) (use 4(2) ke(4) md(1) c(1) u in \<open>auto simp: download_input_def\<close>)
  show ?thesis
    by (rule that [OF auth k ke(5,6) r(1,3) ke(1,2) l(1) _ _ 5(1)]) (use ke c b r(2) 5(2) md l in \<open>simp_all add: download_of_def\<close>)
qed

text \<open>A failing call leaves the session and the caller's pointer alone.\<close>

lemma download_fail:
  assumes "rsp_dp_get_bound_profile_package M A S resp upp sk ok w = (Inl e, w')"
  shows "loc w' = loc w"
  using assms unfolding rsp_dp_get_bound_profile_package_def download_bind_def Let_def
  by (auto simp: cm_run dest!: keepsD [OF keeps_download_verify] keepsD [OF keeps_download_keys] keepsD [OF keeps_read_ptr])

lemma download_needs_authentication:
  assumes "do_session (loc w) = Some s" "\<not> ss_authenticated s"
  shows "rsp_dp_get_bound_profile_package M A S resp upp sk ok w = (Inl Minus2, w)"
  using assms by (auto simp: rsp_dp_get_bound_profile_package_def download_bind_def Let_def bnd_def get_loc_def ensure_def ret_def stop_with_def)

section \<open>A good answer gets its package\<close>

lemma session_keys_init:
  assumes M: "hash_laws M" "ecdsa_laws M" and f: "faults v = []" "loc v = Some s0"
    and k: "session_keys M sk pk octets = Some ks" "length octets = 16"
  shows "rsp_session_init M (Some sk) (Some pk) (Buf (shared_info_of octets)) v = (Inr (), v\<lparr>loc := Some ks\<rparr>)"
proof -
  from k(1) obtain z where z: "ecdh_value M sk pk = Some z" "ks = session_of (kdf_value M z (shared_info_of octets) 48)"
    by (auto simp: session_keys_def)
  have "length z = 32"
    using z(1) M(2) by (auto simp: ecdh_value_def ecdsa_laws_def bind_eq_Some_conv)
  then have "length z + 4 + length (shared_info_of octets) \<le> size_max"
    using k(2) by (simp add: shared_info_of_def RSP_HOST_ID_def size_max_def)
  from session_init_ok [OF M(1) f z(1) this] z(2) show ?thesis by simp
qed

lemma download_verify_ok:
  assumes f: "faults w = []" "enc_laws A" and s: "session_ok s" "ss_authenticated s"
    and r: "a_dec_prepare_download A resp = Some (DownloadResponseOk rok)" "download_checked M A s rok"
  shows "download_verify M A s resp w = (Inr (pd_euiccSigned2 rok), w)"
proof -
  obtain cert where c: "ss_euicc_cert s = Owned cert" "ss_euicc_cert_len s = length cert"
      "length (ss_smdp_signature2 s) = 64" "length (ss_transaction_id s) = 16"
    by (rule session_ok_owned [OF s])
  from r(2) c obtain bs where b: "a_enc_euicc_signed2 A (pd_euiccSigned2 rok) = Some bs"
    "signature_good M cert (concat bs @ [0x5F, 0x37, 64] @ ss_smdp_signature2 s) (pd_euiccSignature2 rok)"
    "es2_transactionId (pd_euiccSigned2 rok) = ss_transaction_id s" "length (pd_euiccSignature2 rok) = 64"
    "length (es2_euiccOtpk (pd_euiccSigned2 rok)) = 65"
    by (auto simp: download_checked_def tlv_sig split: option.splits)
  have e: "bounded_enc (a_enc_euicc_signed2 A)" using f(2) by (simp add: enc_laws_def)
  show ?thesis
    using f(1) r(1) b(1,3-5) c signature_good_ok [OF f(1) b(2)]
    by (simp add: download_verify_def Let_def read_ptr_def bnd_def recode_def ensure_def ret_def
        der_encode_some [OF e b(1)])
qed

lemma download_keys_ok:
  assumes f: "faults w = []" "hash_laws M" "ecdsa_laws M"
    and e: "length (ss_eid s) = 32" "ss_eid_len s = 32" "eid_packed (ss_eid s) octets"
    and k: "session_keys M sk pk octets = Some ks" "public_key M sk = Some otpk" "length otpk = 65"
  shows "download_keys M s pk sk w = (Inr (Some ks, otpk), w)"
proof -
  have o: "length octets = 16" using e(3) by (simp add: eid_packed_def)
  have i: "rsp_session_init M (Some sk) (Some pk) (Buf (shared_info_of octets)) \<lparr>faults = [], loc = Some zero_session\<rparr>
      = (Inr (), \<lparr>faults = [], loc = Some ks\<rparr>)"
    using session_keys_init [OF f(2,3) _ _ k(1) o, of "\<lparr>faults = [], loc = Some zero_session\<rparr>"] by simp
  show ?thesis
    using f(1) i derive_public_key_ok [OF f(1) k(2,3)]
    by (simp add: download_keys_def e(2) eid_octets_ok [OF e(1,3)] shared_info_value [OF o] lift_opt_def
        bnd_def recode_def nested_def ret_def)
qed

lemma download_ok:
  assumes f: "faults w = []" "enc_laws A" and M: "cipher_laws M" "hash_laws M" "ecdsa_laws M"
    and s: "do_session (loc w) = Some s" "session_ok s" "ss_authenticated s" "ss_metadata_len s \<le> 1007"
    and e: "ss_eid_len s = 32" "eid_packed (ss_eid s) octets"
    and a: "resp \<noteq> []" "upp \<noteq> []" "a_dec_prepare_download A resp = Some (DownloadResponseOk rok)"
      "download_checked M A s rok" "public_key M sk = Some otpk" "length otpk = 65"
    and d: "download_of M A S s (pd_euiccSigned2 rok) octets upp sk = Some (bpp, ks)"
  shows "rsp_dp_get_bound_profile_package M A S (Buf resp) (Buf upp) (Some sk) True w =
    (Inr (), w\<lparr>loc := \<lparr>do_session = Some (download_commit s ks), do_bpp = Buf bpp\<rparr>\<rparr>)"
proof -
  obtain md where md: "ss_metadata s = Owned md" "ss_metadata_len s = length md" "md \<noteq> []"
      "length (ss_eid s) = 32" "length (ss_transaction_id s) = 16"
    by (rule session_ok_owned [OF s(2,3)])
  from d a(5) obtain k0 c where k: "session_keys M sk (es2_euiccOtpk (pd_euiccSigned2 rok)) octets = Some k0"
    "dp_credential M S 1 = Some c" "bpp_of M A k0 (download_input s (pd_euiccSigned2 rok) upp otpk c) = Some (bpp, ks)"
    by (auto simp: download_of_def bind_eq_Some_conv)
  have p: "rsp_pki_dp M S 1 \<lparr>faults = [], loc = Some zero_credential\<rparr> = (Inr (), \<lparr>faults = [], loc = Some c\<rparr>)"
    using pki_dp_ok [of "\<lparr>faults = [], loc = Some zero_credential\<rparr>" 1 M S c] k(2) by simp
  have inp: "download_input s (pd_euiccSigned2 rok) upp otpk c = \<lparr>bi_upp = Buf upp, bi_otpk_dp = Some otpk,
      bi_metadata = Buf md, bi_transaction_id = Some (ss_transaction_id s),
      bi_euicc_otpk = Some (es2_euiccOtpk (pd_euiccSigned2 rok)), bi_dppb = Some c\<rparr>" (is "_ = ?inp")
    by (simp add: download_input_def md)
  have wf: "session_wf k0"
    using k(1) by (auto simp: session_keys_def session_of_wf length_kdf_value [OF M(2)])
  have "input_ok ?inp"
    using md s(4) a(2,4,6) by (simp add: input_ok_def download_checked_def)
  then have b: "rsp_bpp_build M A (Some ?inp) True \<lparr>faults = [], loc = Some k0\<rparr> = (Inr bpp, \<lparr>faults = [], loc = Some ks\<rparr>)"
    using bpp_build_ok [OF _ _ wf M(1), of "\<lparr>faults = [], loc = Some k0\<rparr>" ?inp A bpp ks] k(3) inp by simp
  show ?thesis
    using f(1) s(1,3) a(1,2) md p b download_verify_ok [OF f s(2,3) a(3,4)]
      download_keys_ok [OF f(1) M(2,3) md(4) e k(1) a(5,6)]
    by (simp add: rsp_dp_get_bound_profile_package_def download_bind_def Let_def read_ptr_def bnd_def recode_def nested_def
        ensure_def ret_def get_loc_def set_loc_def download_commit_def)
qed

section \<open>The eUICC recovers the profile\<close>

text \<open>ECDH: a public key survives its encoding, and either side's scalar with the other side's
  point gives the same value.\<close>

definition ecdh_laws :: "('c, 'g, 'p, 'k) mbedtls \<Rightarrow> bool" where
  "ecdh_laws M \<longleftrightarrow>
     (\<forall>d p b. m_mul_g M (m_p256 M) d = Some p \<and> m_point_write M (m_p256 M) p = Some b \<longrightarrow>
        m_point_read M (m_p256 M) b = Some p) \<and>
     (\<forall>d e p q. m_mul_g M (m_p256 M) d = Some p \<and> m_mul_g M (m_p256 M) e = Some q \<longrightarrow>
        m_ecdh M (m_p256 M) q d = m_ecdh M (m_p256 M) p e)"

lemma session_keys_agree:
  assumes "ecdh_laws M" "public_key M a = Some pa" "public_key M b = Some pb"
  shows "session_keys M a pb octets = session_keys M b pa octets"
proof -
  from assms(2,3) obtain p q where
    p: "m_mul_g M (m_p256 M) (m_mpi_read M a) = Some p" "m_point_write M (m_p256 M) p = Some pa" and
    q: "m_mul_g M (m_p256 M) (m_mpi_read M b) = Some q" "m_point_write M (m_p256 M) q = Some pb"
    by (auto simp: public_key_def bind_eq_Some_conv)
  have "m_point_read M (m_p256 M) pa = Some p" "m_point_read M (m_p256 M) pb = Some q"
    "m_ecdh M (m_p256 M) q (m_mpi_read M a) = m_ecdh M (m_p256 M) p (m_mpi_read M b)"
    using assms(1) p q unfolding ecdh_laws_def by blast+
  then show ?thesis by (simp add: session_keys_def ecdh_value_def)
qed

text \<open>The eUICC's own steps: its half of the key derivation over the EID it has, then the
  recovery. They start from the same session and end in the one the SM-DP+ keeps.\<close>

lemma download_recovered:
  assumes d: "download_of M A S s es2 octets upp sk = Some (bpp, ks)" "eid_packed (ss_eid s) octets"
    and M: "cipher_laws M" "hash_laws M" "ecdsa_laws M" "ecdh_laws M" and A: "ber_laws A" "isc_codec_law A"
    and s: "session_ok s" "ss_authenticated s" "ss_metadata_len s \<le> 1007" "upp \<noteq> []"
    and e: "public_key M sk_e = Some (es2_euiccOtpk es2)" "length (es2_euiccOtpk es2) = 65"
      "public_key M sk = Some otpk" "length otpk = 65"
    and v: "faults v = []" "loc v = Some s0"
  shows "\<exists>ks0. rsp_session_init M (Some sk_e) (Some otpk) (Buf (shared_info_of octets)) v = (Inr (), v\<lparr>loc := Some ks0\<rparr>) \<and>
    rsp_bpp_recover M A (Buf bpp) True (v\<lparr>loc := Some ks0\<rparr>) = (Inr (Buf upp), v\<lparr>loc := Some ks\<rparr>)"
proof -
  obtain md where md: "ss_metadata s = Owned md" "ss_metadata_len s = length md" "md \<noteq> []"
      "length (ss_transaction_id s) = 16"
    by (rule session_ok_owned [OF s(1,2)])
  from d(1) e(3) obtain k0 c where k: "session_keys M sk (es2_euiccOtpk es2) octets = Some k0"
    "dp_credential M S 1 = Some c" "bpp_of M A k0 (download_input s es2 upp otpk c) = Some (bpp, ks)"
    by (auto simp: download_of_def bind_eq_Some_conv)
  have "input_ok (download_input s es2 upp otpk c)"
    using md s(3,4) e(2,4) by (simp add: input_ok_def download_input_def)
  moreover have "session_wf k0"
    using k(1) by (auto simp: session_keys_def session_of_wf length_kdf_value [OF M(2)])
  moreover have "bi_upp (download_input s es2 upp otpk c) = Buf upp" by (simp add: download_input_def)
  ultimately have "rsp_bpp_recover M A (Buf bpp) True (v\<lparr>loc := Some k0\<rparr>) = (Inr (Buf upp), v\<lparr>loc := Some ks\<rparr>)"
    using recover_built [OF _ _ _ M(1) A _ k(3), of "v\<lparr>loc := Some k0\<rparr>"] v by simp
  moreover have "session_keys M sk_e otpk octets = Some k0"
    using session_keys_agree [OF M(4) e(3,1)] k(1) by simp
  then have "rsp_session_init M (Some sk_e) (Some otpk) (Buf (shared_info_of octets)) v = (Inr (), v\<lparr>loc := Some k0\<rparr>)"
    using session_keys_init [OF M(2,3) v] d(2) by (simp add: eid_packed_def)
  ultimately show ?thesis by blast
qed

end
