(* ===== verification/Notify.thy ===== *)
theory Notify
  imports Auth
begin

text \<open>
  What an eUICC reports: \<open>rsp_dp_verify_installation_result\<close>, \<open>notification_meta\<close>,
  \<open>verify_installation_notification\<close>, \<open>verify_other_notification\<close>,
  \<open>rsp_dp_notification_metadata\<close> and \<open>rsp_dp_verify_notification\<close> of \<open>src/rsp_es9.c\<close>. The
  caller's output is the \<open>loc\<close> part of the state. The signed octets are always a slice of the
  received buffer, found by the TLV walkers of \<open>Tlv\<close>.
\<close>

section \<open>The signed part of a ProfileInstallationResult\<close>

definition pir_data :: "'a asn1c \<Rightarrow> bytes \<Rightarrow> ('x, bytes) cm" where
  "pir_data A pir =
     bnd (recode Minus2 (find_tlv A pir 0 [0xBF, 0x37])) (\<lambda>_.
     case a_fetch_tag A pir of (tn, t) \<Rightarrow>
     bnd (ensure (\<not> tn \<le> 0) Minus2) (\<lambda>_.
     bnd (rd pir 0) (\<lambda>b0.
     case a_fetch_length A (a_constructed A b0) (drop (nat tn) pir) of (ll, cl) \<Rightarrow>
     bnd (ensure (\<not> ll \<le> 0) Minus2) (\<lambda>_.
     bnd (recode Minus2 (find_tlv A pir (nat tn + nat ll) [0xBF, 0x27])) (\<lambda>(start, len).
     bnd (malloc Minus2 len) (\<lambda>_.
     rd_block pir start len))))))"

text \<open>What the caller's pointers refer to; the last two may be NULL.\<close>

record pir_out =
  po_installed :: int
  po_command :: "int option"
  po_reason :: "int option"

text \<open>\<open>(void)asn_INTEGER2long(...)\<close>: a value out of range leaves the target as it was.\<close>

definition store_long :: "'a asn1c \<Rightarrow> bytes \<Rightarrow> int option \<Rightarrow> int option" where
  "store_long A i p = (case p of None \<Rightarrow> None
     | Some old \<Rightarrow> Some (case a_integer2long A i of None \<Rightarrow> old | Some v \<Rightarrow> v))"

definition rsp_dp_verify_installation_result ::
  "('c, 'g, 'p, 'k) mbedtls \<Rightarrow> 'a asn1c \<Rightarrow> rsp_dp_session option \<Rightarrow> cbuf \<Rightarrow> bool \<Rightarrow> (pir_out, unit) cm" where
  "rsp_dp_verify_installation_result M A s pir installed_ok =
     bnd (ensure (\<not> (s = None \<or> is_null pir \<or> clen pir = 0 \<or> \<not> installed_ok)) Minus2) (\<lambda>_.
     let s = the s in
     bnd (ensure (\<not> (\<not> ss_authenticated s \<or> ss_euicc_cert s = PNull)) Minus2) (\<lambda>_.
     bnd (ext Minus2 (a_dec_installation_result A (cdata pir))) (\<lambda>r.
     bnd (ensure (\<not> (length (pir_transactionId r) \<noteq> 16 \<or> pir_transactionId r \<noteq> ss_transaction_id s)) Minus1) (\<lambda>_.
     bnd (ensure (length (pir_euiccSignPIR r) = 64) Minus2) (\<lambda>_.
     bnd (pir_data A (cdata pir)) (\<lambda>data_der.
     bnd (read_ptr (ss_euicc_cert s) (ss_euicc_cert_len s)) (\<lambda>cert.
     bnd (rsp_sign_verify M cert (Buf data_der) (Some (pir_euiccSignPIR r))) (\<lambda>_.
     case pir_finalResult r of
       SuccessResult \<Rightarrow> modify (\<lambda>out. out\<lparr>po_installed := 1\<rparr>)
     | ErrorResult cmd reason \<Rightarrow> modify (\<lambda>out. out\<lparr>po_installed := 0,
         po_command := store_long A cmd (po_command out), po_reason := store_long A reason (po_reason out)\<rparr>)
     | NoResult \<Rightarrow> stop_with Minus2))))))))"

section \<open>Notification metadata\<close>

record rsp_notification =
  rn_is_installation_result :: int
  rn_seq_number :: int
  rn_operation :: int
  rn_have_iccid :: int
  rn_iccid :: bytes
  rn_installed :: int

text \<open>A \<open>size_t\<close> converted to a 32-bit \<open>int\<close>.\<close>

definition c_int :: "nat \<Rightarrow> int" where
  "c_int n = sint (word_of_nat n :: 32 word)"

text \<open>The inner loop over a byte's bits; \<open>Inl\<close> is the jump to \<open>done_bits\<close>.\<close>

fun bit_loop :: "u8 \<Rightarrow> bool \<Rightarrow> nat \<Rightarrow> nat \<Rightarrow> nat \<Rightarrow> nat \<Rightarrow> int \<Rightarrow> int + int" where
  "bit_loop b is_last unused byte i 0 found = Inr found"
| "bit_loop b is_last unused byte i (Suc n) found =
     (if is_last \<and> int i \<ge> 8 - int unused then Inr found
      else if b AND drop_bit i 0x80 \<noteq> 0 then
        if found \<ge> 0 then Inl (-1)
        else bit_loop b is_last unused byte (Suc i) n (c_int (byte * 8 + i))
      else bit_loop b is_last unused byte (Suc i) n found)"

fun byte_loop :: "bytes \<Rightarrow> nat \<Rightarrow> nat \<Rightarrow> nat \<Rightarrow> int \<Rightarrow> int" where
  "byte_loop [] nbytes unused byte found = found"
| "byte_loop (b # bs) nbytes unused byte found =
     (case bit_loop b (byte + 1 = nbytes) unused byte 0 8 found of
        Inl f \<Rightarrow> f
      | Inr f \<Rightarrow> byte_loop bs nbytes unused (byte + 1) f)"

definition notification_meta :: "'a asn1c \<Rightarrow> notification_metadata \<Rightarrow> (rsp_notification, unit) cm" where
  "notification_meta A m =
     bnd (lift_opt Minus1 (a_integer2long A (nm_seqNumber m))) (\<lambda>seq.
     bnd (modify (\<lambda>out. out\<lparr>rn_seq_number := seq\<rparr>)) (\<lambda>_.
     bnd (modify (\<lambda>out. out\<lparr>rn_operation :=
            byte_loop (nm_operation m) (length (nm_operation m)) (nm_bits_unused m) 0 (-1)\<rparr>)) (\<lambda>_.
     case nm_iccid m of
       None \<Rightarrow> ret ()
     | Some iccid \<Rightarrow>
         bnd (ensure (length iccid = 10) Minus1) (\<lambda>_.
         modify (\<lambda>out. out\<lparr>rn_iccid := iccid, rn_have_iccid := 1\<rparr>)))))"

section \<open>The two kinds of notification\<close>

definition verify_installation_notification ::
  "('c, 'g, 'p, 'k) mbedtls \<Rightarrow> 'a asn1c \<Rightarrow> cbuf \<Rightarrow> bytes \<Rightarrow> (rsp_notification, unit) cm" where
  "verify_installation_notification M A cert pir =
     bnd (ensure (\<not> (is_null cert \<or> clen cert = 0)) Minus2) (\<lambda>_.
     bnd (ext Minus2 (a_dec_installation_result A pir)) (\<lambda>r.
     bnd (ensure (length (pir_euiccSignPIR r) = 64) Minus2) (\<lambda>_.
     bnd (pir_data A pir) (\<lambda>data_der.
     bnd (rsp_sign_verify M cert (Buf data_der) (Some (pir_euiccSignPIR r))) (\<lambda>_.
     bnd (recode Minus2 (notification_meta A (pir_metadata r))) (\<lambda>_.
     modify (\<lambda>out. out\<lparr>rn_is_installation_result := 1,
       rn_installed := (if pir_finalResult r = SuccessResult then 1 else 0)\<rparr>)))))))"

text \<open>The members of an OtherSignedNotification as they arrived: the signed data and the two
  certificates.\<close>

definition osn_members :: "'a asn1c \<Rightarrow> bytes \<Rightarrow> ('x, bytes \<times> bytes \<times> bytes) cm" where
  "osn_members A osn =
     bnd (recode Minus2 (step_tlv A osn (length osn) 0)) (\<lambda>(w, (v, vl), off).
     let off = v; end = off + vl in
     bnd (recode Minus2 (step_tlv A osn end off)) (\<lambda>((tbs, tbs_len), v, off).
     bnd (recode Minus2 (step_tlv A osn end off)) (\<lambda>(sig_tlv, v, off).
     bnd (recode Minus2 (step_tlv A osn end off)) (\<lambda>((euicc_c, euicc_c_len), v, off).
     bnd (recode Minus2 (step_tlv A osn end off)) (\<lambda>((eum_c, eum_c_len), v, off).
     bnd (rd_block osn tbs tbs_len) (\<lambda>tbs.
     bnd (rd_block osn euicc_c euicc_c_len) (\<lambda>euicc_c.
     bnd (rd_block osn eum_c eum_c_len) (\<lambda>eum_c.
     ret (tbs, euicc_c, eum_c)))))))))"

definition verify_other_notification ::
  "('c, 'g, 'p, 'k) mbedtls \<Rightarrow> 'a asn1c \<Rightarrow> sgp26 \<Rightarrow> cbuf \<Rightarrow> bytes \<Rightarrow> (rsp_notification, unit) cm" where
  "verify_other_notification M A S cert osn =
     bnd (ext Minus2 (a_dec_other_notification A osn)) (\<lambda>o'.
     bnd (ensure (length (osn_signature o') = 64) Minus2) (\<lambda>_.
     bnd (osn_members A osn) (\<lambda>(tbs, euicc_c, eum_c).
     bnd (ensure (\<not> (\<not> is_null cert \<and> clen cert > 0 \<and> cdata cert \<noteq> euicc_c)) Minus1) (\<lambda>_.
     bnd (recode Minus2 (rsp_pki_test_ci S True True)) (\<lambda>ci_der.
     bnd (parse_ext_cert M ci_der) (\<lambda>ci1.
     bnd (parse_ext_cert M (ci2017_der S)) (\<lambda>ci2.
     bnd (parse_ext_cert M eum_c) (\<lambda>eum.
     bnd (parse_ext_cert M euicc_c) (\<lambda>euicc.
     bnd (ext Minus1 (if m_crt_verify M eum [ci1, ci2] then Some () else None)) (\<lambda>_.
     bnd (ext Minus1 (if m_crt_verify M euicc [eum] then Some () else None)) (\<lambda>_.
     bnd (rsp_sign_verify M (Buf euicc_c) (Buf tbs) (Some (osn_signature o'))) (\<lambda>_.
     bnd (recode Minus2 (notification_meta A (osn_tbs o'))) (\<lambda>_.
     modify (\<lambda>out. out\<lparr>rn_is_installation_result := 0\<rparr>))))))))))))))"

text \<open>\<open>memset(out, 0, sizeof *out); out->operation = -1;\<close>\<close>

definition clear_notification :: rsp_notification where
  "clear_notification = \<lparr>rn_is_installation_result = 0, rn_seq_number = 0, rn_operation = -1,
     rn_have_iccid = 0, rn_iccid = replicate 10 0, rn_installed = 0\<rparr>"

definition rsp_dp_notification_metadata ::
  "'a asn1c \<Rightarrow> cbuf \<Rightarrow> bool \<Rightarrow> (rsp_notification, unit) cm" where
  "rsp_dp_notification_metadata A notification out_ok =
     bnd (ensure (\<not> (is_null notification \<or> clen notification < 2 \<or> \<not> out_ok)) Minus2) (\<lambda>_.
     bnd (set_loc clear_notification) (\<lambda>_.
     bnd (rd (cdata notification) 0) (\<lambda>n0.
     bnd (rd (cdata notification) 1) (\<lambda>n1.
     if n0 = 0xBF \<and> n1 = 0x37 then
       bnd (ext Minus2 (a_dec_installation_result A (cdata notification))) (\<lambda>r.
       bnd (recode Minus2 (notification_meta A (pir_metadata r))) (\<lambda>_.
       modify (\<lambda>out. out\<lparr>rn_is_installation_result := 1\<rparr>)))
     else if n0 AND 0x1F = 0x10 then
       bnd (ext Minus2 (a_dec_other_notification A (cdata notification))) (\<lambda>o'.
       recode Minus2 (notification_meta A (osn_tbs o')))
     else stop_with Minus2))))"

definition rsp_dp_verify_notification ::
  "('c, 'g, 'p, 'k) mbedtls \<Rightarrow> 'a asn1c \<Rightarrow> sgp26 \<Rightarrow> cbuf \<Rightarrow> cbuf \<Rightarrow> bool \<Rightarrow> (rsp_notification, unit) cm" where
  "rsp_dp_verify_notification M A S cert_euicc_der notification out_ok =
     bnd (ensure (\<not> (is_null notification \<or> clen notification < 2 \<or> \<not> out_ok)) Minus2) (\<lambda>_.
     bnd (set_loc clear_notification) (\<lambda>_.
     bnd (rd (cdata notification) 0) (\<lambda>n0.
     bnd (rd (cdata notification) 1) (\<lambda>n1.
     if n0 = 0xBF \<and> n1 = 0x37 then
       verify_installation_notification M A cert_euicc_der (cdata notification)
     else if n0 AND 0x1F = 0x10 then
       verify_other_notification M A S cert_euicc_der (cdata notification)
     else stop_with Minus2))))"

section \<open>Which operation is reported\<close>

lemma top_bit_test:
  assumes "i < 8"
  shows "(b AND drop_bit i (0x80 :: u8) = 0) \<longleftrightarrow> \<not> bit b (7 - i)"
proof -
  from assms have "i = 0 \<or> i = 1 \<or> i = 2 \<or> i = 3 \<or> i = 4 \<or> i = 5 \<or> i = 6 \<or> i = 7" by presburger
  then have "drop_bit i (0x80 :: u8) = 2 ^ (7 - i)" by (elim disjE) simp_all
  then show ?thesis by (simp add: and_exp_eq_0_iff_not_bit)
qed

text \<open>Scanning the numbers of the set bits in order: the first is remembered, a second ends the
  search without an answer.\<close>

fun scan_bits :: "int \<Rightarrow> nat list \<Rightarrow> int + int" where
  "scan_bits found [] = Inr found"
| "scan_bits found (p # ps) = (if found \<ge> 0 then Inl (-1) else scan_bits (c_int p) ps)"

lemma scan_bits_append:
  "scan_bits f (xs @ ys) = (case scan_bits f xs of Inl r \<Rightarrow> Inl r | Inr r \<Rightarrow> scan_bits r ys)"
  by (induction f xs rule: scan_bits.induct) auto

text \<open>The bits of a byte are numbered from its most significant one; the last byte has
  \<open>8 - unused\<close> of them.\<close>

definition byte_bits :: "u8 \<Rightarrow> nat \<Rightarrow> nat \<Rightarrow> nat \<Rightarrow> nat list" where
  "byte_bits b byte i n = map (\<lambda>i. byte * 8 + i) (filter (\<lambda>i. bit b (7 - i)) [i..<n])"

lemma bit_loop_scan:
  "i + n = 8 \<Longrightarrow> bit_loop b is_last unused byte i n found =
     scan_bits found (byte_bits b byte i (if is_last then 8 - unused else 8))"
proof (induction b is_last unused byte i n found rule: bit_loop.induct)
  case (1 b is_last unused byte i found)
  then show ?case by (simp add: byte_bits_def)
next
  case (2 b is_last unused byte i n found)
  let ?n = "if is_last then 8 - unused else 8"
  show ?case
  proof (cases "is_last \<and> int i \<ge> 8 - int unused")
    case True
    then have "[i..<?n] = []" by (auto simp: upt_conv_Nil)
    with True show ?thesis by (simp add: byte_bits_def del: upt_eq_Nil_conv)
  next
    case False
    with 2(3) have i: "i < ?n" "i < 8" by (auto split: if_splits)
    then have u: "[i..<?n] = i # [Suc i..<?n]" by (simp add: upt_conv_Cons)
    have "bit_loop b is_last unused byte i (Suc n) found =
        (if bit b (7 - i) then if found \<ge> 0 then Inl (-1)
           else bit_loop b is_last unused byte (Suc i) n (c_int (byte * 8 + i))
         else bit_loop b is_last unused byte (Suc i) n found)"
      using False by (simp only: bit_loop.simps if_False top_bit_test [OF i(2)] not_not)
    then show ?thesis
      using 2(1,2)[OF False] 2(3) by (simp add: byte_bits_def u top_bit_test [OF i(2)])
  qed
qed

definition event_bits :: "bytes \<Rightarrow> nat \<Rightarrow> nat list" where
  "event_bits bs unused = filter (\<lambda>i. bit (bs ! (i div 8)) (7 - i mod 8)) [0..<8 * length bs - unused]"

fun all_bits :: "bytes \<Rightarrow> nat \<Rightarrow> nat \<Rightarrow> nat list" where
  "all_bits [] unused byte = []"
| "all_bits (b # bs) unused byte =
     byte_bits b byte 0 (if bs = [] then 8 - unused else 8) @ all_bits bs unused (byte + 1)"

lemma byte_loop_scan:
  "byte + length bs = nbytes \<Longrightarrow> byte_loop bs nbytes unused byte found =
     (case scan_bits found (all_bits bs unused byte) of Inl f \<Rightarrow> f | Inr f \<Rightarrow> f)"
proof (induction bs arbitrary: byte found)
  case Nil
  then show ?case by simp
next
  case (Cons b bs)
  have "(byte + 1 = nbytes) = (bs = [])" using Cons.prems by auto
  moreover have "byte + 1 + length bs = nbytes" using Cons.prems by simp
  ultimately show ?case
    by (cases "bs = []") (simp_all add: bit_loop_scan scan_bits_append Cons.IH split: sum.split)
qed

lemma all_bits_event:
  assumes "unused \<le> 7"
  shows "all_bits bs unused byte = map ((+) (8 * byte)) (event_bits bs unused)"
proof (induction bs arbitrary: byte)
  case Nil
  then show ?case by (simp add: event_bits_def)
next
  case (Cons b bs)
  show ?case
  proof (cases "bs = []")
    case True
    have "filter (\<lambda>i. bit ([b] ! (i div 8)) (7 - i mod 8)) [0..<8 - unused] = filter (\<lambda>i. bit b (7 - i)) [0..<8 - unused]"
      by (rule filter_cong) auto
    with True show ?thesis by (simp add: event_bits_def byte_bits_def mult.commute)
  next
    case False
    then have "unused \<le> 8 * length bs" using assms by (cases bs) auto
    then have "8 * length (b # bs) - unused = 8 + (8 * length bs - unused)" by simp
    define m where "m = 8 * length bs - unused"
    have "map ((+) 8) [0..<m] = map (\<lambda>i. i + 8) [0..<m]" by (rule map_cong) auto
    then have "map ((+) 8) [0..<m] = [8..<8 + m]" using map_add_upt [of 8 m] by (simp only: add.commute)
    with \<open>8 * length (b # bs) - unused = 8 + (8 * length bs - unused)\<close>
    have u: "[0..<8 * length (b # bs) - unused] = [0..<8] @ map ((+) 8) [0..<8 * length bs - unused]"
      using upt_add_eq_append [of 0 8 m] by (simp only: m_def [symmetric] zero_le)
    have f: "filter (\<lambda>i. bit ((b # bs) ! (i div 8)) (7 - i mod 8)) [0..<8] = filter (\<lambda>i. bit b (7 - i)) [0..<8]"
      by (rule filter_cong) auto
    have "event_bits (b # bs) unused = filter (\<lambda>i. bit b (7 - i)) [0..<8] @ map ((+) 8) (event_bits bs unused)"
      unfolding event_bits_def u filter_append f by (simp add: filter_map o_def div_add_self1)
    with False show ?thesis
      by (simp add: Cons.IH byte_bits_def o_def algebra_simps)
  qed
qed

text \<open>The operation is the number of the only set bit, or -1.\<close>

lemma operation_spec:
  assumes "unused \<le> 7" "length bs < 2 ^ 28"
  shows "byte_loop bs (length bs) unused 0 (-1) = (case event_bits bs unused of [p] \<Rightarrow> int p | _ \<Rightarrow> -1)"
proof -
  have c: "c_int p = int p" if "p \<in> set (event_bits bs unused)" for p
  proof -
    have "p < 8 * length bs - unused" using that by (simp add: event_bits_def)
    then have "p < 2 ^ 31" using assms(2) by simp
    then have "int p < 2 ^ 31" by simp
    then show ?thesis by (simp add: c_int_def signed_of_nat signed_take_bit_int_eq_self)
  qed
  have "all_bits bs unused 0 = event_bits bs unused"
    using all_bits_event [OF assms(1), of bs 0] by (simp add: map_idI)
  then show ?thesis
    using c by (simp add: byte_loop_scan split: list.split)
qed

section \<open>The signed octets are the received ones\<close>

lemma find_tlv_read:
  assumes "ber_laws A"
  shows "wp (find_tlv A buf off want)
    (\<lambda>(start, n) w'. start = off \<and> w' = w \<and> off + n \<le> length buf \<and> take (length want) (drop off buf) = want \<and>
       (\<exists>t v. read_tlv A (drop off buf) = Some (n, t, v)))
    (\<lambda>e w'. e = Minus1 \<and> w' = w) w"
proof (rule wpI)
  fix p w' assume run: "find_tlv A buf off want w = (Inr p, w')"
  note base = wp_Inr [OF find_tlv_wp [OF assms] run]
  obtain tn t where f: "a_fetch_tag A (drop off buf) = (tn, t)" by (cases "a_fetch_tag A (drop off buf)")
  from run obtain ll n where
    l: "a_fetch_length A (a_constructed A (buf ! off)) (drop (off + nat tn) buf) = (ll, n)"
    and r: "0 < tn" "off < length buf" "0 < ll" "0 \<le> n" "p = (off, nat tn + nat ll + nat n)"
    unfolding find_tlv_def f prod.case
    by (cases "a_fetch_length A (a_constructed A (buf ! off)) (drop (off + nat tn) buf)") (auto simp: cm_run)
  have "hd (drop off buf) = buf ! off" using r(2) by (simp add: hd_drop_conv_nth)
  with base r f l show "(\<lambda>(start, n) w'. start = off \<and> w' = w \<and> off + n \<le> length buf \<and>
      take (length want) (drop off buf) = want \<and> (\<exists>t v. read_tlv A (drop off buf) = Some (n, t, v))) p w'"
    by (simp add: read_tlv_def add.commute) linarith
qed (use wp_Inl [OF find_tlv_wp [OF assms]] in blast)

text \<open>The data object inside the outer [55], by the runtime's own reading of the two headers.\<close>

definition pir_header :: "'a asn1c \<Rightarrow> bytes \<Rightarrow> nat" where
  "pir_header A pir =
    (let tn = nat (fst (a_fetch_tag A pir)) in
     tn + nat (fst (a_fetch_length A (a_constructed A (hd pir)) (drop tn pir))))"

definition pir_signed :: "'a asn1c \<Rightarrow> bytes \<Rightarrow> bytes option" where
  "pir_signed A pir = (let rest = drop (pir_header A pir) pir in
     if take 2 pir \<noteq> [0xBF, 0x37] \<or> take 2 rest \<noteq> [0xBF, 0x27] then None
     else map_option (\<lambda>(n, t, v). take n rest) (read_tlv A rest))"

lemma pir_data_wp:
  assumes "ber_laws A"
  shows "wp (pir_data A pir) (\<lambda>d w'. pir_signed A pir = Some d \<and> loc w' = loc w)
    (\<lambda>e w'. e = Minus2 \<and> loc w' = loc w) w"
proof -
  obtain tn t where f: "a_fetch_tag A pir = (tn, t)" by (cases "a_fetch_tag A pir")
  obtain ll cl where l: "a_fetch_length A (a_constructed A (hd pir)) (drop (nat tn) pir) = (ll, cl)"
    by (cases "a_fetch_length A (a_constructed A (hd pir)) (drop (nat tn) pir)")
  have h: "pir_header A pir = nat tn + nat ll" using f l by (simp add: pir_header_def Let_def)
  note inner = find_tlv_read [OF assms, of pir "nat tn + nat ll" "[0xBF, 0x27]"]
  have "wp (bnd (ensure (\<not> tn \<le> 0) Minus2) (\<lambda>_. bnd (rd pir 0) (\<lambda>b0.
     case a_fetch_length A (a_constructed A b0) (drop (nat tn) pir) of (ll, cl) \<Rightarrow>
     bnd (ensure (\<not> ll \<le> 0) Minus2) (\<lambda>_.
     bnd (recode Minus2 (find_tlv A pir (nat tn + nat ll) [0xBF, 0x27])) (\<lambda>(start, len).
     bnd (malloc Minus2 len) (\<lambda>_. rd_block pir start len)))))) (\<lambda>d w'. pir_signed A pir = Some d \<and> loc w' = loc w)
    (\<lambda>e w'. e = Minus2 \<and> loc w' = loc w) w" if "take 2 pir = [0xBF, 0x37]"
  proof -
    have "pir \<noteq> []" using that by auto
    then show ?thesis
      using l that h
      by (auto simp: wp_simps hd_conv_nth pir_signed_def Let_def numeral_2_eq_2 intro!: wp_mono [OF inner])
  qed
  then show ?thesis
    unfolding pir_data_def f prod.case
    by (auto simp: wp_bnd [of "recode _ _"] wp_recode numeral_2_eq_2 intro!: wp_mono [OF find_tlv_read [OF assms, of pir 0 "[0xBF, 0x37]"]])
qed

lemma pir_data_ok:
  assumes A: "ber_laws A" and f: "faults w = []" and l: "length d \<le> 0xFFFFFFFF" "length (tlv [0xBF, 0x27] d @ rest) \<le> 0xFFFFFFFF"
  shows "pir_data A (tlv [0xBF, 0x37] (tlv [0xBF, 0x27] d @ rest)) w = (Inr (tlv [0xBF, 0x27] d), w)"
    and "pir_signed A (tlv [0xBF, 0x37] (tlv [0xBF, 0x27] d @ rest)) = Some (tlv [0xBF, 0x27] d)"
proof -
  define inner where "inner = tlv [0xBF, 0x27] d @ rest"
  define pir where "pir = tlv [0xBF, 0x37] inner"
  obtain lo where lo: "rsp_der_length_octets (length inner) = Some lo" "lo \<noteq> []"
    using l(2) unfolding inner_def [symmetric] by (rule der_octets_exist)
  have pir: "pir = [0xBF, 0x37] @ lo @ inner" by (simp add: pir_def tlv_def lo)
  have t: "tag_class_num [0xBF, 0x37] = Some (2, 55)" "tag_class_num [0xBF, 0x27] = Some (2, 39)"
    by (simp_all add: tag_class_num_def)
  have ft: "a_fetch_tag A pir = (2, packed_tag 2 55)"
    using fetch_tag_octets(1) [OF A t(1), of "lo @ inner"] by (simp add: pir)
  have fl: "a_fetch_length A c (drop 2 pir) = (int (length lo), int (length inner))" for c
    using ber_fetch_len [OF A lo(1), of c inner] by (simp add: pir)
  have o: "find_tlv A pir 0 [0xBF, 0x37] w = (Inr (0, length pir), w)"
    using find_tlv_at [OF A t(1) l(2), of pir 0 w] by (simp add: pir_def inner_def slice_def)
  have dr: "drop (2 + length lo) pir = inner" by (simp add: pir)
  have "slice pir (2 + length lo, length (tlv [0xBF, 0x27] d)) = tlv [0xBF, 0x27] d"
    by (simp add: slice_def pir inner_def)
  moreover have "2 + length lo + length (tlv [0xBF, 0x27] d) \<le> length pir"
    by (simp add: pir inner_def)
  ultimately have i: "find_tlv A pir (2 + length lo) [0xBF, 0x27] w = (Inr (2 + length lo, length (tlv [0xBF, 0x27] d)), w)"
    and sl: "take (length (tlv [0xBF, 0x27] d)) (drop (2 + length lo) pir) = tlv [0xBF, 0x27] d"
    and le: "2 + length lo + length (tlv [0xBF, 0x27] d) \<le> length pir"
    using find_tlv_at [OF A t(2) l(1), of pir "2 + length lo" w] by (simp_all add: slice_def)
  have "0 < length pir" by (simp add: pir)
  then show "pir_data A (tlv [0xBF, 0x37] (tlv [0xBF, 0x27] d @ rest)) w = (Inr (tlv [0xBF, 0x27] d), w)"
    unfolding inner_def [symmetric] pir_def [symmetric]
    using f ft fl o i sl le lo(2)
    by (simp add: pir_data_def bnd_def recode_def ensure_def ret_def rd_def rd_block_def)
  have "pir_header A pir = 2 + length lo" using ft fl by (simp add: pir_header_def Let_def)
  moreover have "take 2 pir = [0xBF, 0x37]" "take 2 inner = [0xBF, 0x27]"
    by (simp_all add: pir inner_def tlv_def)
  moreover have "read_tlv A inner = Some (length (tlv [0xBF, 0x27] d), packed_tag 2 39, d)"
    unfolding inner_def by (rule read_tlv_tlv [OF A t(2) l(1)])
  ultimately show "pir_signed A (tlv [0xBF, 0x37] (tlv [0xBF, 0x27] d @ rest)) = Some (tlv [0xBF, 0x27] d)"
    unfolding inner_def [symmetric] pir_def [symmetric] pir_signed_def Let_def
    using dr by (simp add: inner_def)
qed

section \<open>A result is believed only when it is genuine\<close>

definition pir_genuine :: "('c, 'g, 'p, 'k) mbedtls \<Rightarrow> 'a asn1c \<Rightarrow> bytes \<Rightarrow> bytes \<Rightarrow> installation_result \<Rightarrow> bool" where
  "pir_genuine M A cert pir r \<longleftrightarrow> length (pir_euiccSignPIR r) = 64 \<and>
     (case pir_signed A pir of None \<Rightarrow> False | Some d \<Rightarrow> signature_good M cert d (pir_euiccSignPIR r))"

definition pir_report :: "'a asn1c \<Rightarrow> final_result \<Rightarrow> pir_out \<Rightarrow> pir_out" where
  "pir_report A fr out = (case fr of
       SuccessResult \<Rightarrow> out\<lparr>po_installed := 1\<rparr>
     | ErrorResult cmd reason \<Rightarrow> out\<lparr>po_installed := 0,
         po_command := store_long A cmd (po_command out), po_reason := store_long A reason (po_reason out)\<rparr>
     | NoResult \<Rightarrow> out)"

lemma installation_result_wp:
  assumes A: "ber_laws A" and s: "session_ok s"
  shows "wp (rsp_dp_verify_installation_result M A (Some s) pir True)
    (\<lambda>_ w'. \<exists>cert r. ss_authenticated s \<and> ss_euicc_cert s = Owned cert \<and>
       a_dec_installation_result A (cdata pir) = Some r \<and> pir_transactionId r = ss_transaction_id s \<and>
       pir_genuine M A cert (cdata pir) r \<and> pir_finalResult r \<noteq> NoResult \<and>
       loc w' = pir_report A (pir_finalResult r) (loc w))
    (\<lambda>e w'. e \<in> {Minus1, Minus2} \<and> loc w' = loc w) w"
proof (rule wpI)
  fix u w' assume run: "rsp_dp_verify_installation_result M A (Some s) pir True w = (Inr u, w')"
  then have auth: "ss_authenticated s" by (simp add: rsp_dp_verify_installation_result_def cm_run)
  obtain cert where c: "ss_euicc_cert s = Owned cert" "ss_euicc_cert_len s = length cert"
    by (rule session_ok_owned [OF s auth])
  from run c obtain r d w1 w2 and w0 :: "pir_out st" where
    r: "a_dec_installation_result A (cdata pir) = Some r" "pir_transactionId r = ss_transaction_id s"
      "length (pir_euiccSignPIR r) = 64" and
    1: "pir_data A (cdata pir) w0 = (Inr d, w1)" "loc w0 = loc w" and
    2: "rsp_sign_verify M (Buf cert) (Buf d) (Some (pir_euiccSignPIR r)) w1 = (Inr (), w2)" and
    3: "(case pir_finalResult r of
       SuccessResult \<Rightarrow> modify (\<lambda>out. out\<lparr>po_installed := 1\<rparr>)
     | ErrorResult cmd reason \<Rightarrow> modify (\<lambda>out. out\<lparr>po_installed := 0,
         po_command := store_long A cmd (po_command out), po_reason := store_long A reason (po_reason out)\<rparr>)
     | NoResult \<Rightarrow> stop_with Minus2) w2 = (Inr u, w')"
    unfolding rsp_dp_verify_installation_result_def Let_def read_ptr_def
    by (cases pir) (auto simp: cm_run)
  from wp_Inr [OF pir_data_wp [OF A] 1(1)] verify_run [OF 2] 1(2) r(3)
  have "pir_genuine M A cert (cdata pir) r" "loc w2 = loc w" by (simp_all add: pir_genuine_def)
  with auth c r 3 show "\<exists>cert r. ss_authenticated s \<and> ss_euicc_cert s = Owned cert \<and>
       a_dec_installation_result A (cdata pir) = Some r \<and> pir_transactionId r = ss_transaction_id s \<and>
       pir_genuine M A cert (cdata pir) r \<and> pir_finalResult r \<noteq> NoResult \<and>
       loc w' = pir_report A (pir_finalResult r) (loc w)"
    by (cases "pir_finalResult r") (auto simp: pir_report_def cm_run)
next
  fix e w' assume run: "rsp_dp_verify_installation_result M A (Some s) pir True w = (Inl e, w')"
  have k: "keeps (pir_data A p)" for p
    unfolding pir_data_def by (intro keeps_intros)
  have rp: "read_ptr (ss_euicc_cert s) (ss_euicc_cert_len s) v = (Inl x, v') \<Longrightarrow> False" for x and v v' :: "pir_out st"
    using s by (auto simp: session_ok_def read_ptr_def cm_run split: ptr.splits)
  have tail: "(case fr of
       SuccessResult \<Rightarrow> modify (\<lambda>out. out\<lparr>po_installed := 1\<rparr>)
     | ErrorResult cmd reason \<Rightarrow> modify (\<lambda>out. out\<lparr>po_installed := 0,
         po_command := store_long A cmd (po_command out), po_reason := store_long A reason (po_reason out)\<rparr>)
     | NoResult \<Rightarrow> stop_with Minus2) v = (Inl x, v') \<Longrightarrow> x = Minus2 \<and> loc v' = loc v" for fr v x v'
    by (cases fr) (auto simp: cm_run)
  from run show "e \<in> {Minus1, Minus2} \<and> loc w' = loc w"
    unfolding rsp_dp_verify_installation_result_def Let_def
    by (auto simp: cm_run dest!: tail rp verify_fail wp_Inl [OF pir_data_wp [OF A]]
        keepsD [OF k, where r = "Inr x" for x] keepsD [OF keeps_read_ptr, where r = "Inr x" for x]
        keepsD [OF keeps_sign(2), where r = "Inr x" for x])
qed

section \<open>The members of an OtherSignedNotification\<close>

text \<open>The first \<open>k\<close> TLVs of some octets, each whole, as they arrived.\<close>

fun first_tlvs :: "'a asn1c \<Rightarrow> nat \<Rightarrow> bytes \<Rightarrow> bytes list option" where
  "first_tlvs A 0 bs = Some []"
| "first_tlvs A (Suc k) bs = (case read_tlv A bs of None \<Rightarrow> None
     | Some (n, t, v) \<Rightarrow> map_option (Cons (take n bs)) (first_tlvs A k (drop n bs)))"

definition osn_parts :: "'a asn1c \<Rightarrow> bytes \<Rightarrow> bytes list option" where
  "osn_parts A osn = (case read_tlv A osn of None \<Rightarrow> None | Some (n, t, content) \<Rightarrow> first_tlvs A 4 content)"

lemma step_tlv_read:
  assumes "ber_laws A" "end \<le> length buf"
  shows "wp (step_tlv A buf end off)
    (\<lambda>((ws, wl), (vs, vl), off') w'. w' = w \<and> ws = off \<and> off' = off + wl \<and> off' \<le> end \<and>
       (\<exists>t v. read_tlv A (take (end - off) (drop off buf)) = Some (wl, t, v) \<and> v = take vl (drop vs buf) \<and>
          vs + vl = off'))
    (\<lambda>e w'. e = Minus1 \<and> w' = w) w"
proof (rule wpI)
  fix p w' assume run: "step_tlv A buf end off w = (Inr p, w')"
  note base = wp_Inr [OF step_tlv_wp [OF assms] run]
  define bs where "bs = take (end - off) (drop off buf)"
  obtain tn t where f: "a_fetch_tag A bs = (tn, t)" by (cases "a_fetch_tag A bs")
  obtain ll n where l: "a_fetch_length A (a_constructed A (buf ! off)) (take (end - off - nat tn) (drop (off + nat tn) buf)) = (ll, n)"
    by (cases "a_fetch_length A (a_constructed A (buf ! off)) (take (end - off - nat tn) (drop (off + nat tn) buf))")
  from run have r: "off < end" "0 < tn" "0 < ll" "0 \<le> n"
      "p = ((off, nat tn + nat ll + nat n), (off + (nat tn + nat ll), nat n), off + (nat tn + nat ll + nat n))"
    unfolding step_tlv_def f [unfolded bs_def] prod.case
    using l by (auto simp: cm_run Let_def)
  have hd: "hd bs = buf ! off" using r(1) assms(2) by (simp add: bs_def hd_drop_conv_nth)
  have d: "drop (nat tn) bs = take (end - off - nat tn) (drop (off + nat tn) buf)"
    by (simp add: bs_def drop_take add.commute)
  have len: "length bs = end - off" using assms(2) by (simp add: bs_def)
  from base r have le: "off + (nat tn + nat ll + nat n) \<le> end" by simp
  have v: "take (nat n) (drop (nat tn + nat ll) bs) = take (nat n) (drop (off + (nat tn + nat ll)) buf)"
    using le by (simp add: bs_def drop_take add.commute min_def)
  show "(\<lambda>((ws, wl), (vs, vl), off') w'. w' = w \<and> ws = off \<and> off' = off + wl \<and> off' \<le> end \<and>
       (\<exists>t v. read_tlv A (take (end - off) (drop off buf)) = Some (wl, t, v) \<and> v = take vl (drop vs buf) \<and>
          vs + vl = off')) p w'"
    unfolding bs_def [symmetric]
    using base r f l hd d len le v by (simp add: read_tlv_def)
qed (use wp_Inl [OF step_tlv_wp [OF assms]] in blast)

lemma osn_members_safe:
  assumes "ber_laws A"
  shows "wp (osn_members A osn) (\<lambda>_ _. True) (\<lambda>e w'. e = Minus2 \<and> w' = w) w"
proof -
  have tail: "wp (bnd (recode Minus2 (step_tlv A osn end off)) k) Q (\<lambda>e w'. e = Minus2 \<and> w' = w) w"
    if "end \<le> length osn"
      "\<And>wl vs vl. off + wl \<le> end \<Longrightarrow> vs + vl = off + wl \<Longrightarrow>
         wp (k ((off, wl), (vs, vl), off + wl)) Q (\<lambda>e w'. e = Minus2 \<and> w' = w) w" for "end" off k Q
    unfolding wp_bnd wp_recode
    by (rule wp_mono [OF step_tlv_wp [OF assms that(1)]]) (auto intro: that(2))
  show ?thesis
    unfolding osn_members_def Let_def
    by (rule tail, rule order_refl, simp only: prod.case, (rule tail, linarith, simp only: prod.case)+,
        auto simp: wp_simps)
qed

lemma osn_members_wp:
  assumes "ber_laws A"
  shows "wp (osn_members A osn)
    (\<lambda>(tbs, euicc_c, eum_c) w'. (\<exists>sg. osn_parts A osn = Some [tbs, sg, euicc_c, eum_c]) \<and> w' = w)
    (\<lambda>e w'. e = Minus2 \<and> w' = w) w"
proof (rule wpI)
  fix p w' assume run: "osn_members A osn w = (Inr p, w')"
  then obtain w1 w2 w3 w4 w5 x0 v vl o0 s1 l1 x1 o1 x2 y2 o2 s3 l3 x3 o3 s4 l4 x4 o4 where
    0: "step_tlv A osn (length osn) 0 w = (Inr (x0, (v, vl), o0), w1)" and
    1: "step_tlv A osn (v + vl) v w1 = (Inr ((s1, l1), x1, o1), w2)" and
    2: "step_tlv A osn (v + vl) o1 w2 = (Inr (x2, y2, o2), w3)" and
    3: "step_tlv A osn (v + vl) o2 w3 = (Inr ((s3, l3), x3, o3), w4)" and
    4: "step_tlv A osn (v + vl) o3 w4 = (Inr ((s4, l4), x4, o4), w5)" and
    p: "p = (take l1 (drop s1 osn), take l3 (drop s3 osn), take l4 (drop s4 osn))" "w' = w5"
    unfolding osn_members_def Let_def by (auto simp: cm_run)
  from wp_Inr [OF step_tlv_read [OF assms order_refl] 0]
  obtain n t c where r0: "read_tlv A osn = Some (n, t, c)" "c = take vl (drop v osn)" "v + vl \<le> length osn" "w1 = w"
    by (cases x0) auto
  have cut: "take (v + vl - (v + k)) (drop (v + k) osn) = drop k c" for k
    by (simp add: r0(2) drop_take add.commute)
  note S = step_tlv_read [OF assms r0(3)]
  from wp_Inr [OF S 1] cut [of 0] obtain t1 v1 where
    r1: "read_tlv A c = Some (l1, t1, v1)" "s1 = v" "o1 = v + l1" "w2 = w" using r0(4)
    by (cases x1) auto
  from wp_Inr [OF S 2] cut [of l1] r1 obtain l2 t2 v2 where
    r2: "read_tlv A (drop l1 c) = Some (l2, t2, v2)" "o2 = v + (l1 + l2)" "w3 = w"
    by (cases x2; cases y2) auto
  from wp_Inr [OF S 3] cut [of "l1 + l2"] r2 obtain t3 v3 where
    r3: "read_tlv A (drop (l1 + l2) c) = Some (l3, t3, v3)" "s3 = v + (l1 + l2)" "o3 = v + (l1 + l2 + l3)" "w4 = w"
    by (cases x3) auto
  from wp_Inr [OF S 4] cut [of "l1 + l2 + l3"] r3 obtain t4 v4 where
    r4: "read_tlv A (drop (l1 + l2 + l3) c) = Some (l4, t4, v4)" "s4 = v + (l1 + l2 + l3)" "w5 = w" "o4 \<le> v + vl" "o4 = s4 + l4"
    by (cases x4) auto
  have sl: "take l (drop (v + k) osn) = take l (drop k c)" if "k + l \<le> vl" for k l
    using that by (simp add: r0(2) drop_take min_def add.commute)
  have "osn_parts A osn = Some [take l1 c, take l2 (drop l1 c), take l3 (drop (l1 + l2) c), take l4 (drop (l1 + l2 + l3) c)]"
    using r0(1) r1(1) r2(1) r3(1) r4(1) by (simp add: osn_parts_def numeral_eq_Suc add.commute add.left_commute)
  moreover have "p = (take l1 c, take l3 (drop (l1 + l2) c), take l4 (drop (l1 + l2 + l3) c))"
    using p(1) sl [of 0 l1] sl [of "l1 + l2" l3] sl [of "l1 + l2 + l3" l4] r1(2) r3(2) r4(2,4,5) by simp
  ultimately show "(\<lambda>(tbs, euicc_c, eum_c) w'. (\<exists>sg. osn_parts A osn = Some [tbs, sg, euicc_c, eum_c]) \<and> w' = w) p w'"
    using p(2) r4(3) by auto
next
  fix e w' assume run: "osn_members A osn w = (Inl e, w')"
  from wp_Inl [OF osn_members_safe [OF assms] run] show "e = Minus2 \<and> w' = w" .
qed

lemma osn_members_ok:
  assumes A: "ber_laws A" and l: "length v1 \<le> 0xFFFFFFFF" "length v2 \<le> 0xFFFFFFFF" "length v3 \<le> 0xFFFFFFFF"
      "length v4 \<le> 0xFFFFFFFF" "length inner \<le> 0xFFFFFFFF"
    and t: "tag_class_num t1 \<noteq> None" "tag_class_num t2 \<noteq> None" "tag_class_num t3 \<noteq> None" "tag_class_num t4 \<noteq> None"
    and inner: "inner = tlv t1 v1 @ tlv t2 v2 @ tlv t3 v3 @ tlv t4 v4"
  shows "osn_members A (tlv [0x30] inner) w = (Inr (tlv t1 v1, tlv t3 v3, tlv t4 v4), w)"
proof -
  let ?osn = "tlv [0x30] inner"
  define h where "h = tlv_header [0x30] inner"
  define pre where "pre = take h ?osn"
  define b1 b2 b3 b4 where bs: "b1 = tlv t1 v1" "b2 = tlv t2 v2" "b3 = tlv t3 v3" "b4 = tlv t4 v4"
  have osn: "?osn = pre @ b1 @ b2 @ b3 @ b4"
    using tlv_prefix [of "[0x30]" inner] unfolding pre_def h_def bs inner .
  have lp: "length pre = h" by (simp add: pre_def h_def length_tlv)
  have li: "length inner = length b1 + length b2 + length b3 + length b4" by (simp add: inner bs)
  have lo: "length ?osn = h + (length b1 + length b2 + length b3 + length b4)"
    by (simp add: length_tlv h_def li)
  have s0: "step_tlv A ?osn (length ?osn) 0 w = (Inr ((0, length ?osn), (h, length inner), length ?osn), w)"
    using step_tlv_at [OF A _ l(5), of "[0x30]" 0 16 ?osn 0 "length ?osn" w]
    by (simp add: tag_class_num_def slice_def h_def)
  have sl: "slice ?osn (h, length b1) = b1" "slice ?osn (h + length b1, length b2) = b2"
    "slice ?osn (h + length b1 + length b2, length b3) = b3"
    "slice ?osn (h + length b1 + length b2 + length b3, length b4) = b4"
    unfolding osn lp [symmetric] by (simp_all add: slice_def)
  obtain c1 n1 where t1: "tag_class_num t1 = Some (c1, n1)" using t(1) by auto
  obtain c2 n2 where t2: "tag_class_num t2 = Some (c2, n2)" using t(2) by auto
  obtain c3 n3 where t3: "tag_class_num t3 = Some (c3, n3)" using t(3) by auto
  obtain c4 n4 where t4: "tag_class_num t4 = Some (c4, n4)" using t(4) by auto
  define e where "e = h + (length b1 + length b2 + length b3 + length b4)"
  note at = step_tlv_at [OF A t1 l(1), folded bs, OF sl(1), of e w]
    step_tlv_at [OF A t2 l(2), folded bs, OF sl(2), of e w]
    step_tlv_at [OF A t3 l(3), folded bs, OF sl(3), of e w]
    step_tlv_at [OF A t4 l(4), folded bs, OF sl(4), of e w]
  have e: "h + length inner = e" "length ?osn = e" by (simp_all add: e_def li lo)
  show ?thesis
    unfolding osn_members_def bs [symmetric]
    using s0 at sl unfolding e
    by (simp add: bnd_def recode_def Let_def e rd_block_def ret_def slice_def) (simp add: e_def ret_def bnd_def recode_def)
qed

section \<open>A notification is believed only when it is genuine\<close>

text \<open>What the metadata fills in, from the cleared output; there is nothing when the sequence number
  does not fit a \<open>long\<close> or the ICCID is not ten octets.\<close>

definition meta_of :: "'a asn1c \<Rightarrow> notification_metadata \<Rightarrow> rsp_notification option" where
  "meta_of A m = Option.bind (a_integer2long A (nm_seqNumber m)) (\<lambda>seq.
     let base = clear_notification\<lparr>rn_seq_number := seq, rn_operation :=
           byte_loop (nm_operation m) (length (nm_operation m)) (nm_bits_unused m) 0 (-1)\<rparr> in
     case nm_iccid m of None \<Rightarrow> Some base
     | Some ic \<Rightarrow> if length ic = 10 then Some (base\<lparr>rn_iccid := ic, rn_have_iccid := 1\<rparr>) else None)"

lemma notification_meta_run:
  assumes "notification_meta A m w = (Inr u, w')" "loc w = clear_notification"
  shows "meta_of A m = Some (loc w')"
  using assms by (cases "nm_iccid m") (auto simp: notification_meta_def meta_of_def cm_run)

lemma notification_meta_ok:
  assumes "meta_of A m = Some out" "loc w = clear_notification"
  shows "notification_meta A m w = (Inr (), w\<lparr>loc := out\<rparr>)"
  using assms
  by (cases "nm_iccid m")
    (auto simp: notification_meta_def meta_of_def bind_eq_Some_conv bnd_def lift_opt_def modify_def get_loc_def
      set_loc_def ensure_def ret_def Let_def split: if_splits)

lemma notification_meta_fail:
  assumes "notification_meta A m w = (Inl e, w')"
  shows "e = Minus1 \<and> rn_installed (loc w') = rn_installed (loc w)"
  using assms by (cases "nm_iccid m") (auto simp: notification_meta_def cm_run)

lemma meta_of_installed: "meta_of A m = Some out \<Longrightarrow> rn_installed out = 0 \<and> rn_is_installation_result out = 0"
  by (auto simp: meta_of_def bind_eq_Some_conv clear_notification_def Let_def split: option.splits if_splits)

definition installation_genuine ::
  "('c, 'g, 'p, 'k) mbedtls \<Rightarrow> 'a asn1c \<Rightarrow> cbuf \<Rightarrow> bytes \<Rightarrow> rsp_notification \<Rightarrow> bool" where
  "installation_genuine M A cert n out \<longleftrightarrow> take 2 n = [0xBF, 0x37] \<and>
     (case a_dec_installation_result A n of None \<Rightarrow> False
      | Some r \<Rightarrow> \<not> is_null cert \<and> pir_genuine M A (cdata cert) n r \<and>
          map_option (\<lambda>o'. o'\<lparr>rn_is_installation_result := 1,
             rn_installed := (if pir_finalResult r = SuccessResult then 1 else 0)\<rparr>) (meta_of A (pir_metadata r)) = Some out)"

definition other_genuine ::
  "('c, 'g, 'p, 'k) mbedtls \<Rightarrow> 'a asn1c \<Rightarrow> sgp26 \<Rightarrow> cbuf \<Rightarrow> bytes \<Rightarrow> rsp_notification \<Rightarrow> bool" where
  "other_genuine M A S cert n out \<longleftrightarrow>
     (case (a_dec_other_notification A n, osn_parts A n) of
        (Some r, Some [tbs, sig_tlv, euicc_c, eum_c]) \<Rightarrow>
          length (osn_signature r) = 64 \<and> (cdata cert \<noteq> [] \<longrightarrow> cdata cert = euicc_c) \<and>
          chain_good M S eum_c euicc_c \<and> signature_good M euicc_c tbs (osn_signature r) \<and>
          meta_of A (osn_tbs r) = Some out
      | _ \<Rightarrow> False)"

lemma verify_installation_wp:
  assumes A: "ber_laws A" and w: "loc w = clear_notification" and n: "take 2 n = [0xBF, 0x37]"
  shows "wp (verify_installation_notification M A cert n)
    (\<lambda>_ w'. installation_genuine M A cert n (loc w'))
    (\<lambda>e w'. e \<in> {Minus1, Minus2} \<and> rn_installed (loc w') = 0) w"
proof (rule wpI)
  fix u w' assume run: "verify_installation_notification M A cert n w = (Inr u, w')"
  then obtain c where c: "cert = Buf c"
    by (cases cert) (auto simp: verify_installation_notification_def cm_run)
  from run w obtain r d w1 w2 w3 and w0 :: "rsp_notification st" where
    r: "a_dec_installation_result A n = Some r" "length (pir_euiccSignPIR r) = 64" and
    1: "pir_data A n w0 = (Inr d, w1)" "loc w0 = clear_notification" and
    2: "rsp_sign_verify M (Buf c) (Buf d) (Some (pir_euiccSignPIR r)) w1 = (Inr (), w2)" and
    3: "notification_meta A (pir_metadata r) w2 = (Inr (), w3)" and
    4: "loc w' = (loc w3)\<lparr>rn_is_installation_result := 1,
          rn_installed := (if pir_finalResult r = SuccessResult then 1 else 0)\<rparr>"
    unfolding verify_installation_notification_def c by (auto simp: cm_run)
  from wp_Inr [OF pir_data_wp [OF A] 1(1)] verify_run [OF 2] 1(2)
  have "pir_genuine M A c n r" "loc w2 = clear_notification" using r(2) by (simp_all add: pir_genuine_def)
  with notification_meta_run [OF 3] 4 r(1) n c show "installation_genuine M A cert n (loc w')"
    by (simp add: installation_genuine_def)
next
  fix e w' assume run: "verify_installation_notification M A cert n w = (Inl e, w')"
  have k: "keeps (pir_data A p)" for p
    unfolding pir_data_def by (intro keeps_intros)
  from run w show "e \<in> {Minus1, Minus2} \<and> rn_installed (loc w') = 0"
    unfolding verify_installation_notification_def
    by (auto simp: cm_run clear_notification_def dest!: verify_fail wp_Inl [OF pir_data_wp [OF A]] notification_meta_fail
        keepsD [OF k, where r = "Inr x" for x] keepsD [OF keeps_sign(2), where r = "Inr x" for x])
qed

lemma verify_other_wp:
  assumes A: "ber_laws A" and w: "loc w = clear_notification"
  shows "wp (verify_other_notification M A S cert n)
    (\<lambda>_ w'. other_genuine M A S cert n (loc w'))
    (\<lambda>e w'. e \<in> {Minus1, Minus2} \<and> rn_installed (loc w') = 0) w"
proof (rule wpI)
  fix u w' assume run: "verify_other_notification M A S cert n w = (Inr u, w')"
  from run w obtain r tbs ec mc w1 ci1 ci2 eum euicc w3 w4 and w0 w2 :: "rsp_notification st" where
    r: "a_dec_other_notification A n = Some r" "length (osn_signature r) = 64" and
    1: "osn_members A n w0 = (Inr (tbs, ec, mc), w1)" and
    c: "\<not> is_null cert \<longrightarrow> clen cert > 0 \<longrightarrow> cdata cert = ec"
      "ext_cert M (ci_der S) = Some ci1" "ext_cert M (ci2017_der S) = Some ci2"
      "ext_cert M mc = Some eum" "ext_cert M ec = Some euicc"
      "m_crt_verify M eum [ci1, ci2]" "m_crt_verify M euicc [eum]" and
    2: "rsp_sign_verify M (Buf ec) (Buf tbs) (Some (osn_signature r)) w2 = (Inr (), w3)" and
    3: "notification_meta A (osn_tbs r) w3 = (Inr (), w4)" and
    4: "loc w' = (loc w4)\<lparr>rn_is_installation_result := 0\<rparr>" and
    l: "loc w0 = clear_notification" "loc w2 = loc w1"
    unfolding verify_other_notification_def rsp_pki_test_ci_def parse_ext_cert_def ext_cert_def [symmetric]
    by (auto simp: cm_run split: if_splits)
  from wp_Inr [OF osn_members_wp [OF A] 1] obtain sg where
    p: "osn_parts A n = Some [tbs, sg, ec, mc]" "w1 = w0" by auto
  from verify_run [OF 2] l p(2) have g: "signature_good M ec tbs (osn_signature r)" "loc w3 = clear_notification" by auto
  from notification_meta_run [OF 3 g(2)] meta_of_installed [of A "osn_tbs r" "loc w4"] 4
  have m: "meta_of A (osn_tbs r) = Some (loc w')" by simp
  have "cdata cert \<noteq> [] \<longrightarrow> cdata cert = ec" using c(1) by (cases cert) auto
  with r p(1) c g(1) m show "other_genuine M A S cert n (loc w')"
    by (simp add: other_genuine_def chain_good_def)
next
  fix e w' assume run: "verify_other_notification M A S cert n w = (Inl e, w')"
  have k: "loc w2 = loc w1" if "osn_members A n w1 = (Inr x, w2)" for x and w1 w2 :: "rsp_notification st"
    using wp_Inr [OF osn_members_wp [OF A] that] by (auto split: prod.splits)
  from run w show "e \<in> {Minus1, Minus2} \<and> rn_installed (loc w') = 0"
    unfolding verify_other_notification_def rsp_pki_test_ci_def parse_ext_cert_def
    by (auto simp: cm_run clear_notification_def dest!: verify_fail wp_Inl [OF osn_members_wp [OF A]] notification_meta_fail
        k keepsD [OF keeps_sign(2), where r = "Inr x" for x])
qed

lemma two_octets: "2 \<le> length n \<Longrightarrow> (n ! 0 = a \<and> n ! 1 = b) \<longleftrightarrow> take 2 n = [a, b]"
  by (cases n; cases "tl n") auto

text \<open>The two arms are told apart by the tag that arrived.\<close>

lemma notification_arms:
  assumes n: "2 \<le> length n" and w: "w0 = w\<lparr>loc := clear_notification\<rparr>"
  shows "rsp_dp_verify_notification M A S cert (Buf n) True w =
    (if take 2 n = [0xBF, 0x37] then verify_installation_notification M A cert n w0
     else if hd n AND 0x1F = 0x10 then verify_other_notification M A S cert n w0
     else (Inl Minus2, w0))"
proof -
  have "rsp_dp_verify_notification M A S cert (Buf n) True w =
    (if n ! 0 = 0xBF \<and> n ! 1 = 0x37 then verify_installation_notification M A cert n w0
     else if hd n AND 0x1F = 0x10 then verify_other_notification M A S cert n w0
     else (Inl Minus2, w0))"
    using n w by (auto simp: rsp_dp_verify_notification_def bnd_def ensure_def ret_def rd_def set_loc_def
        stop_with_def hd_conv_nth)
  then show ?thesis unfolding two_octets [OF n] .
qed

lemma verify_notification_wp:
  assumes A: "ber_laws A"
  shows "wp (rsp_dp_verify_notification M A S cert n True)
    (\<lambda>_ w'. installation_genuine M A cert (cdata n) (loc w') \<or> other_genuine M A S cert (cdata n) (loc w'))
    (\<lambda>e w'. e \<in> {Minus1, Minus2} \<and> (loc w' = loc w \<or> rn_installed (loc w') = 0)) w"
proof (cases "is_null n \<or> clen n < 2")
  case True
  then show ?thesis by (auto simp: rsp_dp_verify_notification_def wp_simps)
next
  case False
  then obtain b where b: "n = Buf b" "2 \<le> length b" by (cases n) auto
  define w0 where "w0 = w\<lparr>loc := clear_notification\<rparr>"
  have l: "loc w0 = clear_notification" by (simp add: w0_def)
  note i = verify_installation_wp [OF A l, where M = M and cert = cert and n = b]
  note o = verify_other_wp [OF A l, where M = M and S = S and cert = cert and n = b]
  show ?thesis
    using i o b unfolding wp_def b(1) notification_arms [OF b(2) w0_def]
    by (auto split: prod.splits sum.splits simp: l clear_notification_def)
qed

text \<open>Without a verification nothing is reported as installed.\<close>

lemma metadata_wp:
  "wp (rsp_dp_notification_metadata A n out_ok)
    (\<lambda>_ w'. rn_installed (loc w') = 0 \<and>
       (case (a_dec_installation_result A (cdata n), a_dec_other_notification A (cdata n)) of (p, q) \<Rightarrow>
         (\<exists>r. p = Some r \<and> map_option (\<lambda>o'. o'\<lparr>rn_is_installation_result := 1\<rparr>) (meta_of A (pir_metadata r)) = Some (loc w')) \<or>
         (\<exists>r. q = Some r \<and> meta_of A (osn_tbs r) = Some (loc w'))))
    (\<lambda>e w'. e = Minus2 \<and> (loc w' = loc w \<or> rn_installed (loc w') = 0)) w"
proof (rule wpI)
  fix u w' assume run: "rsp_dp_notification_metadata A n out_ok w = (Inr u, w')"
  have m: "meta_of A m = Some (loc v') \<and> rn_installed (loc v') = 0"
    if "notification_meta A m (tick (w\<lparr>loc := clear_notification\<rparr>)) = (Inr x, v')" for m x v'
    using notification_meta_run [OF that] meta_of_installed [of A m "loc v'"] by simp
  from run show "rn_installed (loc w') = 0 \<and>
       (case (a_dec_installation_result A (cdata n), a_dec_other_notification A (cdata n)) of (p, q) \<Rightarrow>
         (\<exists>r. p = Some r \<and> map_option (\<lambda>o'. o'\<lparr>rn_is_installation_result := 1\<rparr>) (meta_of A (pir_metadata r)) = Some (loc w')) \<or>
         (\<exists>r. q = Some r \<and> meta_of A (osn_tbs r) = Some (loc w')))"
    unfolding rsp_dp_notification_metadata_def by (auto simp: cm_run dest!: m split: if_splits)
next
  fix e w' assume "rsp_dp_notification_metadata A n out_ok w = (Inl e, w')"
  then show "e = Minus2 \<and> (loc w' = loc w \<or> rn_installed (loc w') = 0)"
    unfolding rsp_dp_notification_metadata_def
    by (cases n) (auto simp: cm_run clear_notification_def rd_def stop_with_def ret_def dest!: notification_meta_fail
        split: if_splits)
qed

text \<open>A genuine notification is accepted.\<close>

lemma installation_notification_ok:
  assumes A: "ber_laws A" and f: "faults w = []" "loc w = clear_notification"
    and n: "length d \<le> 0xFFFFFFFF" "length (tlv [0xBF, 0x27] d @ rest) \<le> 0xFFFFFFFF"
      "n = tlv [0xBF, 0x37] (tlv [0xBF, 0x27] d @ rest)"
    and g: "installation_genuine M A cert n out"
  shows "verify_installation_notification M A cert n w = (Inr (), w\<lparr>loc := out\<rparr>)"
proof -
  note p = pir_data_ok [OF A f(1) n(1,2), folded n(3)]
  from g obtain r c base where
    r: "a_dec_installation_result A n = Some r" "cert = Buf c" "length (pir_euiccSignPIR r) = 64"
      "signature_good M c (tlv [0xBF, 0x27] d) (pir_euiccSignPIR r)" "meta_of A (pir_metadata r) = Some base"
      "out = base\<lparr>rn_is_installation_result := 1, rn_installed := (if pir_finalResult r = SuccessResult then 1 else 0)\<rparr>"
    by (cases cert) (auto simp: installation_genuine_def pir_genuine_def p(2) split: option.splits)
  have "c \<noteq> []" using r(4) by (simp add: signature_good_def)
  with f r p(1) signature_good_ok [OF f(1) r(4)] notification_meta_ok [OF r(5) f(2)]
  show ?thesis
    by (simp add: verify_installation_notification_def bnd_def ensure_def ret_def recode_def modify_def get_loc_def set_loc_def)
qed

lemma other_notification_ok:
  assumes A: "ber_laws A" and f: "faults w = []" "loc w = clear_notification"
    and m: "osn_members A n w = (Inr (tbs, ec, mc), w)" "osn_parts A n = Some [tbs, sg, ec, mc]"
    and g: "other_genuine M A S cert n out"
  shows "verify_other_notification M A S cert n w = (Inr (), w\<lparr>loc := out\<rparr>)"
proof -
  from g m(2) obtain r where
    r: "a_dec_other_notification A n = Some r" "length (osn_signature r) = 64" "cdata cert \<noteq> [] \<longrightarrow> cdata cert = ec"
      "chain_good M S mc ec" "signature_good M ec tbs (osn_signature r)" "meta_of A (osn_tbs r) = Some out"
    by (auto simp: other_genuine_def split: option.splits)
  from r(4) obtain ci1 ci2 eum euicc where
    c: "ext_cert M (ci_der S) = Some ci1" "ext_cert M (ci2017_der S) = Some ci2"
      "ext_cert M mc = Some eum" "ext_cert M ec = Some euicc"
      "m_crt_verify M eum [ci1, ci2]" "m_crt_verify M euicc [eum]"
    by (auto simp: chain_good_def split: option.splits)
  have i: "out\<lparr>rn_is_installation_result := 0\<rparr> = out"
    using meta_of_installed [OF r(6)] by simp
  have "\<not> (\<not> is_null cert \<and> clen cert > 0 \<and> cdata cert \<noteq> ec)" using r(3) by (cases cert) auto
  with f r(1,2) c m(1) signature_good_ok [OF f(1) r(5)] notification_meta_ok [OF r(6) f(2)] i
  show ?thesis
    unfolding verify_other_notification_def rsp_pki_test_ci_def parse_ext_cert_def ext_cert_def [symmetric]
    by (simp add: bnd_def ensure_def ret_def recode_def modify_def get_loc_def set_loc_def)
qed

lemma installation_result_ok:
  assumes A: "ber_laws A" and f: "faults w = []" and s: "session_ok s" "ss_authenticated s" "ss_euicc_cert s = Owned cert"
    and n: "length d \<le> 0xFFFFFFFF" "length (tlv [0xBF, 0x27] d @ rest) \<le> 0xFFFFFFFF"
      "n = tlv [0xBF, 0x37] (tlv [0xBF, 0x27] d @ rest)"
    and g: "a_dec_installation_result A n = Some r" "pir_transactionId r = ss_transaction_id s"
      "pir_genuine M A cert n r" "pir_finalResult r \<noteq> NoResult"
  shows "rsp_dp_verify_installation_result M A (Some s) (Buf n) True w =
    (Inr (), w\<lparr>loc := pir_report A (pir_finalResult r) (loc w)\<rparr>)"
proof -
  note p = pir_data_ok [OF A f(1) n(1,2), folded n(3)]
  from g(3) have sg: "length (pir_euiccSignPIR r) = 64" "signature_good M cert (tlv [0xBF, 0x27] d) (pir_euiccSignPIR r)"
    by (simp_all add: pir_genuine_def p(2))
  have l: "ss_euicc_cert_len s = length cert" "length (ss_transaction_id s) = 16" "n \<noteq> []"
    using s n(3) by (auto simp: session_ok_def tlv_def)
  show ?thesis
    using f s(2,3) g(1,2,4) p(1) sg(1) signature_good_ok [OF f sg(2)] l
    by (cases "pir_finalResult r")
      (simp_all add: rsp_dp_verify_installation_result_def read_ptr_def pir_report_def bnd_def ensure_def ret_def
        modify_def get_loc_def set_loc_def)
qed

end
