(* ===== verification/Answers.thy ===== *)
theory Answers
  imports Download Notify
begin

text \<open>
  How the calls fail. A C function that is used as \<open>rsp.h\<close> says has two ways to fail, -1 and -2:
  \<open>answers\<close> says that a computation never stops in any other way, so it reads and writes only
  inside its buffers and every loop of it ends, whatever the input and whichever calls fail.
  The session handlers have it for every well-formed session.
\<close>

named_theorems answers_intros \<open>computations that fail with -1 or -2 only\<close>

definition answers :: "('x, 'a) cm \<Rightarrow> bool" where
  "answers m \<longleftrightarrow> (\<forall>w e w'. m w = (Inl e, w') \<longrightarrow> e \<in> {Minus1, Minus2})"

lemma answersI: "(\<And>w e w'. m w = (Inl e, w') \<Longrightarrow> e \<in> {Minus1, Minus2}) \<Longrightarrow> answers m"
  unfolding answers_def by blast

lemma answersD: "answers m \<Longrightarrow> m w = (Inl e, w') \<Longrightarrow> e \<in> {Minus1, Minus2}"
  unfolding answers_def by blast

lemma answers_basic [answers_intros]:
  "answers (ret x)" "answers get_loc" "answers (set_loc y)" "answers (modify f)"
  "e \<in> {Minus1, Minus2} \<Longrightarrow> answers (stop_with e)" "e \<in> {Minus1, Minus2} \<Longrightarrow> answers (ensure b e)"
  "e \<in> {Minus1, Minus2} \<Longrightarrow> answers (ext e v)" "e \<in> {Minus1, Minus2} \<Longrightarrow> answers (malloc e n)"
  "e \<in> {Minus1, Minus2} \<Longrightarrow> answers (lift_opt e v)"
  by (auto simp: answers_def cm_run)

lemma answers_bnd: "answers m \<Longrightarrow> (\<And>x w w'. m w = (Inr x, w') \<Longrightarrow> answers (k x)) \<Longrightarrow> answers (bnd m k)"
  unfolding answers_def by (fastforce simp: bnd_Inl)

lemma answers_bnd' [answers_intros]: "answers m \<Longrightarrow> (\<And>x. answers (k x)) \<Longrightarrow> answers (bnd m k)"
  by (rule answers_bnd)

lemma bnd_ret: "bnd (ret x) k = k x"
  by (simp add: bnd_def ret_def fun_eq_iff)

lemma answers_wrap [answers_intros]:
  "answers m \<Longrightarrow> e \<in> {Minus1, Minus2} \<Longrightarrow> answers (recode e m)"
  "answers m \<Longrightarrow> answers (attempt m)" "answers m' \<Longrightarrow> answers (nested y m')" "answers m \<Longrightarrow> answers (on_stop m f)"
  by (auto simp: answers_def cm_run)

lemma answers_if [answers_intros]: "answers m \<Longrightarrow> answers n \<Longrightarrow> answers (if b then m else n)"
  by simp

lemma answers_case [answers_intros]:
  "(\<And>a b. answers (f a b)) \<Longrightarrow> answers (case p of (a, b) \<Rightarrow> f a b)"
  "answers m \<Longrightarrow> (\<And>x. answers (g x)) \<Longrightarrow> answers (case v of None \<Rightarrow> m | Some x \<Rightarrow> g x)"
  by (simp_all split: prod.split option.split)

section \<open>Helpers and cryptography\<close>

lemma answers_growbuf:
  "gb_ok g \<Longrightarrow> length (gb_bytes g) + length d \<le> 2 ^ 63 \<Longrightarrow> answers (rsp_growbuf_append g d)"
  by (rule answersI) (use growbuf_append_code in blast)

lemma answers_encode [answers_intros]:
  assumes "bounded_enc f"
  shows "answers (der_encode_alloc (f x) :: ('x, bytes) cm)"
proof (cases "f x")
  case None
  then show ?thesis by (auto simp: answers_def der_encode_alloc_def cm_run)
next
  case (Some bs)
  with assms have l: "length (concat bs) \<le> 2 ^ 63 - 1" unfolding bounded_enc_def by blast
  have "answers (append_blocks der_collect g ds :: ('x, growbuf) cm)"
    if "gb_ok g" "length (gb_bytes g) + length (concat ds) \<le> 2 ^ 63" for g and ds
    using that
  proof (induction ds arbitrary: g)
    case Nil
    then show ?case by (simp add: answers_intros)
  next
    case (Cons d ds)
    have "answers (der_collect g d :: ('x, growbuf) cm)"
      unfolding der_collect_def using Cons.prems by (intro answers_wrap answers_growbuf) simp_all
    moreover have "answers (append_blocks der_collect g' ds :: ('x, growbuf) cm)" if "der_collect g d w = (Inr g', w')" for g' and w w' :: "'x st"
      using der_collect_run [OF Cons.prems(1) that] Cons.prems(2) by (auto intro!: Cons.IH)
    ultimately show ?case by (simp only: append_blocks.simps) (rule answers_bnd)
  qed
  from this [OF gb_ok_empty(1), of bs] l have "answers (append_blocks der_collect empty_growbuf bs :: ('x, growbuf) cm)" by simp
  then show ?thesis by (simp add: der_encode_alloc_def Some lift_opt_def bnd_ret) (intro answers_intros)
qed

lemma answers_crypto [answers_intros]:
  "answers rsp_rng_init" "answers (rsp_sign M c tbs ok)" "answers (rsp_sign_verify M cert tbs sig)"
  "answers (rsp_pki_test_ci S a b)" "answers (octet_string Minus1 b')" "answers (octet_string Minus2 b')"
  "answers (rsp_ecdh_p256 M sk pk b)"
  unfolding rsp_rng_init_def rsp_sign_def rsp_sign_verify_def rsp_pki_test_ci_def octet_string_def rsp_ecdh_p256_def
  by (intro answers_intros; simp)+

lemma answers_pki [answers_intros]: "answers (rsp_pki_dp M S role)" "answers (rsp_pki_verify M S c)"
  unfolding rsp_pki_dp_def rsp_pki_verify_def by (intro answers_intros; simp)+

lemma answers_scp [answers_intros]:
  "answers (rsp_protect M p t oc)" "answers (rsp_protect_mac_only M p t oc)"
  by (rule answersI; use protect_fail protect_mac_only_fail in blast)+

section \<open>Initiation and authentication\<close>

lemma answers_initiate:
  assumes "enc_laws A"
  shows "answers (rsp_dp_initiate_authentication M A S junk chal info1 t sc addr req ok)"
proof -
  have "bounded_enc (a_enc_server_signed1 A)" "bounded_enc (a_enc_init_auth_ok A)"
    using assms by (simp_all add: enc_laws_def)
  then show ?thesis
    unfolding rsp_dp_initiate_authentication_def initiate_commit_def initiate_response_def Let_def
    by (intro answers_intros; simp)
qed

lemma answers_read_ptr:
  assumes "session_ok s"
  shows "answers (read_ptr (ss_euicc_cert s) (ss_euicc_cert_len s))" "answers (read_ptr (ss_metadata s) (ss_metadata_len s))"
  using assms by (auto simp: session_ok_def read_ptr_def answers_intros split: ptr.splits)

lemma answers_auth:
  assumes "enc_laws A" "session_ok s"
  shows "answers (auth_decode A r md)" "answers (auth_verify M A S s rok)" "answers (auth_respond M A S s rok md)"
    "answers (auth_commit s der eid md sig)"
proof -
  have e: "bounded_enc (a_enc_certificate A)" "bounded_enc (a_enc_euicc_signed1 A)" "bounded_enc (a_enc_smdp_signed2 A)"
    "bounded_enc (a_enc_auth_client_ok A)"
    using assms(1) by (simp_all add: enc_laws_def)
  show "answers (auth_decode A r md)"
    unfolding auth_decode_def
    by (intro answers_intros; simp split: auth_server_response.split add: answers_intros)
  show "answers (auth_verify M A S s rok)" "answers (auth_respond M A S s rok md)"
    unfolding auth_verify_def auth_respond_def parse_ext_cert_def Let_def using e by (intro answers_intros; simp)+
  have "ss_euicc_cert s \<noteq> Wild" "ss_metadata s \<noteq> Wild" using assms(2) by (auto simp: session_ok_def)
  then show "answers (auth_commit s der eid md sig)"
    by (intro answersI) (use auth_commit_fail in blast)
qed

lemma authenticate_code:
  assumes "rsp_dp_authenticate_client M A S resp md ok w = (Inl e, w')" "enc_laws A"
    and "\<forall>s. ao_session (loc w) = Some s \<longrightarrow> session_ok s"
  shows "e \<in> {Minus1, Minus2}"
proof (cases "ao_session (loc w)")
  case None
  with assms(1) show ?thesis by (auto simp: rsp_dp_authenticate_client_def Let_def cm_run)
next
  case (Some s)
  with assms(3) have s: "session_ok s" by simp
  note a = answers_auth [OF assms(2) s]
  have "answers (bnd (auth_decode A (cdata resp) (cdata md)) (\<lambda>rok. bnd (auth_verify M A S s rok) (\<lambda>(der, eid).
      bnd (auth_respond M A S s rok (cdata md)) (\<lambda>(out, sig).
      bnd (set_loc ((loc w)\<lparr>ao_out := Buf out\<rparr>)) (\<lambda>_. auth_commit s der eid (cdata md) sig)))))"
    by (intro answers_intros a)
  with assms(1) Some show ?thesis
    by (auto simp: rsp_dp_authenticate_client_def Let_def bnd_Inl [of get_loc] bnd_Inl [of "ensure _ _"] get_loc_run
        ensure_Inr ensure_Inl dest: answersD)
qed

section \<open>Building a package\<close>

text \<open>The buffers of a build stay far below the size at which \<open>rsp_growbuf_append\<close> would not
  return: everything but the profile's segments is a few kilobytes, and the segments are limited by
  the four length octets of their wrapper or, before it is written, by the size of the profile.\<close>

lemma answers_put:
  assumes "gb_ok g" "length (gb_bytes g) + length tag + 5 + length content \<le> 2 ^ 63"
  shows "answers (put_tlv_tag g tag content :: ('x, growbuf) cm)"
proof -
  have a: "answers (rsp_growbuf_append g tag :: ('x, growbuf) cm)" using assms by (intro answers_growbuf) simp_all
  have lo: "length lo \<le> 5" if "rsp_der_length_octets (length content) = Some lo" for lo
    using der_length_size [OF that] by (simp add: der_len_size_def)
  have b: "gb_ok g1 \<and> gb_bytes g1 = gb_bytes g @ tag" if "rsp_growbuf_append g tag w = (Inr g1, w1)" for g1 and w w1 :: "'x st"
    using growbuf_append_run [OF assms(1) that] by simp
  have c: "answers (rsp_growbuf_append g1 lo :: ('x, growbuf) cm)"
    if "gb_ok g1 \<and> gb_bytes g1 = gb_bytes g @ tag" "length lo \<le> 5" for g1 lo
    using that assms(2) by (intro answers_growbuf) simp_all
  have d: "answers (rsp_growbuf_append g2 content :: ('x, growbuf) cm)"
    if "gb_ok g1 \<and> gb_bytes g1 = gb_bytes g @ tag" "length lo \<le> 5" "rsp_growbuf_append g1 lo w = (Inr g2, w2)" for g1 lo g2 and w w2 :: "'x st"
    using growbuf_append_run [OF conjunct1 [OF that(1)] that(3)] that assms(2) by (intro answers_growbuf) simp_all
  show ?thesis
    unfolding put_tlv_tag_def
    by (rule answers_bnd, simp add: answers_intros, drule lift_opt_Inr [THEN iffD1], elim conjE, drule lo,
        rule answers_bnd, intro answers_wrap a, simp, drule recode_Inr [THEN iffD1], drule b,
        rule answers_bnd, intro answers_wrap c, assumption+, simp, drule recode_Inr [THEN iffD1],
        intro answers_if answers_wrap, erule (2) d, simp, simp add: answers_intros)
qed

text \<open>With a fact about the result, whatever the state.\<close>

definition safely :: "('x, 'a) cm \<Rightarrow> ('a \<Rightarrow> bool) \<Rightarrow> bool" where
  "safely m P \<longleftrightarrow> answers m \<and> (\<forall>w x w'. m w = (Inr x, w') \<longrightarrow> P x)"

lemma safelyI: "answers m \<Longrightarrow> (\<And>w x w'. m w = (Inr x, w') \<Longrightarrow> P x) \<Longrightarrow> safely m P"
  unfolding safely_def by blast

lemma safely_bnd: "safely m P \<Longrightarrow> (\<And>x. P x \<Longrightarrow> safely (k x) Q) \<Longrightarrow> safely (bnd m k) Q"
proof (rule safelyI)
  assume m: "safely m P" and k: "\<And>x. P x \<Longrightarrow> safely (k x) Q"
  show "answers (bnd m k)" by (rule answers_bnd) (use m k in \<open>auto simp: safely_def\<close>)
  fix w x w' assume "bnd m k w = (Inr x, w')"
  then obtain y v where "m w = (Inr y, v)" "k y v = (Inr x, w')" by (auto simp: bnd_Inr)
  with m k [of y] show "Q x" unfolding safely_def by blast
qed

lemma safely_recode: "safely m P \<Longrightarrow> e \<in> {Minus1, Minus2} \<Longrightarrow> safely (recode e m) P"
  unfolding safely_def by (auto intro: answers_wrap simp: recode_Inr)

lemma safely_weaken: "safely m P \<Longrightarrow> (\<And>x. P x \<Longrightarrow> Q x) \<Longrightarrow> safely m Q"
  unfolding safely_def by blast

lemma safely_any: "answers m \<Longrightarrow> safely m (\<lambda>_. True)"
  by (simp add: safely_def)

lemma safely_ret: "P x \<Longrightarrow> safely (ret x) P"
  by (simp add: safely_def answers_intros ret_run)

lemma safely_ensure: "e \<in> {Minus1, Minus2} \<Longrightarrow> safely (ensure b e) (\<lambda>_. b)"
  by (simp add: safely_def answers_intros ensure_Inr)

text \<open>\<open>small g n\<close>: a valid buffer of at most \<open>n\<close> octets.\<close>

abbreviation small :: "growbuf \<Rightarrow> nat \<Rightarrow> bool" where
  "small g n \<equiv> gb_ok g \<and> length (gb_bytes g) \<le> n"

lemma put_safely:
  assumes "small g n" "length content \<le> m" "length tag \<le> 2" "n + m \<le> 2 ^ 62"
  shows "safely (recode Minus1 (put_tlv_tag g tag content)) (\<lambda>g'. small g' (n + m + 7))"
proof (intro safely_recode safelyI)
  show "answers (put_tlv_tag g tag content)" using assms by (intro answers_put) auto
next
  fix w g' w' assume 1: "put_tlv_tag g tag content w = (Inr g', w')"
  have "length (tlv tag content) \<le> length tag + 5 + length content"
    using put_tlv_tag_run [OF _ 1] assms(1) by (intro length_tlv_le) simp
  with put_tlv_tag_run [OF _ 1] assms show "small g' (n + m + 7)" by auto
qed simp

lemma build_isc_tbs_safely:
  assumes "length tid = 16" "length k1 = 65" "length k2 = 65"
  shows "safely (build_isc_tbs empty_growbuf tid 0x88 0x10 RSP_HOST_ID k1 k2) (\<lambda>_. True)"
  unfolding build_isc_tbs_def put_tlv_def
  by (rule safely_bnd, rule put_safely [where n = 0 and m = 1], simp, simp, simp, simp,
      rule safely_bnd, rule put_safely [where n = 8 and m = 1], simp, simp, simp, simp,
      rule safely_bnd, rule put_safely [where n = 16 and m = 9], simp, simp add: RSP_HOST_ID_def, simp, simp,
      rule safely_bnd, rule put_safely [where n = 0 and m = 1], simp, simp, simp, simp,
      rule safely_bnd, rule put_safely [where n = 8 and m = 16], simp, simp add: assms, simp, simp,
      rule safely_bnd, rule put_safely [where n = 31 and m = 32], simp, simp, simp, simp,
      rule safely_bnd, rule put_safely [where n = 70 and m = 65], simp, simp add: assms, simp add: TAG_OTPK_def, simp,
      rule safely_weaken, rule put_safely [where n = 142 and m = 65])
    (simp_all add: assms TAG_OTPK_def)

lemma build_isc_answers:
  assumes "length (the (bi_transaction_id inp)) = 16" "length (the (bi_otpk_dp inp)) = 65"
    "length (the (bi_euicc_otpk inp)) = 65"
  shows "answers (build_isc M inp)"
  using build_isc_tbs_safely [OF assms] unfolding safely_def build_isc_def by (intro answers_intros; simp)

lemma protect_safely:
  assumes "cipher_laws M"
  shows "safely (rsp_protect M p t (Some c)) (\<lambda>out. length out \<le> c)"
    "safely (rsp_protect_mac_only M p t (Some c)) (\<lambda>out. length out \<le> c)"
proof -
  have "length out \<le> c" if "rsp_protect M p t (Some c) w = (Inr out, w')" for out w w'
  proof -
    from that obtain icv mac16 where "out = m_cbc_enc M (s_enc (the (loc w))) icv (scp03t_pad (cdata p)) @ take RSP_SCP03T_MAC_LEN mac16"
      "\<not> clen p + (16 - clen p mod 16) + RSP_SCP03T_MAC_LEN > c" "\<not> (is_null p \<and> clen p \<noteq> 0)"
      unfolding rsp_protect_def Let_def by (auto simp: cm_run)
    then show ?thesis
      by (cases p) (auto simp: cipher_lengths(1) [OF assms scp03t_pad_blocks] length_scp03t_pad RSP_SCP03T_MAC_LEN_def)
  qed
  moreover have "length out \<le> c" if "rsp_protect_mac_only M p t (Some c) w = (Inr out, w')" for out w w'
  proof -
    from that obtain mac16 where "out = cdata p @ take RSP_SCP03T_MAC_LEN mac16" "\<not> clen p + RSP_SCP03T_MAC_LEN > c"
      unfolding rsp_protect_mac_only_def Let_def by (auto simp: cm_run)
    then show ?thesis by (cases p) (simp_all add: RSP_SCP03T_MAC_LEN_def)
  qed
  ultimately show "safely (rsp_protect M p t (Some c)) (\<lambda>out. length out \<le> c)"
    "safely (rsp_protect_mac_only M p t (Some c)) (\<lambda>out. length out \<le> c)"
    by (intro safelyI answers_intros; blast)+
qed

lemma put_wrapped_safely:
  assumes "small g n" "length prot \<le> m" "n + m \<le> 2 ^ 61"
  shows "safely (put_wrapped g wr el prot) (\<lambda>g'. small g' (n + m + 14))"
  unfolding put_wrapped_def put_tlv_def
  by (rule safely_bnd, rule put_safely [where n = 0 and m = m], simp, rule assms, simp, use assms in simp,
      rule safely_weaken, rule put_safely [OF assms(1), where m = "m + 7"])
    (use assms in auto)

text \<open>A segment adds at most 1038 octets to the buffer, so a profile of up to \<open>2 ^ 50\<close> octets is cut
  into segments without its loop overflowing.\<close>

lemma seg86_safely:
  assumes M: "cipher_laws M" and upp: "length upp \<le> 2 ^ 50"
  shows "off < length upp \<Longrightarrow> small g (1038 * off) \<Longrightarrow>
    safely (seg86_loop M upp off g) (\<lambda>g'. small g' (1038 * length upp))"
proof (induction "length upp - off" arbitrary: off g rule: less_induct)
  case less
  define n where "n = min 1007 (length upp - off)"
  have n: "0 < n" "off + n \<le> length upp" "length upp - (off + n) < length upp - off"
    using less.prems(1) by (auto simp: n_def)
  have put: "safely (recode Minus1 (put_tlv g 0x86 seg)) (\<lambda>g'. small g' (1038 * (off + n)))"
    if "length seg \<le> 1031" for seg
    unfolding put_tlv_def
    by (rule safely_weaken, rule put_safely [OF less.prems(2), where m = 1031]) (use that less.prems upp n in auto)
  have rest: "safely (if off + n < length upp then seg86_loop M upp (off + n) g' else ret g')
      (\<lambda>g'. small g' (1038 * length upp))" if "small g' (1038 * (off + n))" for g'
    using less.hyps [OF n(3) _ that] that n(2) by (auto intro: safely_ret)
  show ?case
    unfolding seg86_step [OF less.prems(1)] Let_def n_def [symmetric]
    by (rule safely_bnd, rule safely_recode, rule protect_safely(1) [OF M], simp, rule safely_bnd, erule put, erule rest)
qed

lemma encode_isc_safely:
  assumes "enc_laws A" "isc_codec_law A"
  shows "safely (der_encode_alloc (a_enc_isc A r)) (\<lambda>d. length d \<le> 2 ^ 33)"
proof (rule safelyI)
  have "bounded_enc (a_enc_isc A)" using assms(1) by (simp add: enc_laws_def)
  then show "answers (der_encode_alloc (a_enc_isc A r))" by (rule answers_encode)
next
  fix w d w' assume "der_encode_alloc (a_enc_isc A r) w = (Inr d, w')"
  from der_encode_run [OF this] obtain bs where "a_enc_isc A r = Some bs" "d = concat bs" by auto
  with assms(2) obtain iv where "d = tlv [0xBF, 0x23] iv" "length iv \<le> 0xFFFFFFFF" unfolding isc_codec_law_def by blast
  then show "length d \<le> 2 ^ 33" using length_tlv_le [of iv "[0xBF, 0x23]"] by simp
qed

lemma append_safely:
  assumes "small g n" "length d \<le> m" "n + m \<le> 2 ^ 63"
  shows "safely (recode Minus1 (rsp_growbuf_append g d)) (\<lambda>g'. small g' (n + m))"
proof (intro safely_recode safelyI)
  show "answers (rsp_growbuf_append g d)" using assms by (intro answers_growbuf) auto
next
  fix w g' w' assume "rsp_growbuf_append g d w = (Inr g', w')"
  from growbuf_append_run [OF _ this] assms show "small g' (n + m)" by auto
qed simp

lemma bpp_content_safely:
  assumes A: "enc_laws A" "isc_codec_law A" and M: "cipher_laws M"
    and i: "length (the (bi_transaction_id inp)) = 16" "length (the (bi_otpk_dp inp)) = 65"
      "length (the (bi_euicc_otpk inp)) = 65" "length (cdata (bi_upp inp)) \<le> 2 ^ 50" "0 < length (cdata (bi_upp inp))"
  shows "safely (bpp_content M A inp) gb_ok"
proof -
  have e: "bounded_enc (a_enc_configure A)" using A(1) by (simp add: enc_laws_def)
  show ?thesis
    unfolding bpp_content_def Let_def put_tlv_def
    by (rule safely_bnd, rule safely_recode, rule safely_any, rule build_isc_answers, rule i, rule i, rule i, simp,
        rule safely_bnd, rule safely_recode, rule encode_isc_safely [OF A], simp,
        rule safely_bnd, rule append_safely [where n = 0 and m = "2 ^ 33"], simp, assumption, simp,
        rule safely_bnd, rule safely_recode, rule safely_any, rule answers_encode [OF e], simp,
        rule safely_bnd, rule safely_ensure, simp,
        rule safely_bnd, rule safely_recode, rule protect_safely(1) [OF M], simp,
        rule safely_bnd, rule put_wrapped_safely [where n = "2 ^ 34" and m = "2 ^ 34"], simp, simp add: RSP_BPP_SEGMENT_BUF_def RSP_BPP_MAX_SEGMENT_PLAINTEXT_def, simp,
        rule safely_bnd, rule safely_ensure, simp,
        rule safely_bnd, rule safely_recode, rule protect_safely(2) [OF M], simp,
        rule safely_bnd, rule put_wrapped_safely [where n = "2 ^ 36" and m = "2 ^ 36"], simp, simp add: RSP_BPP_SEGMENT_BUF_def RSP_BPP_MAX_SEGMENT_PLAINTEXT_def, simp,
        rule safely_bnd, rule seg86_safely [OF M i(4,5)], simp,
        rule safely_weaken, rule put_safely [where n = "2 ^ 38" and m = "2 ^ 61"], simp, use i(4) in simp, simp, simp, simp)
qed

lemma bpp_envelope_answers:
  assumes "gb_ok ct"
  shows "answers (bpp_envelope ct)"
proof -
  have lo: "safely (lift_opt Minus1 (rsp_der_length_octets (gb_len ct)) :: ('x, bytes) cm) (\<lambda>lo. length lo \<le> 5 \<and> gb_len ct \<le> 0xFFFFFFFF)"
  proof (rule safelyI)
    fix w :: "'x st" and lo w'
    assume "lift_opt Minus1 (rsp_der_length_octets (gb_len ct)) w = (Inr lo, w')"
    then have lo: "rsp_der_length_octets (gb_len ct) = Some lo" by (simp add: lift_opt_Inr)
    then show "length lo \<le> 5 \<and> gb_len ct \<le> 0xFFFFFFFF"
      using der_length_size [OF lo] der_length_refused [of "gb_len ct"] by (auto simp: der_len_size_def)
  qed (simp add: answers_intros)
  have "length (gb_bytes ct) = gb_len ct" by (rule length_gb_bytes [OF assms])
  then have "safely (bpp_envelope ct :: ('x, bytes) cm) (\<lambda>_. True)"
    unfolding bpp_envelope_def
    by - (rule safely_bnd [OF lo], elim conjE, rule safely_bnd, rule append_safely [where n = 0 and m = 2], simp, simp add: TAG_BPP_def, simp,
        rule safely_bnd, rule append_safely [where n = 2 and m = 5], simp, assumption, simp,
        rule safely_bnd, rule append_safely [where n = 7 and m = "2 ^ 33"], simp, simp, simp, rule safely_ret, simp)
  then show ?thesis by (simp add: safely_def)
qed

lemma bpp_build_answers:
  assumes "enc_laws A" "isc_codec_law A" "cipher_laws M"
    and "length (the (bi_transaction_id inp)) = 16" "length (the (bi_otpk_dp inp)) = 65"
      "length (the (bi_euicc_otpk inp)) = 65" "length (cdata (bi_upp inp)) \<le> 2 ^ 50"
  shows "answers (rsp_bpp_build M A (Some inp) out_ok)"
proof (cases "cdata (bi_upp inp) = []")
  case True
  then have "is_null (bi_upp inp) \<or> clen (bi_upp inp) = 0" by (cases "bi_upp inp") auto
  then show ?thesis by (auto simp: answers_def rsp_bpp_build_def Let_def cm_run)
next
  case False
  then have "safely (bnd (bpp_content M A inp) bpp_envelope) (\<lambda>_. True)"
    using assms by (intro safely_bnd [OF bpp_content_safely] safely_any bpp_envelope_answers) simp_all
  then have "answers (bnd (bpp_content M A inp) bpp_envelope)" by (simp add: safely_def)
  then show ?thesis
    unfolding rsp_bpp_build_def Let_def option.sel
    by (intro answers_bnd' [of get_loc] answers_bnd' [of "ensure _ _"] answers_basic; simp)
qed

section \<open>The download\<close>

lemma answers_kdf_loop: "answers (kdf_loop M z info n produced c)"
proof (induction M z info n produced c rule: kdf_loop.induct)
  case (1 M z info n produced c)
  then show ?case by (subst kdf_loop.simps) (auto simp: Let_def intro!: answers_intros)
qed

lemma answers_session_init:
  assumes "ecdsa_laws M" "length info \<le> 1000"
  shows "answers (rsp_session_init M sk pk (Buf info))"
proof -
  have z: "safely (recode Minus1 (rsp_ecdh_p256 M sk pk True) :: ('x, bytes) cm) (\<lambda>z. length z = 32)"
  proof (intro safely_recode safelyI answers_intros)
    fix w w' :: "'x st" and z assume "rsp_ecdh_p256 M sk pk True w = (Inr z, w')"
    then obtain x where "m_mpi_write M x 32 = Some z" by (auto simp: rsp_ecdh_p256_def cm_run)
    with assms(1) show "length z = 32" by (auto simp: ecdsa_laws_def)
  qed simp
  have k: "answers (rsp_kdf_x963 M (Buf z) (Buf info))" if "length z = 32" for z
  proof -
    have "clen (Buf z) + 4 + clen (Buf info) \<le> size_max" using that assms(2) by (simp add: size_max_def)
    then show ?thesis
      unfolding rsp_kdf_x963_def ensure_def by (simp add: bnd_ret) (auto intro!: answers_intros answers_kdf_loop)
  qed
  have "safely (bnd (recode Minus1 (rsp_ecdh_p256 M sk pk True)) (\<lambda>z.
        bnd (recode Minus1 (nested (Buf (replicate 48 0)) (rsp_kdf_x963 M (Buf z) (Buf info)))) (\<lambda>r.
        let key_data = cdata (snd r) in
        set_loc (Some \<lparr>s_enc = take 16 (drop 16 key_data), s_mac = take 16 (drop 32 key_data),
                       s_chain = take 16 key_data, enc_counter = replicate 15 0 @ [1]\<rparr>)))) (\<lambda>_. True)"
    by (rule safely_bnd [OF z], rule safely_any) (auto simp: Let_def intro!: answers_intros k)
  note inner = this [unfolded safely_def, THEN conjunct1]
  show ?thesis
    unfolding rsp_session_init_def
    by (rule answers_bnd', simp add: answers_intros, rule answers_bnd', simp add: answers_intros,
        rule answers_wrap(4), rule answers_bnd', simp add: answers_intros, rule inner)
qed

lemma answers_download_keys:
  assumes "ecdsa_laws M" "session_ok s"
  shows "answers (download_keys M s pk sk)"
proof -
  have e: "safely (recode Minus2 (eid_digits_to_octets (ss_eid s) (ss_eid_len s) 16) :: ('x, bytes) cm) (\<lambda>oct. length oct = 16)"
  proof (intro safely_recode safelyI answersI)
    fix w w' :: "'x st" and e assume 1: "eid_digits_to_octets (ss_eid s) (ss_eid_len s) 16 w = (Inl e, w')"
    have "length (ss_eid s) = 32" "ss_eid_len s \<le> 32" using assms(2) by (simp_all add: session_ok_def)
    from wp_Inl [OF eid_octets_wp [OF this] 1] show "e \<in> {Minus1, Minus2}" by simp
  next
    fix w w' :: "'x st" and oct assume 1: "eid_digits_to_octets (ss_eid s) (ss_eid_len s) 16 w = (Inr oct, w')"
    have "length (ss_eid s) = 32" "ss_eid_len s \<le> 32" using assms(2) by (simp_all add: session_ok_def)
    from wp_Inr [OF eid_octets_wp [OF this] 1] show "length oct = 16" by (simp add: eid_packed_def)
  qed simp
  have "safely (download_keys M s pk sk :: ('x, rsp_session option \<times> bytes) cm) (\<lambda>_. True)"
    unfolding download_keys_def
  proof (rule safely_bnd [OF e], rule safely_any)
    fix oct :: bytes assume "length oct = 16"
    then have i: "build_shared_info RSP_HOST_ID oct (2 + 1 + length RSP_HOST_ID + 1 + 32) = Some (shared_info_of oct)"
      by (rule shared_info_value) simp
    have l: "length (shared_info_of oct) \<le> 1000"
      using \<open>length oct = 16\<close> by (simp add: shared_info_of_def RSP_HOST_ID_def)
    show "answers (bnd (lift_opt Minus2 (build_shared_info RSP_HOST_ID oct (2 + 1 + length RSP_HOST_ID + 1 + 32))) (\<lambda>shared_info.
       bnd (recode Minus2 (nested (Some zero_session) (rsp_session_init M (Some sk) (Some pk) (Buf shared_info)))) (\<lambda>(_, session).
       bnd (recode Minus2 (derive_public_key M sk)) (\<lambda>otpk_dp. ret (session, otpk_dp)))) :: ('x, rsp_session option \<times> bytes) cm)"
      unfolding i lift_opt_def derive_public_key_def
      by (simp add: bnd_ret) (intro answers_intros answers_session_init assms(1) l; simp)
  qed
  then show ?thesis by (simp add: safely_def)
qed

lemma answers_download_verify:
  assumes "enc_laws A" "session_ok s"
  shows "answers (download_verify M A s r)"
proof -
  have e: "bounded_enc (a_enc_euicc_signed2 A)" using assms(1) by (simp add: enc_laws_def)
  show ?thesis
    unfolding download_verify_def Let_def
    by (intro answers_intros e answers_read_ptr [OF assms(2)]; simp split: prepare_download_response.split add: answers_intros)
qed

lemma download_code:
  assumes "rsp_dp_get_bound_profile_package M A S resp upp sk ok w = (Inl e, w')"
    and A: "enc_laws A" "isc_codec_law A" and M: "cipher_laws M" "ecdsa_laws M"
    and s: "\<forall>s. do_session (loc w) = Some s \<longrightarrow> session_ok s" and upp: "clen upp \<le> 2 ^ 50"
  shows "e \<in> {Minus1, Minus2}"
proof (cases "do_session (loc w)")
  case None
  with assms(1) show ?thesis by (auto simp: rsp_dp_get_bound_profile_package_def download_bind_def Let_def cm_run)
next
  case (Some s)
  with assms(6) have s: "session_ok s" by simp
  then have tid: "length (ss_transaction_id s) = 16" by (simp add: session_ok_def)
  have cd: "length (cdata upp) \<le> 2 ^ 50" using upp by (cases upp) simp_all
  have es2: "safely (download_verify M A s (cdata resp) :: (download_out, euicc_signed2) cm) (\<lambda>es2. length (es2_euiccOtpk es2) = 65)"
    by (rule safelyI [OF answers_download_verify [OF A(1) s]])
      (auto simp: download_verify_def Let_def cm_run)
  have keys: "safely (download_keys M s pk k :: (download_out, rsp_session option \<times> bytes) cm) (\<lambda>p. length (snd p) = 65)" for pk k
    by (rule safelyI [OF answers_download_keys [OF M(2) s]])
      (auto simp: download_keys_def cm_run dest: derive_public_key_run)
  have build: "answers (rsp_bpp_build M A (Some \<lparr>bi_upp = upp, bi_otpk_dp = Some otpk, bi_metadata = md,
      bi_transaction_id = Some (ss_transaction_id s), bi_euicc_otpk = Some pk, bi_dppb = c\<rparr>) True)"
    if "length otpk = 65" "length pk = 65" for otpk pk md c
    by (rule bpp_build_answers [OF A M(1)]) (use that tid cd in simp_all)
  define tail where "tail es2 = (\<lambda>(session, otpk_dp).
     bnd (recode Minus2 (nested (Some zero_credential) (rsp_pki_dp M S 1))) (\<lambda>(_, dppb).
     bnd (read_ptr (ss_metadata s) (ss_metadata_len s)) (\<lambda>metadata.
     bnd (recode Minus2 (nested session (rsp_bpp_build M A (Some
            \<lparr>bi_upp = upp, bi_otpk_dp = Some otpk_dp, bi_metadata = metadata,
             bi_transaction_id = Some (ss_transaction_id s),
             bi_euicc_otpk = Some (es2_euiccOtpk es2), bi_dppb = dppb\<rparr>) True))) (\<lambda>(bpp, session).
     set_loc ((loc w)\<lparr>do_bpp := Buf bpp,
       do_session := Some (s\<lparr>ss_bpp_session := the session, ss_have_bpp_session := True\<rparr>)\<rparr>)))))" for es2 :: euicc_signed2
  have "answers (tail es2 p)" if "length (es2_euiccOtpk es2) = 65" "length (snd p) = 65" for es2 p
    using that unfolding tail_def
    by (cases p) (simp only: prod.case, intro answers_intros answers_read_ptr [OF s] build; simp)
  then have "safely (bnd (download_verify M A s (cdata resp)) (\<lambda>es2.
      bnd (download_keys M s (es2_euiccOtpk es2) (the sk)) (tail es2))) (\<lambda>_. True)"
    by - (rule safely_bnd [OF es2], rule safely_bnd [OF keys], rule safely_any)
  then have "answers (bnd (download_verify M A s (cdata resp)) (\<lambda>es2.
      bnd (download_keys M s (es2_euiccOtpk es2) (the sk)) (tail es2)))" by (simp add: safely_def)
  with assms(1) Some show ?thesis
    by (auto simp: rsp_dp_get_bound_profile_package_def download_bind_def Let_def bnd_Inl [of get_loc] bnd_Inl [of "ensure _ _"] get_loc_run
        ensure_Inr ensure_Inl tail_def dest: answersD)
qed

end
