(* ===== verification/Protocol.thy ===== *)
theory Protocol
  imports Download Notify
begin

text \<open>
  The three ES9+ calls and \<open>rsp_dp_session_free\<close> as a state machine over one session, for any
  arguments and any schedule of operational failures. A state is the session the server holds,
  if any. \<open>es9_reach\<close> are the states some sequence of calls can lead to; the invariant
  \<open>es9_ok\<close> says what is known in all of them, provided the allocator hands out cleared memory
  (\<open>junk_clean\<close>), which the code relies on and does not ensure.
\<close>

section \<open>Phases\<close>

datatype phase = NoSession | Initiated | Authenticated | Bound

fun rank :: "phase \<Rightarrow> nat" where
  "rank NoSession = 0"
| "rank Initiated = 1"
| "rank Authenticated = 2"
| "rank Bound = 3"

lemma rank_inject [simp]: "rank p = rank q \<longleftrightarrow> p = q"
  by (cases p; cases q) simp_all

instantiation phase :: linorder
begin

definition less_eq_phase :: "phase \<Rightarrow> phase \<Rightarrow> bool" where
  "p \<le> q \<longleftrightarrow> rank p \<le> rank q"

definition less_phase :: "phase \<Rightarrow> phase \<Rightarrow> bool" where
  "p < q \<longleftrightarrow> rank p < rank q"

instance
  by standard (auto simp: less_eq_phase_def less_phase_def)

end

definition phase_of :: "rsp_dp_session option \<Rightarrow> phase" where
  "phase_of st = (case st of None \<Rightarrow> NoSession
     | Some s \<Rightarrow> if \<not> ss_authenticated s then Initiated
         else if ss_have_bpp_session s then Bound else Authenticated)"

section \<open>The calls as steps\<close>

inductive es9_step ::
  "('c, 'g, 'p, 'k) mbedtls \<Rightarrow> 'a asn1c \<Rightarrow> sgp26 \<Rightarrow> rsp_dp_session \<Rightarrow>
   rsp_dp_session option \<Rightarrow> rsp_dp_session option \<Rightarrow> bool"
  for M :: "('c, 'g, 'p, 'k) mbedtls" and A :: "'a asn1c" and S :: sgp26 and junk :: rsp_dp_session where
  initiate: "io_session (loc w) = None \<Longrightarrow> length t = 16 \<Longrightarrow> length sc = 16 \<Longrightarrow>
     rsp_dp_initiate_authentication M A S junk chal info1 (Some t) (Some sc) addr req ok w = (r, w') \<Longrightarrow>
     es9_step M A S junk None (io_session (loc w'))"
| authenticate: "ao_session (loc w) = Some s \<Longrightarrow>
     rsp_dp_authenticate_client M A S resp md ok w = (r, w') \<Longrightarrow>
     es9_step M A S junk (Some s) (ao_session (loc w'))"
| download: "do_session (loc w) = Some s \<Longrightarrow>
     rsp_dp_get_bound_profile_package M A S resp upp sk ok w = (r, w') \<Longrightarrow>
     es9_step M A S junk (Some s) (do_session (loc w'))"
| free: "rsp_dp_session_free (Some s) (w :: unit st) = (Inr x, w') \<Longrightarrow> es9_step M A S junk (Some s) None"

inductive_cases es9_from_none: "es9_step M A S junk None st"
inductive_cases es9_from_some: "es9_step M A S junk (Some s) st"

inductive es9_reach ::
  "('c, 'g, 'p, 'k) mbedtls \<Rightarrow> 'a asn1c \<Rightarrow> sgp26 \<Rightarrow> rsp_dp_session \<Rightarrow> rsp_dp_session option \<Rightarrow> bool"
  for M :: "('c, 'g, 'p, 'k) mbedtls" and A :: "'a asn1c" and S :: sgp26 and junk :: rsp_dp_session where
  start: "es9_reach M A S junk None"
| step: "es9_reach M A S junk st \<Longrightarrow> es9_step M A S junk st st' \<Longrightarrow> es9_reach M A S junk st'"

section \<open>The invariant\<close>

definition junk_clean :: "rsp_dp_session \<Rightarrow> bool" where
  "junk_clean j \<longleftrightarrow> \<not> ss_authenticated j \<and> \<not> ss_have_bpp_session j \<and> ss_euicc_cert j = PNull \<and>
     ss_metadata j = PNull \<and> length (ss_eid j) = 32 \<and> ss_eid_len j \<le> 32 \<and> length (ss_smdp_signature2 j) = 64"

text \<open>An authenticated session has an eUICC certificate that chains to the CI, whose key signed this
  session's transaction and challenge, and whose EID the session carries.\<close>

definition attested :: "('c, 'g, 'p, 'k) mbedtls \<Rightarrow> 'a asn1c \<Rightarrow> sgp26 \<Rightarrow> rsp_dp_session \<Rightarrow> bool" where
  "attested M A S s \<longleftrightarrow> (\<exists>rok cert. ss_euicc_cert s = Owned cert \<and>
     auth_checked M A S s rok cert (take (ss_eid_len s) (ss_eid s)))"

definition es9_ok :: "('c, 'g, 'p, 'k) mbedtls \<Rightarrow> 'a asn1c \<Rightarrow> sgp26 \<Rightarrow> rsp_dp_session option \<Rightarrow> bool" where
  "es9_ok M A S st \<longleftrightarrow> (\<forall>s. st = Some s \<longrightarrow> session_ok s \<and> (ss_authenticated s \<longrightarrow> attested M A S s) \<and>
     (ss_have_bpp_session s \<longrightarrow> ss_authenticated s \<and> session_wf (ss_bpp_session s)))"

lemma initiate_step:
  assumes "io_session (loc w) = None" "length t = 16" "length sc = 16"
    "rsp_dp_initiate_authentication M A S junk chal info1 (Some t) (Some sc) addr req ok w = (r, w')"
  obtains "io_session (loc w') = None"
  | c where "io_session (loc w') = Some (junk\<lparr>ss_transaction_id := t, ss_euicc_challenge := c, ss_server_challenge := sc\<rparr>)"
proof (cases r)
  case (Inl e)
  with assms initiate_fail(1) [of M A S junk chal info1 "Some t" "Some sc" addr req ok w e w'] that show ?thesis by simp
next
  case (Inr u)
  show ?thesis
    by (rule initiate_run [OF assms(4) [unfolded Inr]]) (use that in auto)
qed

lemma initiated_ok:
  assumes "junk_clean j" "length t = 16" "length sc = 16"
  shows "es9_ok M A S (Some (j\<lparr>ss_transaction_id := t, ss_euicc_challenge := c, ss_server_challenge := sc\<rparr>))"
  using assms by (simp add: es9_ok_def junk_clean_def session_ok_def)

lemma auth_checked_cong:
  "ss_transaction_id s = ss_transaction_id s' \<Longrightarrow> ss_server_challenge s = ss_server_challenge s' \<Longrightarrow>
     auth_checked M A S s rok cert eid = auth_checked M A S s' rok cert eid"
  by (simp add: auth_checked_def)

lemma authenticate_step_ok:
  assumes M: "ecdsa_laws M" and inv: "es9_ok M A S (Some s)" and s: "ao_session (loc w) = Some s"
    and run: "rsp_dp_authenticate_client M A S resp md ok w = (r, w')"
  shows "es9_ok M A S (ao_session (loc w'))"
proof (cases r)
  case (Inl e)
  with run s inv authenticate_fail(1) [of M A S resp md ok w e w'] show ?thesis by simp
next
  case (Inr u)
  obtain s0 rok cert eid rs bs where a: "ao_session (loc w) = Some s0" "auth_checked M A S s0 rok cert eid"
    "auth_response_of M A S (ss_transaction_id s0) (ar_euiccSignature1 rok) (cdata md) = Some rs" "cdata md \<noteq> []"
    "ao_session (loc w') = Some (s0\<lparr>ss_euicc_cert := Owned cert, ss_euicc_cert_len := length cert,
         ss_eid := eid @ drop (length eid) (ss_eid s0), ss_eid_len := length eid,
         ss_metadata := Owned (cdata md), ss_metadata_len := length (cdata md),
         ss_smdp_signature2 := ac_smdpSignature2 rs, ss_authenticated := True\<rparr>)" (is "_ = Some ?s'")
    by (rule authenticate_run [OF run [unfolded Inr]]) blast
  have s0: "s0 = s" using a(1) s by simp
  have sig: "length (ac_smdpSignature2 rs) = 64"
    using a(3) sign_value_length [OF M] by (auto simp: auth_response_of_def Let_def bind_eq_Some_conv)
  have cert: "cert \<noteq> []"
    using a(2) by (auto simp: auth_checked_def signature_good_def split: option.splits)
  have eid: "eid \<noteq> []" "length eid \<le> 32"
    using a(2) by (auto simp: auth_checked_def dest: extract_eid_Some split: option.splits)
  have "session_ok ?s'"
    using inv sig cert eid a(4) unfolding s0 by (auto simp: es9_ok_def session_ok_def)
  moreover have "attested M A S ?s'"
    using a(2) unfolding attested_def by (intro exI [of _ rok] exI [of _ cert]) (simp add: auth_checked_cong [of ?s' s0])
  ultimately show ?thesis
    using inv a(5) unfolding s0 by (simp add: es9_ok_def)
qed

lemma bpp_of_wf:
  assumes "bpp_of M A s inp = Some (b, s')" "session_wf s" "cipher_laws M"
  shows "session_wf s'"
proof -
  have seal: "session_wf s \<Longrightarrow> session_wf (snd (seal_all M t s ps))" for t s ps
    by (induction ps arbitrary: s) (simp_all add: after_seal_wf [OF assms(3)] case_prod_beta)
  have "session_wf (snd (bpp_parts M s i c md upp))" for i c md upp
    using assms(2,3) by (simp add: bpp_parts_def Let_def case_prod_beta seal after_mac_wf after_seal_wf)
  with assms(1) show ?thesis
    by (auto simp: bpp_of_def bind_eq_Some_conv Let_def split: if_splits)
qed

lemma download_step_ok:
  assumes M: "cipher_laws M" "hash_laws M" and inv: "es9_ok M A S (Some s)" and s: "do_session (loc w) = Some s"
    and run: "rsp_dp_get_bound_profile_package M A S resp upp sk ok w = (r, w')"
  shows "es9_ok M A S (do_session (loc w'))"
proof (cases r)
  case (Inl e)
  with run s inv download_fail [of M A S resp upp sk ok w e w'] show ?thesis by simp
next
  case (Inr u)
  have sok: "session_ok s" using inv by (simp add: es9_ok_def)
  obtain rok :: download_ok and k octets bpp ks where d: "ss_authenticated s"
    "download_of M A S s (pd_euiccSigned2 rok) octets (cdata upp) k = Some (bpp, ks)"
    "do_session (loc w') = Some (download_commit s ks)"
    by (rule download_run [OF run [unfolded Inr] s sok M]) (rule that, assumption+)
  from d(2) obtain k0 inp where k: "session_keys M k (es2_euiccOtpk (pd_euiccSigned2 rok)) octets = Some k0"
    "bpp_of M A k0 inp = Some (bpp, ks)"
    by (auto simp: download_of_def bind_eq_Some_conv)
  from k(1) have "session_wf k0"
    by (auto simp: session_keys_def session_of_wf length_kdf_value [OF M(2)])
  from bpp_of_wf [OF k(2) this M(1)] have "session_wf ks" .
  with inv d(1,3) show ?thesis
    by (auto simp: es9_ok_def download_commit_def session_ok_def attested_def auth_checked_def split: ptr.splits option.splits)
qed

lemma es9_step_ok:
  assumes "es9_step M A S junk st st'" "es9_ok M A S st" "junk_clean junk"
    and M: "cipher_laws M" "hash_laws M" "ecdsa_laws M"
  shows "es9_ok M A S st'"
  using assms(1,2)
proof cases
  case (initiate w t sc chal info1 addr req ok r w')
  show ?thesis
    by (rule initiate_step [OF initiate(3-6)])
      (use initiate initiated_ok [OF assms(3) initiate(4,5)] in \<open>auto simp: es9_ok_def\<close>)
next
  case (authenticate w s resp md ok r w')
  with assms(2) show ?thesis by (auto intro: authenticate_step_ok [OF M(3)])
next
  case (download w s resp upp sk ok r w')
  with assms(2) show ?thesis by (auto intro: download_step_ok [OF M(1,2)])
next
  case free
  then show ?thesis by (simp add: es9_ok_def)
qed

lemma es9_reach_ok:
  assumes "es9_reach M A S junk st" "junk_clean junk" "cipher_laws M" "hash_laws M" "ecdsa_laws M"
  shows "es9_ok M A S st"
  using assms(1)
proof induction
  case start
  show ?case by (simp add: es9_ok_def)
next
  case (step st st')
  from es9_step_ok [OF step(2,3) assms(2-5)] show ?case .
qed

section \<open>What a step may change\<close>

text \<open>A call never moves a session back and never skips a phase: it is authenticated only after it
  was initiated, and has a package only after it was authenticated.\<close>

lemma es9_step_phase:
  assumes "es9_step M A S junk st (Some s')" "es9_ok M A S st" "junk_clean junk"
    and M: "cipher_laws M" "hash_laws M"
  shows "phase_of st \<le> phase_of (Some s') \<and> rank (phase_of (Some s')) \<le> Suc (rank (phase_of st))"
  using assms(1,2)
proof cases
  case (initiate w t sc chal info1 addr req ok r w')
  then show ?thesis
    by (cases rule: initiate_step [OF initiate(3-6)])
      (use assms(3) in \<open>auto simp: phase_of_def less_eq_phase_def junk_clean_def\<close>)
next
  case (authenticate w s resp md ok r w')
  show ?thesis
  proof (cases r)
    case (Inl e)
    with authenticate authenticate_fail(1) [of M A S resp md ok w e w'] show ?thesis
      by (auto simp: less_eq_phase_def)
  next
    case (Inr u)
    show ?thesis
      by (rule authenticate_run [OF authenticate(4) [unfolded Inr]])
        (use authenticate assms(2) in \<open>auto simp: phase_of_def less_eq_phase_def es9_ok_def\<close>)
  qed
next
  case (download w s resp upp sk ok r w')
  show ?thesis
  proof (cases r)
    case (Inl e)
    with download download_fail [of M A S resp upp sk ok w e w'] show ?thesis
      by (auto simp: less_eq_phase_def)
  next
    case (Inr u)
    from download assms(2) have s: "session_ok s" by (simp add: es9_ok_def)
    show ?thesis
      by (rule download_run [OF download(4) [unfolded Inr] download(3) s M])
        (use download in \<open>auto simp: phase_of_def less_eq_phase_def download_commit_def\<close>)
  qed
qed

text \<open>The transaction and the two challenges are fixed for the life of a session; the certificate,
  the EID, the metadata and smdpSignature2 only change in an authentication.\<close>

lemma es9_step_frame:
  assumes "es9_step M A S junk (Some s) (Some s')" "es9_ok M A S (Some s)"
    and M: "cipher_laws M" "hash_laws M"
  shows "ss_transaction_id s' = ss_transaction_id s \<and> ss_euicc_challenge s' = ss_euicc_challenge s \<and>
    ss_server_challenge s' = ss_server_challenge s"
  using assms(1)
proof cases
  case (authenticate w resp md ok r w')
  show ?thesis
  proof (cases r)
    case (Inl e)
    with authenticate authenticate_fail(1) [of M A S resp md ok w e w'] show ?thesis by auto
  next
    case (Inr u)
    show ?thesis
      by (rule authenticate_run [OF authenticate(3) [unfolded Inr]]) (use authenticate in auto)
  qed
next
  case (download w resp upp sk ok r w')
  show ?thesis
  proof (cases r)
    case (Inl e)
    with download download_fail [of M A S resp upp sk ok w e w'] show ?thesis by auto
  next
    case (Inr u)
    from assms(2) have s: "session_ok s" by (simp add: es9_ok_def)
    show ?thesis
      by (rule download_run [OF download(3) [unfolded Inr] download(2) s M])
        (use download in \<open>auto simp: download_commit_def\<close>)
  qed
qed

section \<open>Uncleared memory\<close>

text \<open>The session that \<open>rsp_dp_initiate_authentication\<close> returns is as authenticated as the memory
  it was allocated in, and releasing it frees whatever pointer that memory holds.\<close>

lemma initiate_keeps_junk:
  assumes "rsp_dp_initiate_authentication M A S junk chal info1 t sc addr req ok w = (Inr u, w')"
  obtains s where "io_session (loc w') = Some s" "ss_authenticated s = ss_authenticated junk"
    "ss_euicc_cert s = ss_euicc_cert junk" "ss_metadata s = ss_metadata junk"
  by (rule initiate_run [OF assms]) (use that in auto)

end
