(* ===== verification/Sample.thy ===== *)
theory Sample
  imports Protocol "HOL-Library.Code_Target_Nat"
begin

text \<open>
  A small concrete instance of the two parameters of the development: a toy cipher suite and a
  toy codec that satisfy every law the theorems assume. It shows that the laws hold together and
  gives the theorems concrete inputs. It is not a model of mbedTLS or asn1c.

  A certificate is its subject's name (one octet), its 65-octet public key, a 32-digit EID
  and its issuer's name; a certificate verifies against a list of authorities when one of them
  has its issuer's name. A private key is its octets, the public key of \<open>d\<close> is \<open>d\<close> on 64 octets
  behind the uncompressed-point octet 04, and ECDH multiplies.
\<close>

section \<open>The ciphers\<close>

definition toy_point :: "nat \<Rightarrow> bytes" where
  "toy_point d = 4 # be_bytes 64 d"

definition toy_mbed :: "(bytes, unit, bytes, bytes) mbedtls" where
  "toy_mbed = \<lparr>
     m_sha256 = (\<lambda>x. replicate 31 0 @ [sum_list x]),
     m_aes_ecb = (\<lambda>k b. replicate 16 (sum_list b)),
     m_cbc_enc = (\<lambda>k iv x. map (\<lambda>b. b + hd (k @ [0]) + hd (iv @ [0])) x),
     m_cbc_dec = (\<lambda>k iv x. map (\<lambda>b. b - hd (iv @ [0]) - hd (k @ [0])) x),
     m_cmac = (\<lambda>k m. replicate 16 (sum_list k + sum_list m)),
     m_p256 = (),
     m_mpi_read = be_val,
     m_mpi_write = (\<lambda>n k. if n < 256 ^ k then Some (be_bytes k n) else None),
     m_point_read = (\<lambda>g b. if length b = 65 then Some b else None),
     m_point_write = (\<lambda>g p. Some p),
     m_ecdh = (\<lambda>g q d. Some (be_val (tl q) * d mod 256 ^ 32)),
     m_mul_g = (\<lambda>g d. Some (toy_point d)),
     m_sign_det = (\<lambda>g d h. Some (d, be_val h)),
     m_verify = (\<lambda>g h q r s. q = toy_point r \<and> s = be_val h),
     m_pk_parse = (\<lambda>pem. Some pem),
     m_pk_is_ec = (\<lambda>k. True),
     m_pk_write_key = (\<lambda>k. Some k),
     m_crt_parse = (\<lambda>cb der. if length der < 99 then None else Some der),
     m_crt_verify = (\<lambda>c cas. list_ex (\<lambda>ca. hd ca = c ! 98) cas),
     m_crt_is_ec = (\<lambda>c. True),
     m_crt_ec = (\<lambda>c. Some ((), take 65 (drop 1 c))),
     m_crt_subject = (\<lambda>c. [([3], take 32 (drop 66 c))]),
     m_crt_ski = (\<lambda>c. [hd c]),
     m_oid_policies = [1],
     m_oid_name_constraints = [2],
     m_oid_serial = [3]\<rparr>"

section \<open>The codec\<close>

definition toy_fetch_tag :: "bytes \<Rightarrow> int \<times> nat" where
  "toy_fetch_tag bs = (case bs of [] \<Rightarrow> (0, 0)
     | b # rest \<Rightarrow>
         if unat b mod 32 < 31 then (1, packed_tag (unat b div 64) (unat b mod 32))
         else (case rest of [] \<Rightarrow> (0, 0)
           | c # _ \<Rightarrow> if 30 < unat c \<and> unat c < 128 then (2, packed_tag (unat b div 64) (unat c)) else (-1, 0)))"

definition toy_fetch_length :: "bool \<Rightarrow> bytes \<Rightarrow> int \<times> int" where
  "toy_fetch_length c bs = (case der_length_value bs of None \<Rightarrow> (-1, 0) | Some (k, n) \<Rightarrow> (int k, int n))"

text \<open>An encoding is what fits the range of an \<open>ssize_t\<close>.\<close>

definition toy_blocks :: "bytes list \<Rightarrow> bytes list option" where
  "toy_blocks bs = (if length (concat bs) \<le> 2 ^ 63 - 1 then Some bs else None)"

definition toy_asn1 :: "bytes asn1c" where
  "toy_asn1 = \<lparr>
     a_fetch_tag = toy_fetch_tag,
     a_fetch_length = toy_fetch_length,
     a_constructed = (\<lambda>b. bit b 5),
     a_integer2long = (\<lambda>b. if length b > 8 then None else Some (int (be_val b))),
     a_enc_isc = (\<lambda>r. let v = isc_transactionId r @ isc_smdpOtpk r @ isc_smdpSign r in
        if length v \<le> 0xFFFFFFFF then toy_blocks [tlv [0xBF, 0x23] v] else None),
     a_enc_configure = (\<lambda>c. toy_blocks [[0xBF, 0x24], [0]]),
     a_dec_euicc_info1 = (\<lambda>b. b \<noteq> []),
     a_enc_server_signed1 = (\<lambda>s. toy_blocks [ss1_transactionId s, ss1_euiccChallenge s,
        ss1_serverAddress s, ss1_serverChallenge s]),
     a_enc_init_auth_ok = (\<lambda>r. toy_blocks [ia_transactionId r, ia_serverSignature1 r,
        ia_euiccCiPKIdToBeUsed r, ia_serverCertificate r]),
     a_dec_certificate = (\<lambda>b. if b = [] then None else Some b),
     a_enc_certificate = (\<lambda>c. toy_blocks [c]),
     a_dec_store_metadata = (\<lambda>b. if length b < 10 then None else Some
        \<lparr>sm_iccid = take 10 b, sm_serviceProviderName = [], sm_profileName = [], sm_others = drop 10 b\<rparr>),
     a_dec_auth_server_response = (\<lambda>b. if length b < 294 then Some AuthenticateResponseError else Some (AuthenticateResponseOk
        \<lparr>ar_euiccSigned1 = \<lparr>es1_transactionId = take 16 b, es1_serverAddress = [],
           es1_serverChallenge = take 16 (drop 16 b), es1_euiccInfo2 = [], es1_ctxParams1 = []\<rparr>,
         ar_euiccSignature1 = take 64 (drop 32 b),
         ar_euiccCertificate = take 99 (drop 96 b), ar_eumCertificate = drop 195 b\<rparr>)),
     a_enc_euicc_signed1 = (\<lambda>e. toy_blocks [es1_transactionId e, es1_serverChallenge e]),
     a_enc_smdp_signed2 = (\<lambda>e. toy_blocks [sd2_transactionId e]),
     a_enc_auth_client_ok = (\<lambda>r. toy_blocks [ac_transactionId r, ac_smdpSignature2 r, ac_smdpCertificate r]),
     a_dec_prepare_download = (\<lambda>b. if length b < 145 then Some DownloadResponseError else Some (DownloadResponseOk
        \<lparr>pd_euiccSigned2 = \<lparr>es2_transactionId = take 16 b, es2_euiccOtpk = take 65 (drop 16 b), es2_hashCc = None\<rparr>,
         pd_euiccSignature2 = drop 81 b\<rparr>)),
     a_enc_euicc_signed2 = (\<lambda>e. toy_blocks [es2_transactionId e, es2_euiccOtpk e]),
     a_dec_installation_result = (\<lambda>b. if length b < 88 then None else Some
        \<lparr>pir_transactionId = take 16 (drop 6 b),
         pir_metadata = \<lparr>nm_seqNumber = [b ! 22], nm_operation = [0x80], nm_bits_unused = 4, nm_iccid = None\<rparr>,
         pir_finalResult = (if b ! 23 = 0 then SuccessResult else ErrorResult [b ! 23] [1]),
         pir_euiccSignPIR = drop (length b - 64) b\<rparr>),
     a_dec_other_notification = (\<lambda>b. if length b < 400 then None else Some
        \<lparr>osn_tbs = \<lparr>nm_seqNumber = [7], nm_operation = [0x40], nm_bits_unused = 4, nm_iccid = Some (replicate 10 1)\<rparr>,
         osn_signature = take 64 (drop 9 b)\<rparr>)\<rparr>"

definition toy_sgp26 :: sgp26 where
  "toy_sgp26 = \<lparr>ci_der = 1 # toy_point 9 @ replicate 32 0x30 @ [1],
     ci2017_der = 2 # toy_point 8 @ replicate 32 0x30 @ [2],
     dpauth_der = 3 # toy_point 5 @ replicate 32 0x30 @ [1],
     dpauth_key_pem = be_bytes 32 5,
     dppb_der = 4 # toy_point 6 @ replicate 32 0x30 @ [1],
     dppb_key_pem = be_bytes 32 6\<rparr>"

section \<open>It satisfies the laws\<close>

lemma toy_cipher_laws: "cipher_laws toy_mbed"
proof -
  have "map ((\<lambda>b. b - i - k) \<circ> (\<lambda>b. b + k + i)) x = x" for i k :: u8 and x
    by (induction x) simp_all
  then show ?thesis by (simp add: cipher_laws_def toy_mbed_def)
qed

lemma toy_hash_laws: "hash_laws toy_mbed"
  by (simp add: hash_laws_def toy_mbed_def)

lemma toy_ber_laws: "ber_laws toy_asn1"
proof -
  have "fst (toy_fetch_tag bs) \<le> int (length bs)" for bs
    by (auto simp: toy_fetch_tag_def split: list.splits)
  moreover have "k \<le> length bs" if "der_length_value bs = Some (k, n)" for bs k n
    using that by (auto simp: der_length_value_def Let_def split: list.splits if_splits)
  then have "fst (toy_fetch_length c bs) \<le> int (length bs)" for c bs
    by (auto simp: toy_fetch_length_def split: option.split)
  moreover have "toy_fetch_length c (lo @ rest) = (int (length lo), int n)"
    if "rsp_der_length_octets n = Some lo" for c n lo rest
    by (simp add: toy_fetch_length_def der_length_decode [OF that])
  ultimately show ?thesis
    by (simp add: ber_laws_def toy_asn1_def) (simp add: toy_fetch_tag_def)
qed

lemma toy_isc_law: "isc_codec_law toy_asn1"
  by (auto simp: isc_codec_law_def toy_asn1_def toy_blocks_def Let_def split: if_splits)

lemma toy_blocks_bounded: "toy_blocks b = Some bs \<Longrightarrow> length (concat bs) \<le> 2 ^ 63 - 1"
  by (simp add: toy_blocks_def split: if_splits)

lemma toy_enc_laws: "enc_laws toy_asn1"
  unfolding enc_laws_def bounded_enc_def
  by (intro conjI allI impI)
    (rule toy_blocks_bounded, simp (no_asm_use) add: toy_asn1_def Let_def split: if_splits)+

lemma toy_ecdh_laws: "ecdh_laws toy_mbed"
proof -
  have "(d mod 256 ^ 64) * e mod 256 ^ 32 = (e mod 256 ^ 64) * d mod (256 ^ 32 :: nat)" for d e
  proof -
    have "(x mod 256 ^ 64) * y mod 256 ^ 32 = x * y mod (256 ^ 32 :: nat)" for x y
      by (metis mod_mod_cancel mod_mult_left_eq le_imp_power_dvd numeral_le_iff semiring_norm(69,72,71,68))
    then show ?thesis by (simp add: mult.commute)
  qed
  then show ?thesis
    by (auto simp: ecdh_laws_def toy_mbed_def toy_point_def be_val_be_bytes)
qed

lemma toy_ecdsa_laws: "ecdsa_laws toy_mbed"
  by (auto simp: ecdsa_laws_def toy_mbed_def be_val_be_bytes split: if_splits)

section \<open>Sample inputs\<close>

definition toy_session :: rsp_session where
  "toy_session = \<lparr>s_enc = replicate 16 1, s_mac = replicate 16 2, s_chain = replicate 16 3,
     enc_counter = replicate 15 0 @ [1]\<rparr>"

definition toy_run :: "rsp_session \<Rightarrow> rsp_session option st" where
  "toy_run s = \<lparr>faults = [], loc = Some s\<rparr>"

lemma toy_session_wf: "session_wf toy_session"
  by (simp add: session_wf_def toy_session_def)

lemma toy_run_simps [simp]: "faults (toy_run s) = []" "loc (toy_run s) = Some s"
  by (simp_all add: toy_run_def)


section \<open>Toy certificates and signatures\<close>

lemma toy_point_length [simp]: "length (toy_point d) = 65"
  by (simp add: toy_point_def)

definition toy_cert :: "u8 \<Rightarrow> nat \<Rightarrow> bytes \<Rightarrow> u8 \<Rightarrow> bytes" where
  "toy_cert n d eid ca = n # toy_point d @ eid @ [ca]"

lemma toy_cert_parts:
  assumes "length eid = 32"
  shows "length (toy_cert n d eid ca) = 99" "hd (toy_cert n d eid ca) = n" "take 65 (drop 1 (toy_cert n d eid ca)) = toy_point d"
    "take 32 (drop 66 (toy_cert n d eid ca)) = eid" "toy_cert n d eid ca ! 98 = ca"
  using assms by (simp_all add: toy_cert_def nth_append nth_Cons' drop_Cons')

lemma toy_crt:
  assumes "length eid = 32"
  shows "m_crt_parse toy_mbed cb (toy_cert n d eid ca) = Some (toy_cert n d eid ca)"
    "m_crt_ec toy_mbed (toy_cert n d eid ca) = Some ((), toy_point d)"
    "m_crt_subject toy_mbed (toy_cert n d eid ca) = [([3], eid)]"
    "m_crt_verify toy_mbed (toy_cert n d eid ca) cas = list_ex (\<lambda>x. hd x = ca) cas"
    "m_crt_is_ec toy_mbed c"
  using toy_cert_parts [OF assms] by (simp_all add: toy_mbed_def)

lemma toy_signature:
  assumes "d < 256 ^ 32"
  shows "sign_value toy_mbed (be_bytes 32 d) tbs = Some (be_bytes 32 d @ be_bytes 32 (be_val (m_sha256 toy_mbed tbs)))"
proof -
  have "be_val (m_sha256 toy_mbed tbs) < 256 ^ 32"
    using be_val_bound [of "m_sha256 toy_mbed tbs"] by (simp add: toy_mbed_def)
  then show ?thesis
    using assms by (simp add: sign_value_def toy_mbed_def be_val_be_bytes)
qed

lemma toy_good:
  assumes "length eid = 32" "d < 256 ^ 32" "sign_value toy_mbed (be_bytes 32 d) tbs = Some sig"
  shows "signature_good toy_mbed (toy_cert n d eid ca) tbs sig" "length sig = 64"
proof -
  have v: "be_val (m_sha256 toy_mbed tbs) < 256 ^ 32"
    using be_val_bound [of "m_sha256 toy_mbed tbs"] by (simp add: toy_mbed_def)
  have "sig = be_bytes 32 d @ be_bytes 32 (be_val (m_sha256 toy_mbed tbs))"
    using toy_signature [OF assms(2), of tbs] assms(3) by simp
  then have "m_verify toy_mbed () (m_sha256 toy_mbed tbs) (toy_point d) (m_mpi_read toy_mbed (take 32 sig))
      (m_mpi_read toy_mbed (take 32 (drop 32 sig)))"
    using v assms(2) by (simp add: toy_mbed_def be_val_be_bytes)
  then show "signature_good toy_mbed (toy_cert n d eid ca) tbs sig"
    using toy_cert_parts(1) [OF assms(1), of n d ca] by (auto simp: signature_good_def toy_crt [OF assms(1)])
  show "length sig = 64" using \<open>sig = _\<close> by simp
qed

lemma toy_dp: "dp_credential toy_mbed toy_sgp26 role =
   Some \<lparr>cr_der = Buf (if role = 0 then dpauth_der toy_sgp26 else dppb_der toy_sgp26),
         cr_sk = be_bytes 32 (if role = 0 then 5 else 6)\<rparr>"
  by (simp add: dp_credential_def toy_mbed_def toy_sgp26_def)

section \<open>One complete run\<close>

definition toy_tid :: bytes where "toy_tid = replicate 16 7"
definition toy_challenge :: bytes where "toy_challenge = replicate 16 8"
definition toy_euicc_challenge :: bytes where "toy_euicc_challenge = replicate 16 9"
definition toy_eid :: bytes where "toy_eid = replicate 32 0x31"
definition toy_md :: bytes where "toy_md = replicate 12 5"
definition toy_upp :: bytes where "toy_upp = replicate 20 1"
definition toy_eum_cert :: bytes where "toy_eum_cert = toy_cert 20 11 (replicate 32 0x30) 1"
definition toy_euicc_cert :: bytes where "toy_euicc_cert = toy_cert 30 12 toy_eid 20"

lemma toy_sizes [simp]: "length toy_tid = 16" "length toy_challenge = 16" "length toy_euicc_challenge = 16"
  "length toy_md = 12" "length toy_upp = 20" "length toy_eid = 32"
  by (simp_all add: toy_tid_def toy_challenge_def toy_euicc_challenge_def toy_md_def toy_upp_def toy_eid_def)

definition toy_sign :: "bytes \<Rightarrow> bytes" where
  "toy_sign tbs = the (sign_value toy_mbed (be_bytes 32 12) tbs)"

lemma toy_signs:
  "signature_good toy_mbed toy_euicc_cert tbs (toy_sign tbs)" "length (toy_sign tbs) = 64"
proof -
  have "sign_value toy_mbed (be_bytes 32 12) tbs = Some (toy_sign tbs)"
    using toy_signature [of 12 tbs] by (simp add: toy_sign_def)
  from toy_good(1) [OF _ _ this, of toy_eid] toy_good(2) [OF _ _ this, of toy_eid]
  show "signature_good toy_mbed toy_euicc_cert tbs (toy_sign tbs)" "length (toy_sign tbs) = 64"
    by (simp_all add: toy_euicc_cert_def)
qed

text \<open>The session after initiation, the eUICC's first answer and the session after it.\<close>

definition toy_s1 :: rsp_dp_session where
  "toy_s1 = zero_dp_session\<lparr>ss_transaction_id := toy_tid, ss_euicc_challenge := toy_euicc_challenge,
     ss_server_challenge := toy_challenge\<rparr>"

definition toy_resp1 :: bytes where
  "toy_resp1 = toy_tid @ toy_challenge @ toy_sign (toy_tid @ toy_challenge) @ toy_euicc_cert @ toy_eum_cert"

definition toy_rok1 :: "bytes auth_response_ok" where
  "toy_rok1 = \<lparr>ar_euiccSigned1 = \<lparr>es1_transactionId = toy_tid, es1_serverAddress = [],
       es1_serverChallenge = toy_challenge, es1_euiccInfo2 = [], es1_ctxParams1 = []\<rparr>,
     ar_euiccSignature1 = toy_sign (toy_tid @ toy_challenge),
     ar_euiccCertificate = toy_euicc_cert, ar_eumCertificate = toy_eum_cert\<rparr>"

definition toy_sig2 :: bytes where
  "toy_sig2 = the (sign_value toy_mbed (be_bytes 32 6) (toy_tid @ tlv [0x5F, 0x37] (toy_sign (toy_tid @ toy_challenge))))"

definition toy_s2 :: rsp_dp_session where
  "toy_s2 = toy_s1\<lparr>ss_euicc_cert := Owned toy_euicc_cert, ss_euicc_cert_len := 99,
     ss_eid := toy_eid, ss_eid_len := 32, ss_metadata := Owned toy_md, ss_metadata_len := 12,
     ss_smdp_signature2 := toy_sig2, ss_authenticated := True\<rparr>"

definition toy_init_world :: "initiate_out st" where
  "toy_init_world = \<lparr>faults = [], loc = \<lparr>io_session = None, io_resp = Null 0\<rparr>\<rparr>"

definition toy_auth_world :: "auth_out st" where
  "toy_auth_world = \<lparr>faults = [], loc = \<lparr>ao_session = Some toy_s1, ao_out = Null 0\<rparr>\<rparr>"

lemma toy_worlds [simp]: "faults toy_init_world = []" "io_session (loc toy_init_world) = None"
  "faults toy_auth_world = []" "ao_session (loc toy_auth_world) = Some toy_s1"
  by (simp_all add: toy_init_world_def toy_auth_world_def)

lemma toy_material:
  "ci_der toy_sgp26 = toy_cert 1 9 (replicate 32 0x30) 1" "ci2017_der toy_sgp26 = toy_cert 2 8 (replicate 32 0x30) 2"
  "dpauth_der toy_sgp26 = toy_cert 3 5 (replicate 32 0x30) 1" "dppb_der toy_sgp26 = toy_cert 4 6 (replicate 32 0x30) 1"
  by (simp_all add: toy_sgp26_def toy_cert_def)

lemma toy_cert_codec: "length eid = 32 \<Longrightarrow> a_dec_certificate toy_asn1 (toy_cert n d eid ca) = Some (toy_cert n d eid ca)"
  "length eid = 32 \<Longrightarrow> a_enc_certificate toy_asn1 (toy_cert n d eid ca) = Some [toy_cert n d eid ca]"
  by (simp_all add: toy_asn1_def toy_blocks_def toy_cert_parts) (simp add: toy_cert_def)

lemma toy_init_response: "\<exists>r bs. init_response_of toy_mbed toy_asn1 toy_sgp26
    (server_signed1_of toy_tid toy_euicc_challenge [0x61] toy_challenge) = Some r \<and> a_enc_init_auth_ok toy_asn1 r = Some bs"
proof -
  let ?ss1 = "server_signed1_of toy_tid toy_euicc_challenge [0x61] toy_challenge"
  obtain sig where s: "sign_value toy_mbed (be_bytes 32 5) (concat [toy_tid, toy_euicc_challenge, [0x61], toy_challenge]) = Some sig"
      "length sig = 64"
    using toy_signature [of 5] by simp
  have e: "a_enc_server_signed1 toy_asn1 ?ss1 = Some [toy_tid, toy_euicc_challenge, [0x61], toy_challenge]"
    by (simp add: toy_asn1_def toy_blocks_def server_signed1_of_def)
  have k: "m_crt_ski toy_mbed c = [hd c]" for c by (simp add: toy_mbed_def)
  have "init_response_of toy_mbed toy_asn1 toy_sgp26 ?ss1 = Some \<lparr>ia_transactionId = toy_tid, ia_serverSigned1 = ?ss1,
      ia_serverSignature1 = sig, ia_euiccCiPKIdToBeUsed = [1], ia_serverCertificate = dpauth_der toy_sgp26\<rparr>"
    using s(1) by (simp add: init_response_of_def toy_dp e toy_material toy_crt toy_cert_codec k toy_cert_parts)
      (simp add: server_signed1_of_def)
  moreover have "a_enc_init_auth_ok toy_asn1 \<lparr>ia_transactionId = toy_tid, ia_serverSigned1 = ?ss1,
      ia_serverSignature1 = sig, ia_euiccCiPKIdToBeUsed = [1], ia_serverCertificate = dpauth_der toy_sgp26\<rparr>
      = Some [toy_tid, sig, [1], dpauth_der toy_sgp26]"
    using s(2) by (simp add: toy_asn1_def toy_blocks_def toy_material toy_cert_parts)
  ultimately show ?thesis by blast
qed

lemma toy_chain: "chain_good toy_mbed toy_sgp26 toy_eum_cert toy_euicc_cert"
  by (simp add: chain_good_def ext_cert_def toy_eum_cert_def toy_euicc_cert_def toy_material toy_crt toy_cert_parts)

lemma toy_auth_checked: "auth_checked toy_mbed toy_asn1 toy_sgp26 toy_s1 toy_rok1 toy_euicc_cert toy_eid"
proof -
  have e: "a_enc_certificate toy_asn1 toy_euicc_cert = Some [toy_euicc_cert]"
    "a_enc_certificate toy_asn1 toy_eum_cert = Some [toy_eum_cert]"
    by (simp_all add: toy_euicc_cert_def toy_eum_cert_def toy_cert_codec)
  have "a_enc_euicc_signed1 toy_asn1 (ar_euiccSigned1 toy_rok1) = Some [toy_tid, toy_challenge]"
    by (simp add: toy_asn1_def toy_blocks_def toy_rok1_def)
  note e = e this
  have x: "ext_cert toy_mbed toy_euicc_cert = Some toy_euicc_cert" "m_crt_subject toy_mbed toy_euicc_cert = [([3], toy_eid)]"
    by (simp_all add: ext_cert_def toy_euicc_cert_def toy_crt)
  show ?thesis
    unfolding auth_checked_def
    using e x toy_chain toy_signs [of "toy_tid @ toy_challenge"]
    by (simp add: toy_rok1_def toy_s1_def) (simp add: toy_mbed_def)
qed

lemma toy_decode1: "a_dec_auth_server_response toy_asn1 toy_resp1 = Some (AuthenticateResponseOk toy_rok1)"
  by (simp add: toy_asn1_def toy_resp1_def toy_rok1_def toy_signs toy_euicc_cert_def toy_eum_cert_def toy_cert_parts)

definition toy_rs1 :: "bytes auth_client_ok" where
  "toy_rs1 = \<lparr>ac_transactionId = toy_tid, ac_profileMetaData = the (a_dec_store_metadata toy_asn1 toy_md),
     ac_smdpSigned2 = \<lparr>sd2_transactionId = toy_tid, sd2_ccRequiredFlag = False, sd2_bppEuiccOtpk = None\<rparr>,
     ac_smdpSignature2 = toy_sig2, ac_smdpCertificate = dppb_der toy_sgp26\<rparr>"

lemma toy_metadata: "\<exists>m. a_dec_store_metadata toy_asn1 toy_md = Some m \<and> length (sm_iccid m) = 10 \<and>
    sm_profileName m = [] \<and> sm_serviceProviderName m = []"
  by (simp add: toy_asn1_def)

lemma toy_sig2_length [simp]: "length toy_sig2 = 64"
  using toy_signature [of 6] by (simp add: toy_sig2_def)

lemma toy_auth_response:
  "auth_response_of toy_mbed toy_asn1 toy_sgp26 toy_tid (ar_euiccSignature1 toy_rok1) toy_md = Some toy_rs1"
  "a_enc_auth_client_ok toy_asn1 toy_rs1 = Some [toy_tid, toy_sig2, dppb_der toy_sgp26]"
proof -
  have "sign_value toy_mbed (be_bytes 32 6) (toy_tid @ tlv [0x5F, 0x37] (toy_sign (toy_tid @ toy_challenge))) = Some toy_sig2"
    using toy_signature [of 6] by (simp add: toy_sig2_def)
  moreover have "a_enc_smdp_signed2 toy_asn1 \<lparr>sd2_transactionId = toy_tid, sd2_ccRequiredFlag = False, sd2_bppEuiccOtpk = None\<rparr>
      = Some [toy_tid]"
    by (simp add: toy_asn1_def toy_blocks_def)
  moreover obtain m where "a_dec_store_metadata toy_asn1 toy_md = Some m" using toy_metadata by blast
  ultimately show "auth_response_of toy_mbed toy_asn1 toy_sgp26 toy_tid (ar_euiccSignature1 toy_rok1) toy_md = Some toy_rs1"
    by (simp add: auth_response_of_def Let_def toy_dp toy_rs1_def toy_rok1_def toy_material toy_cert_codec)
  show "a_enc_auth_client_ok toy_asn1 toy_rs1 = Some [toy_tid, toy_sig2, dppb_der toy_sgp26]"
    by (simp add: toy_asn1_def toy_blocks_def toy_rs1_def toy_material toy_cert_parts)
qed

lemma toy_s1_ok: "session_ok toy_s1"
  by (simp add: session_ok_def toy_s1_def zero_dp_session_def)

lemma toy_s2_ok: "session_ok toy_s2" "ss_authenticated toy_s2" "ss_transaction_id toy_s2 = toy_tid"
  "ss_smdp_signature2 toy_s2 = toy_sig2" "ss_euicc_cert toy_s2 = Owned toy_euicc_cert"
  "ss_eid toy_s2 = toy_eid" "ss_eid_len toy_s2 = 32" "ss_metadata toy_s2 = Owned toy_md" "ss_metadata_len toy_s2 = 12"
  by (simp_all add: session_ok_def toy_s2_def toy_s1_def zero_dp_session_def toy_euicc_cert_def toy_cert_parts)
    (simp_all add: toy_cert_def toy_md_def)

lemma toy_initiated:
  obtains bs where "rsp_dp_initiate_authentication toy_mbed toy_asn1 toy_sgp26 zero_dp_session (Buf toy_euicc_challenge)
    (Buf [1]) (Some toy_tid) (Some toy_challenge) (Some [0x61]) (Some [0x41]) True toy_init_world =
    (Inr (), toy_init_world\<lparr>loc := \<lparr>io_session = Some toy_s1, io_resp = Buf bs\<rparr>\<rparr>)"
proof -
  obtain r bs where r: "init_response_of toy_mbed toy_asn1 toy_sgp26
      (server_signed1_of toy_tid toy_euicc_challenge [0x61] toy_challenge) = Some r" "a_enc_init_auth_ok toy_asn1 r = Some bs"
    using toy_init_response by blast
  have "ascii_ieq [0x61] [0x41]" "a_dec_euicc_info1 toy_asn1 [1]"
    by (simp_all add: fold_ascii_def toy_asn1_def)
  then show ?thesis
    using that initiate_ok [OF _ toy_enc_laws _ _ _ _ r, of toy_init_world "[1]" "Some [0x41]" zero_dp_session]
    by (simp add: toy_s1_def)
qed

lemma toy_authenticated:
  "rsp_dp_authenticate_client toy_mbed toy_asn1 toy_sgp26 (Buf toy_resp1) (Buf toy_md) True toy_auth_world =
    (Inr (), toy_auth_world\<lparr>loc := \<lparr>ao_session = Some toy_s2, ao_out = Buf (concat [toy_tid, toy_sig2, dppb_der toy_sgp26])\<rparr>\<rparr>)"
proof -
  obtain m where m: "a_dec_store_metadata toy_asn1 toy_md = Some m" "length (sm_iccid m) = 10"
    "length (sm_profileName m) \<le> 64" "length (sm_serviceProviderName m) \<le> 32" using toy_metadata by auto
  have n: "toy_resp1 \<noteq> []" "toy_md \<noteq> []" by (simp_all add: toy_resp1_def toy_tid_def toy_md_def)
  have t: "ss_transaction_id toy_s1 = toy_tid" by (simp add: toy_s1_def)
  show ?thesis
    using authenticate_ok [OF toy_worlds(3) toy_enc_laws toy_worlds(4) toy_s1_ok n m toy_decode1 toy_auth_checked, folded t, OF toy_auth_response [folded t]]
    by (simp add: toy_s2_def toy_rs1_def toy_s1_def zero_dp_session_def toy_euicc_cert_def toy_cert_parts)
qed

section \<open>The download\<close>

definition toy_sk :: bytes where "toy_sk = be_bytes 32 14"

definition toy_octets :: bytes where "toy_octets = replicate 16 0x11"

definition toy_es2 :: euicc_signed2 where
  "toy_es2 = \<lparr>es2_transactionId = toy_tid, es2_euiccOtpk = toy_point 13, es2_hashCc = None\<rparr>"

definition toy_rok2 :: download_ok where
  "toy_rok2 = \<lparr>pd_euiccSigned2 = toy_es2,
     pd_euiccSignature2 = toy_sign (toy_tid @ toy_point 13 @ tlv [0x5F, 0x37] toy_sig2)\<rparr>"

definition toy_resp2 :: bytes where
  "toy_resp2 = toy_tid @ toy_point 13 @ pd_euiccSignature2 toy_rok2"

definition toy_down_world :: "download_out st" where
  "toy_down_world = \<lparr>faults = [], loc = \<lparr>do_session = Some toy_s2, do_bpp = Null 0\<rparr>\<rparr>"

lemma toy_down_world [simp]: "faults toy_down_world = []" "do_session (loc toy_down_world) = Some toy_s2"
  by (simp_all add: toy_down_world_def)

lemma toy_decode2: "a_dec_prepare_download toy_asn1 toy_resp2 = Some (DownloadResponseOk toy_rok2)"
  by (simp add: toy_asn1_def toy_resp2_def toy_rok2_def toy_es2_def toy_signs)

lemma toy_download_checked: "download_checked toy_mbed toy_asn1 toy_s2 toy_rok2"
proof -
  have "a_enc_euicc_signed2 toy_asn1 toy_es2 = Some [toy_tid, toy_point 13]"
    by (simp add: toy_asn1_def toy_blocks_def toy_es2_def)
  then show ?thesis
    using toy_signs [of "toy_tid @ toy_point 13 @ tlv [0x5F, 0x37] toy_sig2"]
    by (simp add: download_checked_def toy_s2_ok toy_rok2_def) (simp add: toy_es2_def)
qed

lemma toy_eid_packed: "eid_packed toy_eid toy_octets"
proof -
  have "nibbles 0x11 = [0x31, 0x31]" "is_digit 0x31" by (simp_all add: nibbles_def is_digit_def)
  then show ?thesis by (simp add: eid_packed_def toy_octets_def toy_eid_def list_all_iff) (simp add: eval_nat_numeral)
qed

lemma toy_public_key: "d < 256 ^ 32 \<Longrightarrow> public_key toy_mbed (be_bytes 32 d) = Some (toy_point d)"
  by (simp add: public_key_def toy_mbed_def be_val_be_bytes)

lemma toy_session_keys: "\<exists>ks. session_keys toy_mbed toy_sk (toy_point 13) toy_octets = Some ks"
proof -
  have "x mod 256 ^ 32 < (256 ^ 32 :: nat)" for x by simp
  then show ?thesis by (simp add: session_keys_def ecdh_value_def toy_mbed_def)
qed

lemma toy_isc_small:
  obtains isc bs where "isc_of toy_mbed (be_bytes 32 6) toy_tid (toy_point 14) (toy_point 13) = Some isc"
    "a_enc_isc toy_asn1 isc = Some bs" "length (concat bs) \<le> 1000"
proof -
  obtain sig where s: "sign_value toy_mbed (be_bytes 32 6) (isc_tbs toy_tid (toy_point 14) (toy_point 13)) = Some sig"
    "length sig = 64" using toy_signature [of 6] by simp
  let ?v = "toy_tid @ toy_point 14 @ sig"
  have "length (tlv [0xBF, 0x23] ?v) \<le> 1000"
    using length_tlv_le [of ?v "[0xBF, 0x23]"] s(2) by simp
  then show ?thesis
    using s that [OF _ _] by (simp add: isc_of_def toy_asn1_def toy_blocks_def)
qed

definition toy_input :: rsp_bpp_input where
  "toy_input = \<lparr>bi_upp = Buf toy_upp, bi_otpk_dp = Some (toy_point 14), bi_metadata = Buf toy_md,
     bi_transaction_id = Some toy_tid, bi_euicc_otpk = Some (toy_point 13),
     bi_dppb = Some \<lparr>cr_der = Buf (dppb_der toy_sgp26), cr_sk = be_bytes 32 6\<rparr>\<rparr>"

lemma toy_input_ok: "input_ok toy_input"
  by (simp add: input_ok_def toy_input_def) (simp add: toy_upp_def toy_md_def)

lemma toy_input_package: "\<exists>bpp ks. bpp_of toy_mbed toy_asn1 k0 toy_input = Some (bpp, ks)"
proof -
  obtain isc bs where i: "isc_of toy_mbed (be_bytes 32 6) toy_tid (toy_point 14) (toy_point 13) = Some isc"
    "a_enc_isc toy_asn1 isc = Some bs" "length (concat bs) \<le> 1000" by (rule toy_isc_small)
  have c: "a_enc_configure toy_asn1 build_configure = Some [[0xBF, 0x24], [0]]"
    by (simp add: toy_asn1_def toy_blocks_def)
  have "toy_upp \<noteq> []" by (simp add: toy_upp_def)
  then have ch: "chunks 1007 toy_upp = [toy_upp]"
    by (subst chunks.simps) (simp add: chunks.simps [of 1007 "[]"])
  define content where "content = fst (bpp_parts toy_mbed k0 (concat bs) [0xBF, 0x24, 0] toy_md toy_upp)"
  have "length content \<le> 0xFFFFFFFF"
    using i(3) unfolding content_def bpp_parts_def Let_def ch
    by (simp add: length_tlv tlv_header_def tlvs_def length_sealed [OF toy_cipher_laws] length_macced [OF toy_cipher_laws] rsp_der_length_octets_def)
  then show ?thesis using i c by (simp add: bpp_of_def toy_input_def Let_def content_def)
qed

lemma toy_package: "\<exists>bpp ks. download_of toy_mbed toy_asn1 toy_sgp26 toy_s2 toy_es2 toy_octets toy_upp toy_sk = Some (bpp, ks)"
proof -
  obtain k0 where k: "session_keys toy_mbed toy_sk (toy_point 13) toy_octets = Some k0" using toy_session_keys by blast
  have "download_input toy_s2 toy_es2 toy_upp (toy_point 14)
      \<lparr>cr_der = Buf (dppb_der toy_sgp26), cr_sk = be_bytes 32 6\<rparr> = toy_input"
    by (simp add: download_input_def toy_input_def toy_s2_ok toy_es2_def)
  then show ?thesis
    using k toy_input_package [of k0] by (simp add: download_of_def toy_sk_def toy_public_key toy_dp) (simp add: toy_es2_def)
qed

definition toy_bpp :: bytes where
  "toy_bpp = fst (the (download_of toy_mbed toy_asn1 toy_sgp26 toy_s2 toy_es2 toy_octets toy_upp toy_sk))"

definition toy_keys :: rsp_session where
  "toy_keys = snd (the (download_of toy_mbed toy_asn1 toy_sgp26 toy_s2 toy_es2 toy_octets toy_upp toy_sk))"

lemma toy_download_of:
  "download_of toy_mbed toy_asn1 toy_sgp26 toy_s2 toy_es2 toy_octets toy_upp toy_sk = Some (toy_bpp, toy_keys)"
  using toy_package by (auto simp: toy_bpp_def toy_keys_def)

lemma toy_downloaded:
  "rsp_dp_get_bound_profile_package toy_mbed toy_asn1 toy_sgp26 (Buf toy_resp2) (Buf toy_upp) (Some toy_sk) True toy_down_world =
    (Inr (), toy_down_world\<lparr>loc := \<lparr>do_session = Some (download_commit toy_s2 toy_keys), do_bpp = Buf toy_bpp\<rparr>\<rparr>)"
proof -
  have e: "pd_euiccSigned2 toy_rok2 = toy_es2" by (simp add: toy_rok2_def)
  have n: "toy_resp2 \<noteq> []" "toy_upp \<noteq> []" by (simp_all add: toy_resp2_def toy_tid_def toy_upp_def)
  have p: "public_key toy_mbed toy_sk = Some (toy_point 14)" by (simp add: toy_sk_def toy_public_key)
  have m: "ss_metadata_len toy_s2 \<le> 1007" by (simp add: toy_s2_ok)
  show ?thesis
    by (rule download_ok [OF toy_down_world(1) toy_enc_laws toy_cipher_laws toy_hash_laws toy_ecdsa_laws toy_down_world(2)
        toy_s2_ok(1,2) m toy_s2_ok(7) toy_eid_packed [folded toy_s2_ok(6)] n toy_decode2 toy_download_checked p])
      (simp_all add: e toy_download_of)
qed

section \<open>Reachable sessions\<close>

lemma toy_junk: "junk_clean zero_dp_session"
  by (simp add: junk_clean_def zero_dp_session_def)

lemma toy_reach:
  "es9_step toy_mbed toy_asn1 toy_sgp26 zero_dp_session None (Some toy_s1)"
  "es9_step toy_mbed toy_asn1 toy_sgp26 zero_dp_session (Some toy_s1) (Some toy_s2)"
  "es9_step toy_mbed toy_asn1 toy_sgp26 zero_dp_session (Some toy_s2) (Some (download_commit toy_s2 toy_keys))"
  "es9_reach toy_mbed toy_asn1 toy_sgp26 zero_dp_session (Some (download_commit toy_s2 toy_keys))"
proof -
  obtain bs where "rsp_dp_initiate_authentication toy_mbed toy_asn1 toy_sgp26 zero_dp_session (Buf toy_euicc_challenge)
    (Buf [1]) (Some toy_tid) (Some toy_challenge) (Some [0x61]) (Some [0x41]) True toy_init_world =
    (Inr (), toy_init_world\<lparr>loc := \<lparr>io_session = Some toy_s1, io_resp = Buf bs\<rparr>\<rparr>)" by (rule toy_initiated)
  from es9_step.initiate [OF _ _ _ this] show 1: "es9_step toy_mbed toy_asn1 toy_sgp26 zero_dp_session None (Some toy_s1)" by simp
  from es9_step.authenticate [OF _ toy_authenticated] show 2: "es9_step toy_mbed toy_asn1 toy_sgp26 zero_dp_session (Some toy_s1) (Some toy_s2)" by simp
  from es9_step.download [OF _ toy_downloaded] show 3: "es9_step toy_mbed toy_asn1 toy_sgp26 zero_dp_session (Some toy_s2)
    (Some (download_commit toy_s2 toy_keys))" by simp
  from 1 2 3 show "es9_reach toy_mbed toy_asn1 toy_sgp26 zero_dp_session (Some (download_commit toy_s2 toy_keys))"
    by (meson es9_reach.intros)
qed

section \<open>A report of the installation\<close>

definition toy_pir_data :: bytes where "toy_pir_data = toy_tid @ [5, 0]"

definition toy_pir :: bytes where
  "toy_pir = tlv [0xBF, 0x37] (tlv [0xBF, 0x27] toy_pir_data @ toy_sign (tlv [0xBF, 0x27] toy_pir_data))"

definition toy_result :: installation_result where
  "toy_result = \<lparr>pir_transactionId = toy_tid,
     pir_metadata = \<lparr>nm_seqNumber = [5], nm_operation = [0x80], nm_bits_unused = 4, nm_iccid = None\<rparr>,
     pir_finalResult = SuccessResult, pir_euiccSignPIR = toy_sign (tlv [0xBF, 0x27] toy_pir_data)\<rparr>"

lemma toy_pir_octets: "toy_pir = [0xBF, 0x37, 85, 0xBF, 0x27, 18] @ toy_tid @ [5, 0] @ toy_sign (tlv [0xBF, 0x27] toy_pir_data)"
  using toy_signs(2) [of "tlv [0xBF, 0x27] toy_pir_data"]
  by (simp add: toy_pir_def tlv_def toy_pir_data_def rsp_der_length_octets_def)

lemma toy_pir_decode: "a_dec_installation_result toy_asn1 toy_pir = Some toy_result"
  using toy_signs(2) [of "tlv [0xBF, 0x27] toy_pir_data"]
  by (simp add: toy_asn1_def toy_pir_octets toy_result_def nth_append)

lemma toy_pir_lengths: "length toy_pir_data \<le> 0xFFFFFFFF"
  "length (tlv [0xBF, 0x27] toy_pir_data @ toy_sign (tlv [0xBF, 0x27] toy_pir_data)) \<le> 0xFFFFFFFF"
  using toy_signs(2) by (simp_all add: toy_pir_data_def tlv_def rsp_der_length_octets_def)

lemma toy_pir_genuine: "pir_genuine toy_mbed toy_asn1 toy_euicc_cert toy_pir toy_result"
proof -
  have "pir_signed toy_asn1 toy_pir = Some (tlv [0xBF, 0x27] toy_pir_data)"
    unfolding toy_pir_def by (rule pir_data_ok(2) [where w = "\<lparr>faults = [], loc = ()\<rparr>", OF toy_ber_laws _ toy_pir_lengths]) simp
  then show ?thesis using toy_signs by (simp add: pir_genuine_def toy_result_def)
qed

lemma toy_event: "event_bits [0x80] 4 = [0]"
  by (simp add: event_bits_def upt_rec)

definition toy_notification :: rsp_notification where
  "toy_notification = \<lparr>rn_is_installation_result = 1, rn_seq_number = 5, rn_operation = 0, rn_have_iccid = 0,
     rn_iccid = replicate 10 0, rn_installed = 1\<rparr>"

lemma toy_installation_genuine: "installation_genuine toy_mbed toy_asn1 (Buf toy_euicc_cert) toy_pir toy_notification"
proof -
  have "meta_of toy_asn1 (pir_metadata toy_result) = Some (toy_notification\<lparr>rn_is_installation_result := 0, rn_installed := 0\<rparr>)"
    unfolding meta_of_def
    using operation_spec [of 4 "[0x80]"] toy_event
    by (simp add: toy_result_def toy_asn1_def toy_notification_def clear_notification_def)
  moreover have "take 2 toy_pir = [0xBF, 0x37]" by (simp add: toy_pir_octets numeral_2_eq_2)
  ultimately show ?thesis
    using toy_pir_genuine by (simp add: installation_genuine_def toy_pir_decode) (simp add: toy_result_def toy_notification_def)
qed

section \<open>A credential\<close>

definition toy_credential :: rsp_credential where
  "toy_credential = \<lparr>cr_der = Buf (dppb_der toy_sgp26), cr_sk = be_bytes 32 6\<rparr>"

lemma toy_credential_good: "credential_good toy_mbed toy_sgp26 toy_credential"
proof -
  have "key_matches toy_mbed (toy_cert 4 6 (replicate 32 0x30) 1) (be_bytes 32 6)"
    by (simp add: key_matches_def toy_crt) (simp add: toy_mbed_def be_val_be_bytes)
  moreover have "m_crt_is_ec toy_mbed c" for c by (simp add: toy_mbed_def)
  ultimately show ?thesis
    by (simp add: credential_good_def toy_credential_def toy_material toy_crt toy_cert_parts)
qed

end
