(* ===== verification/Computes.thy ===== *)
theory Computes
  imports Bpp
begin

text \<open>
  Refinement of a value by a computation: \<open>computes m v\<close> says that \<open>m\<close> leaves the caller's memory
  alone, that the result it returns is always the one of \<open>v\<close>, that it stops with -1 otherwise, and
  that it returns whenever \<open>v\<close> has a value and no call fails operationally. The rules follow the
  operations of the monad, so that a function body is shown to compute a chain of \<open>Option.bind\<close> by
  introduction alone.
\<close>

named_theorems computes_intros \<open>what an operation computes\<close>

definition computes :: "('x, 'a) cm \<Rightarrow> 'a option \<Rightarrow> bool" where
  "computes m v \<longleftrightarrow>
     (\<forall>w x w'. m w = (Inr x, w') \<longrightarrow> v = Some x \<and> loc w' = loc w) \<and>
     (\<forall>w e w'. m w = (Inl e, w') \<longrightarrow> e = Minus1 \<and> loc w' = loc w) \<and>
     (\<forall>w x. faults w = [] \<and> v = Some x \<longrightarrow> m w = (Inr x, w))"

lemma computesI:
  assumes "\<And>w x w'. m w = (Inr x, w') \<Longrightarrow> v = Some x \<and> loc w' = loc w"
    "\<And>w e w'. m w = (Inl e, w') \<Longrightarrow> e = Minus1 \<and> loc w' = loc w"
    "\<And>w x. faults w = [] \<Longrightarrow> v = Some x \<Longrightarrow> m w = (Inr x, w)"
  shows "computes m v"
  using assms unfolding computes_def by blast

lemma computesD:
  assumes "computes m v"
  shows "m w = (Inr x, w') \<Longrightarrow> v = Some x \<and> loc w' = loc w"
    and "m w = (Inl e, w') \<Longrightarrow> e = Minus1 \<and> loc w' = loc w"
    and "faults w = [] \<Longrightarrow> v = Some x \<Longrightarrow> m w = (Inr x, w)"
  using assms unfolding computes_def by blast+

text \<open>So no schedule of failures makes it return anything else, and without one it fails exactly when
  there is no value.\<close>

lemma computes_none:
  assumes "computes m None"
  obtains w' where "m w = (Inl Minus1, w')" "loc w' = loc w"
  using computesD(1,2) [OF assms, of w] by (cases "m w"; cases "fst (m w)") auto

lemma computes_bnd:
  fixes m :: "('x, 'a) cm"
  assumes "computes m v" "\<And>x. v = Some x \<Longrightarrow> computes (k x) (f x)"
  shows "computes (bnd m k) (Option.bind v f)"
proof (rule computesI)
  fix w y w' assume "bnd m k w = (Inr y, w')"
  then obtain x w1 where "m w = (Inr x, w1)" "k x w1 = (Inr y, w')" by (auto simp: cm_run)
  with computesD(1) [OF assms(1)] computesD(1) [OF assms(2)] show "Option.bind v f = Some y \<and> loc w' = loc w"
    by (metis bind.bind_lunit)
next
  fix w e w' assume "bnd m k w = (Inl e, w')"
  then consider "m w = (Inl e, w')" | x w1 where "m w = (Inr x, w1)" "k x w1 = (Inl e, w')" by (auto simp: cm_run)
  then show "e = Minus1 \<and> loc w' = loc w"
  proof cases
    case 2
    with computesD(1) [OF assms(1)] computesD(2) [OF assms(2)] show ?thesis by metis
  qed (use computesD(2) [OF assms(1)] in blast)
next
  fix w :: "'x st" and y assume f: "faults w = []" "Option.bind v f = Some y"
  then obtain x where x: "v = Some x" "f x = Some y" by (auto simp: bind_eq_Some_conv)
  from computesD(3) [OF assms(1) f(1) x(1)] computesD(3) [OF assms(2) [OF x(1)] f(1) x(2)]
  show "bnd m k w = (Inr y, w)" by (simp add: bnd_def)
qed

text \<open>An operation whose value is known beforehand adds nothing to the chain.\<close>

lemma computes_step:
  assumes "computes m (Some x)" "computes (k x) v"
  shows "computes (bnd m k) v"
  using computes_bnd [OF assms(1), of k "\<lambda>_. v"] assms(2) by simp

lemma computes_ret [computes_intros]: "computes (ret x) (Some x)"
  by (rule computesI) (auto simp: ret_def)

lemma computes_ext [computes_intros]: "computes (ext Minus1 v) v"
  by (rule computesI) (auto simp: cm_run)

lemma computes_lift_opt [computes_intros]: "computes (lift_opt Minus1 v) v"
  by (rule computesI) (auto simp: cm_run)

lemma computes_ensure [computes_intros]:
  "computes (ensure b Minus1) (if b then Some () else None)"
  by (rule computesI) (auto simp: cm_run, simp add: ensure_def ret_def split: if_splits)

lemma computes_if [computes_intros]:
  "computes m v \<Longrightarrow> computes n u \<Longrightarrow> computes (if b then m else n) (if b then v else u)"
  by simp

lemma computes_octets [computes_intros]: "computes (octet_string Minus1 b) (Some b)"
  unfolding octet_string_def by (rule computes_ext)

lemma computes_malloc [computes_intros]: "computes (malloc Minus1 n) (Some ())"
  unfolding malloc_def by (rule computes_ext)

lemma computes_sign [computes_intros]:
  "computes (rsp_sign M (Some c) (Buf tbs) True) (sign_value M (cr_sk c) tbs)"
  by (rule computesI) (auto dest: sign_run sign_fail simp: sign_ok)

lemma computes_cong: "computes m v \<Longrightarrow> v = u \<Longrightarrow> computes m u"
  by simp

text \<open>A call on a local variable of the caller, its failure recoded: what is known of its runs.\<close>

lemma computes_nested:
  assumes "\<And>bs x w'. m \<lparr>faults = bs, loc = y\<rparr> = (Inr x, w') \<Longrightarrow> v = Some (x, loc w')"
    "\<And>bs e w'. m \<lparr>faults = bs, loc = y\<rparr> = (Inl e, w') \<Longrightarrow> e \<in> {Minus1, Minus2}"
    "\<And>x z. v = Some (x, z) \<Longrightarrow> m \<lparr>faults = [], loc = y\<rparr> = (Inr x, \<lparr>faults = [], loc = z\<rparr>)"
  shows "computes (recode Minus1 (nested y m) :: ('x, 'a \<times> 'y) cm) v"
proof (rule computesI)
  fix w :: "'x st" and p w' assume "recode Minus1 (nested y m) w = (Inr p, w')"
  then obtain u where "m \<lparr>faults = faults w, loc = y\<rparr> = (Inr (fst p), u)" "snd p = loc u" "w' = w\<lparr>faults := faults u\<rparr>"
    by (auto simp: cm_run)
  with assms(1) [OF this(1)] show "v = Some p \<and> loc w' = loc w" by (cases p) simp
next
  fix w :: "'x st" and e w' assume "recode Minus1 (nested y m) w = (Inl e, w')"
  then obtain d u where "m \<lparr>faults = faults w, loc = y\<rparr> = (Inl d, u)" "w' = w\<lparr>faults := faults u\<rparr>"
    "e = (if d = Minus1 \<or> d = Minus2 then Minus1 else d)"
    by (auto simp only: recode_Inl nested_Inl)
  with assms(2) [OF this(1)] show "e = Minus1 \<and> loc w' = loc w" by auto
next
  fix w :: "'x st" and p assume "faults w = []" "v = Some p"
  then show "recode Minus1 (nested y m) w = (Inr p, w)"
    using assms(3) [of "fst p" "snd p"] by (simp add: recode_def nested_def)
qed

end
