(* ===== verification/Euicc.thy ===== *)
theory Euicc
  imports Download Notify Computes
begin

text \<open>
  The eUICC's side of a session as \<open>tests/fixtures.c\<close> builds it from the SGP.26 test material: the
  fixed-capacity \<open>sink\<close> with its callback \<open>collect\<close>, and the builders of an EUICCInfo1, an
  AuthenticateServerResponse, a StoreMetadataRequest, a PrepareDownloadResponse, a
  ProfileInstallationResult and an OtherSignedNotification. Every builder returns the octets it
  put into its caller's buffer, of which the capacity is given, or fails with -1.

  The encoders of the messages an eUICC sends are generated by asn1c too; they are the fields of the
  record \<open>card_codec\<close>. \<open>card_laws\<close> says that decoding gives back what was encoded, and which
  octets of a notification are the signed ones. Under it the library accepts what the builders make.
\<close>

unbundle bit_operations_syntax

section \<open>The messages of the eUICC\<close>

record euicc_info2 =
  ei_profileVersion :: bytes
  ei_svn :: bytes
  ei_euiccFirmwareVer :: bytes
  ei_extCardResource :: bytes
  ei_uiccCapability :: bytes
  ei_rspCapability :: bytes
  ei_ppVersion :: bytes
  ei_sasAcreditationNumber :: bytes

record card_metadata = notification_metadata +
  nm_notificationAddress :: bytes

datatype card_final = CardSuccess bytes bytes | CardError bytes bytes

record card_result =
  cd_transactionId :: bytes
  cd_metadata :: card_metadata
  cd_smdpOid :: bytes
  cd_finalResult :: card_final

record 'a card_notification =
  cn_tbs :: card_metadata
  cn_signature :: bytes
  cn_euiccCertificate :: 'a
  cn_eumCertificate :: 'a

text \<open>The library's model carries an EUICCInfo2 and a CtxParams1 as their octets: \<open>c_info2\<close> and
  \<open>c_ctx_params1\<close> give them. \<open>c_long2integer\<close> and \<open>c_oid\<close> are \<open>asn_long2INTEGER\<close> and
  \<open>OBJECT_IDENTIFIER_set_arcs\<close>.\<close>

record 'a card_codec =
  c_enc_euicc_info1 :: "bytes \<Rightarrow> bytes list option"
  c_info2 :: "euicc_info2 \<Rightarrow> bytes"
  c_ctx_params1 :: "bytes \<Rightarrow> bytes"
  c_enc_auth_server_response :: "'a auth_server_response \<Rightarrow> bytes list option"
  c_enc_store_metadata :: "store_metadata \<Rightarrow> bytes list option"
  c_enc_prepare_download :: "prepare_download_response \<Rightarrow> bytes list option"
  c_enc_result_data :: "card_result \<Rightarrow> bytes list option"
  c_enc_result :: "card_result \<Rightarrow> bytes \<Rightarrow> bytes list option"
  c_enc_metadata :: "card_metadata \<Rightarrow> bytes list option"
  c_enc_notification :: "'a card_notification \<Rightarrow> bytes list option"
  c_long2integer :: "int \<Rightarrow> bytes option"
  c_oid :: "nat list \<Rightarrow> bytes option"

section \<open>The sink\<close>

record sink =
  sk_p :: bytes
  sk_cap :: nat

definition collect :: "sink \<Rightarrow> bytes \<Rightarrow> ('x, sink) cm" where
  "collect s buf =
     (if length (sk_p s) + length buf > sk_cap s then stop_with Minus1
      else ret (s\<lparr>sk_p := sk_p s @ buf\<rparr>))"

text \<open>\<open>der_encode\<close> into a fresh sink over a buffer of \<open>cap\<close> octets.\<close>

definition sink_encode :: "nat \<Rightarrow> bytes list option \<Rightarrow> ('x, bytes) cm" where
  "sink_encode cap blocks =
     bnd (lift_opt Minus1 blocks) (\<lambda>bs.
     bnd (append_blocks collect \<lparr>sk_p = [], sk_cap = cap\<rparr> bs) (\<lambda>s.
     ret (sk_p s)))"

interpretation sk: byte_buffer
  "collect :: sink \<Rightarrow> bytes \<Rightarrow> ('x, sink) cm" "\<lambda>s. sk_cap s = cap" sk_p cap for cap
  by unfold_locales (auto simp: collect_def ret_def stop_with_def split: if_splits)

text \<open>An encoding that fits a buffer, as a value.\<close>

definition fits :: "nat \<Rightarrow> bytes list option \<Rightarrow> bytes option" where
  "fits cap blocks = Option.bind blocks (\<lambda>bs. if length (concat bs) \<le> cap then Some (concat bs) else None)"

lemma collect_Inr [cm_run]:
  "collect s b w = (Inr s', w') \<longleftrightarrow>
     length (sk_p s) + length b \<le> sk_cap s \<and> s' = s\<lparr>sk_p := sk_p s @ b\<rparr> \<and> w' = w"
  by (auto simp: collect_def cm_run)

lemma collect_blocks_fit:
  "append_blocks collect s bs w = (Inr s', w') \<Longrightarrow> length (sk_p s) \<le> sk_cap s \<Longrightarrow>
     length (sk_p s') \<le> sk_cap s'"
proof (induction bs arbitrary: s w)
  case (Cons b bs)
  then have "length (sk_p s) + length b \<le> sk_cap s" "append_blocks collect (s\<lparr>sk_p := sk_p s @ b\<rparr>) bs w = (Inr s', w')"
    by (auto simp: cm_run)
  from Cons.IH [OF this(2)] this(1) show ?case by simp
qed (simp add: cm_run)

lemma sink_encode_run:
  assumes "sink_encode cap blocks w = (Inr out, w')"
  shows "fits cap blocks = Some out \<and> loc w' = loc w"
proof -
  from assms obtain bs s where b: "blocks = Some bs"
    "append_blocks collect \<lparr>sk_p = [], sk_cap = cap\<rparr> bs w = (Inr s, w')" "out = sk_p s"
    by (auto simp: sink_encode_def cm_run)
  from sk.blocks_run [where cap = cap, OF _ b(2)] collect_blocks_fit [OF b(2)] b(1,3) show ?thesis
    by (simp add: fits_def)
qed

lemma sink_encode_ok:
  assumes "faults w = []" "fits cap blocks = Some out"
  shows "sink_encode cap blocks w = (Inr out, w)"
proof -
  from assms(2) obtain bs where b: "blocks = Some bs" "length (concat bs) \<le> cap" "out = concat bs"
    by (auto simp: fits_def bind_eq_Some_conv split: if_splits)
  obtain s where s: "append_blocks collect \<lparr>sk_p = [], sk_cap = cap\<rparr> bs w = (Inr s, w)"
    using sk.blocks_total [where cap = cap and g = "\<lparr>sk_p = [], sk_cap = cap\<rparr>", OF _ assms(1)] b(2) by auto
  with sk.blocks_run [where cap = cap, OF _ s] b show ?thesis
    by (simp add: sink_encode_def bnd_def lift_opt_def ret_def)
qed

lemma sink_encode_fail: "sink_encode cap blocks w = (Inl e, w') \<Longrightarrow> e = Minus1 \<and> loc w' = loc w"
proof -
  have a: "append_blocks collect s bs w = (Inl e, w') \<Longrightarrow> e = Minus1 \<and> loc w' = loc w" for s bs and w w' :: "'x st"
    by (induction bs arbitrary: s w) (auto simp: cm_run collect_def stop_with_def ret_def split: if_splits)
  show "sink_encode cap blocks w = (Inl e, w') \<Longrightarrow> e = Minus1 \<and> loc w' = loc w"
    by (auto simp: sink_encode_def cm_run dest: a)
qed

lemma sink_encode_computes: "computes (sink_encode cap blocks) (fits cap blocks)"
  by (rule computesI) (auto dest: sink_encode_run sink_encode_fail sink_encode_ok)

section \<open>The test material\<close>

text \<open>The characters of a C string literal, without its NUL.\<close>

definition c_string :: "string \<Rightarrow> bytes" where
  "c_string s = map (\<lambda>c. word_of_nat (of_char c)) s"

definition SMDP_ADDR :: bytes where "SMDP_ADDR = c_string ''smdp.example.com''"

definition EUICC_TEST_EID :: bytes where
  "EUICC_TEST_EID = c_string ''89049032123451234512345678901235''"

definition EUICC_TEST_SK :: bytes where
  "EUICC_TEST_SK = [
     0x11, 0xe1, 0x54, 0x67, 0xdc, 0x19, 0x4f, 0x33,
     0x71, 0x83, 0xe4, 0x60, 0xc9, 0xf6, 0x32, 0x60,
     0x09, 0x1e, 0x12, 0xe8, 0x10, 0x26, 0xcd, 0x65,
     0x61, 0xe1, 0x7c, 0x6d, 0x85, 0x39, 0xcc, 0x9c]"

text \<open>\<open>memset(&euicc_cred, 0, ...)\<close> and the scalar: a credential without a certificate.\<close>

definition euicc_cred :: rsp_credential where
  "euicc_cred = \<lparr>cr_der = Null 0, cr_sk = EUICC_TEST_SK\<rparr>"

section \<open>The builders\<close>

definition build_euicc_info1 :: "'a card_codec \<Rightarrow> nat \<Rightarrow> ('x, bytes) cm" where
  "build_euicc_info1 K cap =
     bnd (octet_string Minus1 [2, 0, 0]) (\<lambda>svn.
     sink_encode cap (c_enc_euicc_info1 K svn))"

definition build_euicc_info2 :: "('x, euicc_info2) cm" where
  "build_euicc_info2 =
     bnd (octet_string Minus1 [2, 2, 0]) (\<lambda>profileVersion.
     bnd (octet_string Minus1 [2, 2, 0]) (\<lambda>svn.
     bnd (octet_string Minus1 [1, 0, 0]) (\<lambda>euiccFirmwareVer.
     bnd (octet_string Minus1 [0]) (\<lambda>extCardResource.
     bnd (octet_string Minus1 [0]) (\<lambda>uiccCapability.
     bnd (octet_string Minus1 [0]) (\<lambda>rspCapability.
     bnd (octet_string Minus1 [2, 0, 0]) (\<lambda>ppVersion.
     bnd (octet_string Minus1 []) (\<lambda>sasAcreditationNumber.
     ret \<lparr>ei_profileVersion = profileVersion, ei_svn = svn, ei_euiccFirmwareVer = euiccFirmwareVer,
          ei_extCardResource = extCardResource, ei_uiccCapability = uiccCapability,
          ei_rspCapability = rspCapability, ei_ppVersion = ppVersion,
          ei_sasAcreditationNumber = sasAcreditationNumber\<rparr>))))))))"

definition build_device_info :: "('x, bytes) cm" where
  "build_device_info = octet_string Minus1 [0, 0, 0, 0]"

definition build_ctx_params1 :: "'a card_codec \<Rightarrow> ('x, bytes) cm" where
  "build_ctx_params1 K = bnd build_device_info (\<lambda>tac. ret (c_ctx_params1 K tac))"

definition build_auth_server_response ::
  "('c, 'g, 'p, 'k) mbedtls \<Rightarrow> 'a asn1c \<Rightarrow> 'a card_codec \<Rightarrow> bytes \<Rightarrow> bytes \<Rightarrow> bytes \<Rightarrow> bytes \<Rightarrow> nat \<Rightarrow> ('x, bytes) cm" where
  "build_auth_server_response M A K transaction_id server_challenge euicc_cert_der eum_cert_der cap =
     bnd (octet_string Minus1 transaction_id) (\<lambda>tid.
     bnd (octet_string Minus1 SMDP_ADDR) (\<lambda>addr.
     bnd (octet_string Minus1 server_challenge) (\<lambda>chal.
     bnd build_euicc_info2 (\<lambda>info2.
     bnd (build_ctx_params1 K) (\<lambda>ctx.
     let es1 = \<lparr>es1_transactionId = tid, es1_serverAddress = addr, es1_serverChallenge = chal,
                es1_euiccInfo2 = c_info2 K info2, es1_ctxParams1 = ctx\<rparr> in
     bnd (sink_encode 2048 (a_enc_euicc_signed1 A es1)) (\<lambda>es1_der.
     bnd (rsp_sign M (Some euicc_cred) (Buf es1_der) True) (\<lambda>sig.
     bnd (octet_string Minus1 sig) (\<lambda>sig.
     bnd (ext Minus1 (a_dec_certificate A euicc_cert_der)) (\<lambda>euicc_cert.
     bnd (ext Minus1 (a_dec_certificate A eum_cert_der)) (\<lambda>eum_cert.
     sink_encode cap (c_enc_auth_server_response K (AuthenticateResponseOk
       \<lparr>ar_euiccSigned1 = es1, ar_euiccSignature1 = sig, ar_euiccCertificate = euicc_cert,
        ar_eumCertificate = eum_cert\<rparr>))))))))))))"

definition build_store_metadata ::
  "'a card_codec \<Rightarrow> bytes \<Rightarrow> bytes \<Rightarrow> bytes \<Rightarrow> nat \<Rightarrow> ('x, bytes) cm" where
  "build_store_metadata K iccid profile_name service_provider_name cap =
     bnd (octet_string Minus1 iccid) (\<lambda>iccid.
     bnd (octet_string Minus1 service_provider_name) (\<lambda>spn.
     bnd (octet_string Minus1 profile_name) (\<lambda>name.
     sink_encode cap (c_enc_store_metadata K
       \<lparr>sm_iccid = iccid, sm_serviceProviderName = spn, sm_profileName = name, sm_others = []\<rparr>))))"

definition build_prepare_download_response ::
  "('c, 'g, 'p, 'k) mbedtls \<Rightarrow> 'a asn1c \<Rightarrow> 'a card_codec \<Rightarrow> bytes \<Rightarrow> bytes \<Rightarrow> bytes \<Rightarrow> nat \<Rightarrow> ('x, bytes) cm" where
  "build_prepare_download_response M A K transaction_id euicc_otpk smdp_signature2 cap =
     bnd (octet_string Minus1 transaction_id) (\<lambda>tid.
     bnd (octet_string Minus1 euicc_otpk) (\<lambda>otpk.
     let es2 = \<lparr>es2_transactionId = tid, es2_euiccOtpk = otpk, es2_hashCc = None\<rparr> in
     bnd (sink_encode 512 (a_enc_euicc_signed2 A es2)) (\<lambda>es2_der.
     bnd (ensure (\<not> length es2_der + 3 + 64 > 512) Minus1) (\<lambda>_.
     bnd (rsp_sign M (Some euicc_cred) (Buf (es2_der @ [0x5F, 0x37, 64] @ smdp_signature2)) True) (\<lambda>sig.
     bnd (octet_string Minus1 sig) (\<lambda>sig.
     sink_encode cap (c_enc_prepare_download K (DownloadResponseOk
       \<lparr>pd_euiccSigned2 = es2, pd_euiccSignature2 = sig\<rparr>))))))))"

definition PIR_AID :: bytes where
  "PIR_AID = [0xA0,0x00,0x00,0x05,0x59,0x10,0x10,0xFF, 0xFF,0xFF,0xFF,0x89,0x00,0x00,0x11,0x00]"

definition PIR_ICCID :: bytes where
  "PIR_ICCID = [0x98, 0x00, 0x10, 0x32, 0x54, 0x76, 0x98, 0x10, 0x32, 0x14]"

definition build_installation_result ::
  "('c, 'g, 'p, 'k) mbedtls \<Rightarrow> 'a card_codec \<Rightarrow> bytes \<Rightarrow> bool \<Rightarrow> nat \<Rightarrow> ('x, bytes) cm" where
  "build_installation_result M K transaction_id success cap =
     bnd (octet_string Minus1 transaction_id) (\<lambda>tid.
     bnd (ext Minus1 (c_long2integer K 1)) (\<lambda>seq.
     bnd (octet_string Minus1 [0x80]) (\<lambda>event.
     bnd (octet_string Minus1 SMDP_ADDR) (\<lambda>addr.
     bnd (malloc Minus1 0) (\<lambda>_.
     bnd (octet_string Minus1 PIR_ICCID) (\<lambda>iccid.
     bnd (ext Minus1 (c_oid K [2, 999])) (\<lambda>oid.
     bnd (if success then
            bnd (octet_string Minus1 PIR_AID) (\<lambda>aid.
            bnd (octet_string Minus1 [0x30, 0x00]) (\<lambda>sima. ret (CardSuccess aid sima)))
          else
            bnd (ext Minus1 (c_long2integer K 5)) (\<lambda>command.
            bnd (ext Minus1 (c_long2integer K 12)) (\<lambda>reason. ret (CardError command reason)))) (\<lambda>final.
     let d = \<lparr>cd_transactionId = tid, cd_metadata = \<lparr>nm_seqNumber = seq, nm_operation = event, nm_bits_unused = 0,
                nm_iccid = Some iccid, nm_notificationAddress = addr\<rparr>, cd_smdpOid = oid, cd_finalResult = final\<rparr> in
     bnd (sink_encode 512 (c_enc_result_data K d)) (\<lambda>data_der.
     bnd (rsp_sign M (Some euicc_cred) (Buf data_der) True) (\<lambda>sig.
     bnd (octet_string Minus1 sig) (\<lambda>sig.
     sink_encode cap (c_enc_result K d sig))))))))))))"

definition build_other_notification ::
  "('c, 'g, 'p, 'k) mbedtls \<Rightarrow> 'a asn1c \<Rightarrow> 'a card_codec \<Rightarrow> int \<Rightarrow> nat \<Rightarrow> bytes \<Rightarrow> bytes \<Rightarrow> nat \<Rightarrow> ('x, bytes) cm" where
  "build_other_notification M A K seq_number operation_bit euicc_cert_der eum_cert_der cap =
     bnd (ext Minus1 (c_long2integer K seq_number)) (\<lambda>seq.
     bnd (octet_string Minus1 [drop_bit operation_bit 0x80]) (\<lambda>event.
     bnd (octet_string Minus1 SMDP_ADDR) (\<lambda>addr.
     let tbs = \<lparr>nm_seqNumber = seq, nm_operation = event, nm_bits_unused = 4, nm_iccid = None,
                nm_notificationAddress = addr\<rparr> in
     bnd (sink_encode 512 (c_enc_metadata K tbs)) (\<lambda>tbs_der.
     bnd (rsp_sign M (Some euicc_cred) (Buf tbs_der) True) (\<lambda>sig.
     bnd (octet_string Minus1 sig) (\<lambda>sig.
     bnd (ext Minus1 (a_dec_certificate A euicc_cert_der)) (\<lambda>ec.
     bnd (ext Minus1 (a_dec_certificate A eum_cert_der)) (\<lambda>mc.
     sink_encode cap (c_enc_notification K
       \<lparr>cn_tbs = tbs, cn_signature = sig, cn_euiccCertificate = ec, cn_eumCertificate = mc\<rparr>)))))))))"

section \<open>What the builders make\<close>

definition card_info2 :: euicc_info2 where
  "card_info2 = \<lparr>ei_profileVersion = [2, 2, 0], ei_svn = [2, 2, 0], ei_euiccFirmwareVer = [1, 0, 0],
     ei_extCardResource = [0], ei_uiccCapability = [0], ei_rspCapability = [0], ei_ppVersion = [2, 0, 0],
     ei_sasAcreditationNumber = []\<rparr>"

definition card_es1 :: "'a card_codec \<Rightarrow> bytes \<Rightarrow> bytes \<Rightarrow> euicc_signed1" where
  "card_es1 K tid chal = \<lparr>es1_transactionId = tid, es1_serverAddress = SMDP_ADDR, es1_serverChallenge = chal,
     es1_euiccInfo2 = c_info2 K card_info2,
     es1_ctxParams1 = c_ctx_params1 K [0, 0, 0, 0]\<rparr>"

definition card_auth_of ::
  "('c, 'g, 'p, 'k) mbedtls \<Rightarrow> 'a asn1c \<Rightarrow> 'a card_codec \<Rightarrow> bytes \<Rightarrow> bytes \<Rightarrow> bytes \<Rightarrow> bytes \<Rightarrow> 'a auth_response_ok option" where
  "card_auth_of M A K tid chal ec mc =
     Option.bind (fits 2048 (a_enc_euicc_signed1 A (card_es1 K tid chal))) (\<lambda>tbs.
     Option.bind (sign_value M EUICC_TEST_SK tbs) (\<lambda>sig.
     Option.bind (a_dec_certificate A ec) (\<lambda>euicc_cert.
     Option.bind (a_dec_certificate A mc) (\<lambda>eum_cert.
     Some \<lparr>ar_euiccSigned1 = card_es1 K tid chal, ar_euiccSignature1 = sig, ar_euiccCertificate = euicc_cert,
           ar_eumCertificate = eum_cert\<rparr>))))"

definition card_download_of ::
  "('c, 'g, 'p, 'k) mbedtls \<Rightarrow> 'a asn1c \<Rightarrow> bytes \<Rightarrow> bytes \<Rightarrow> bytes \<Rightarrow> download_ok option" where
  "card_download_of M A tid otpk sig2 =
    (let es2 = \<lparr>es2_transactionId = tid, es2_euiccOtpk = otpk, es2_hashCc = None\<rparr> in
     Option.bind (fits 445 (a_enc_euicc_signed2 A es2)) (\<lambda>es2_der.
     Option.bind (sign_value M EUICC_TEST_SK (es2_der @ [0x5F, 0x37, 64] @ sig2)) (\<lambda>sig.
     Some \<lparr>pd_euiccSigned2 = es2, pd_euiccSignature2 = sig\<rparr>)))"

definition card_result_of :: "'a card_codec \<Rightarrow> bytes \<Rightarrow> bool \<Rightarrow> card_result option" where
  "card_result_of K tid success =
     Option.bind (c_long2integer K 1) (\<lambda>seq.
     Option.bind (c_oid K [2, 999]) (\<lambda>oid.
     Option.bind (if success then Some (CardSuccess PIR_AID [0x30, 0x00])
        else Option.bind (c_long2integer K 5) (\<lambda>c. map_option (CardError c) (c_long2integer K 12))) (\<lambda>final.
     Some \<lparr>cd_transactionId = tid, cd_metadata = \<lparr>nm_seqNumber = seq, nm_operation = [0x80], nm_bits_unused = 0,
             nm_iccid = Some PIR_ICCID, nm_notificationAddress = SMDP_ADDR\<rparr>, cd_smdpOid = oid,
           cd_finalResult = final\<rparr>)))"

text \<open>The result and its signature.\<close>

definition card_report_of ::
  "('c, 'g, 'p, 'k) mbedtls \<Rightarrow> 'a card_codec \<Rightarrow> bytes \<Rightarrow> bool \<Rightarrow> (card_result \<times> bytes) option" where
  "card_report_of M K tid success =
     Option.bind (card_result_of K tid success) (\<lambda>d.
     Option.bind (fits 512 (c_enc_result_data K d)) (\<lambda>tbs.
     map_option (Pair d) (sign_value M EUICC_TEST_SK tbs)))"

definition card_other_of ::
  "('c, 'g, 'p, 'k) mbedtls \<Rightarrow> 'a asn1c \<Rightarrow> 'a card_codec \<Rightarrow> int \<Rightarrow> nat \<Rightarrow> bytes \<Rightarrow> bytes \<Rightarrow> 'a card_notification option" where
  "card_other_of M A K seq_number operation_bit ec mc =
     Option.bind (c_long2integer K seq_number) (\<lambda>seq.
     let tbs = \<lparr>nm_seqNumber = seq, nm_operation = [drop_bit operation_bit 0x80], nm_bits_unused = 4, nm_iccid = None,
                nm_notificationAddress = SMDP_ADDR\<rparr> in
     Option.bind (fits 512 (c_enc_metadata K tbs)) (\<lambda>tbs_der.
     Option.bind (sign_value M EUICC_TEST_SK tbs_der) (\<lambda>sig.
     Option.bind (a_dec_certificate A ec) (\<lambda>euicc_cert.
     Option.bind (a_dec_certificate A mc) (\<lambda>eum_cert.
     Some \<lparr>cn_tbs = tbs, cn_signature = sig, cn_euiccCertificate = euicc_cert, cn_eumCertificate = eum_cert\<rparr>)))))"

lemma fits_445: "fits 445 b = Option.bind (fits 512 b) (\<lambda>x. if length x + 3 + 64 \<le> 512 then Some x else None)"
  by (cases b) (simp_all add: fits_def)

section \<open>The builders compute them\<close>

text \<open>Whatever the schedule of operational failures: a builder returns these octets or fails with -1, and
  with no failure it returns them whenever they exist.\<close>

lemma info2_computes: "computes build_euicc_info2 (Some card_info2)"
  unfolding build_euicc_info2_def card_info2_def by (intro computes_step [OF computes_octets] computes_ret)

lemma ctx_params1_computes: "computes (build_ctx_params1 K) (Some (c_ctx_params1 K [0, 0, 0, 0]))"
  unfolding build_ctx_params1_def build_device_info_def by (intro computes_step [OF computes_octets] computes_ret)

lemmas card_steps = computes_step [OF computes_octets] computes_step [OF info2_computes]
  computes_step [OF ctx_params1_computes] computes_step [OF computes_malloc] computes_bnd [OF sink_encode_computes]
  computes_bnd [OF computes_sign] computes_bnd [OF computes_ext] computes_bnd [OF computes_ensure] computes_bnd [OF computes_if]
  computes_ret sink_encode_computes

theorem build_info1_computes: "computes (build_euicc_info1 K cap) (fits cap (c_enc_euicc_info1 K [2, 0, 0]))"
  unfolding build_euicc_info1_def by (rule computes_step [OF computes_octets sink_encode_computes])

theorem build_auth_computes:
  "computes (build_auth_server_response M A K tid chal ec mc cap)
     (Option.bind (card_auth_of M A K tid chal ec mc)
        (\<lambda>rok. fits cap (c_enc_auth_server_response K (AuthenticateResponseOk rok))))"
proof (rule computes_cong)
  show "computes (build_auth_server_response M A K tid chal ec mc cap)
    (Option.bind (fits 2048 (a_enc_euicc_signed1 A (card_es1 K tid chal))) (\<lambda>tbs.
     Option.bind (sign_value M (cr_sk euicc_cred) tbs) (\<lambda>sig.
     Option.bind (a_dec_certificate A ec) (\<lambda>c.
     Option.bind (a_dec_certificate A mc) (\<lambda>m.
     fits cap (c_enc_auth_server_response K (AuthenticateResponseOk
       \<lparr>ar_euiccSigned1 = card_es1 K tid chal, ar_euiccSignature1 = sig, ar_euiccCertificate = c,
        ar_eumCertificate = m\<rparr>)))))))"
    unfolding build_auth_server_response_def Let_def card_es1_def
    by (rule card_steps)+
qed (simp add: card_auth_of_def euicc_cred_def)

theorem build_store_metadata_computes:
  "computes (build_store_metadata K iccid name spn cap)
     (fits cap (c_enc_store_metadata K \<lparr>sm_iccid = iccid, sm_serviceProviderName = spn, sm_profileName = name, sm_others = []\<rparr>))"
  unfolding build_store_metadata_def
  by (rule card_steps)+

theorem build_download_computes:
  "computes (build_prepare_download_response M A K tid otpk sig2 cap)
     (Option.bind (card_download_of M A tid otpk sig2) (\<lambda>rok. fits cap (c_enc_prepare_download K (DownloadResponseOk rok))))"
proof (rule computes_cong)
  let ?es2 = "\<lparr>es2_transactionId = tid, es2_euiccOtpk = otpk, es2_hashCc = None\<rparr>"
  show "computes (build_prepare_download_response M A K tid otpk sig2 cap)
    (Option.bind (fits 512 (a_enc_euicc_signed2 A ?es2)) (\<lambda>tbs.
     Option.bind (if \<not> length tbs + 3 + 64 > 512 then Some () else None) (\<lambda>_.
     Option.bind (sign_value M (cr_sk euicc_cred) (tbs @ [0x5F, 0x37, 64] @ sig2)) (\<lambda>sig.
     fits cap (c_enc_prepare_download K (DownloadResponseOk \<lparr>pd_euiccSigned2 = ?es2, pd_euiccSignature2 = sig\<rparr>))))))"
    unfolding build_prepare_download_response_def Let_def
    by (rule card_steps)+
  show "\<dots> = Option.bind (card_download_of M A tid otpk sig2) (\<lambda>rok. fits cap (c_enc_prepare_download K (DownloadResponseOk rok)))"
    by (simp add: card_download_of_def Let_def euicc_cred_def fits_445 split: bind_splits)
qed

theorem build_result_computes:
  "computes (build_installation_result M K tid success cap)
     (Option.bind (card_report_of M K tid success) (\<lambda>(d, sig). fits cap (c_enc_result K d sig)))"
proof (rule computes_cong)
  show "computes (build_installation_result M K tid success cap)
    (Option.bind (c_long2integer K 1) (\<lambda>seq.
     Option.bind (c_oid K [2, 999]) (\<lambda>oid.
     Option.bind (if success then Some (CardSuccess PIR_AID [0x30, 0x00])
        else Option.bind (c_long2integer K 5) (\<lambda>c. Option.bind (c_long2integer K 12) (\<lambda>r. Some (CardError c r)))) (\<lambda>final.
     let d = \<lparr>cd_transactionId = tid, cd_metadata = \<lparr>nm_seqNumber = seq, nm_operation = [0x80], nm_bits_unused = 0,
             nm_iccid = Some PIR_ICCID, nm_notificationAddress = SMDP_ADDR\<rparr>, cd_smdpOid = oid, cd_finalResult = final\<rparr> in
     Option.bind (fits 512 (c_enc_result_data K d)) (\<lambda>tbs.
     Option.bind (sign_value M (cr_sk euicc_cred) tbs) (\<lambda>sig. fits cap (c_enc_result K d sig)))))))"
    unfolding build_installation_result_def Let_def
    by (rule card_steps)+
  show "\<dots> = Option.bind (card_report_of M K tid success) (\<lambda>(d, sig). fits cap (c_enc_result K d sig))"
    by (simp add: card_report_of_def card_result_of_def euicc_cred_def Let_def map_option_bind bind_map_option
        split: bind_splits)
qed

theorem build_other_computes:
  "computes (build_other_notification M A K seq op_bit ec mc cap)
     (Option.bind (card_other_of M A K seq op_bit ec mc) (\<lambda>n. fits cap (c_enc_notification K n)))"
proof (rule computes_cong)
  show "computes (build_other_notification M A K seq op_bit ec mc cap)
    (Option.bind (c_long2integer K seq) (\<lambda>s.
     let tbs = \<lparr>nm_seqNumber = s, nm_operation = [drop_bit op_bit 0x80], nm_bits_unused = 4, nm_iccid = None,
                nm_notificationAddress = SMDP_ADDR\<rparr> in
     Option.bind (fits 512 (c_enc_metadata K tbs)) (\<lambda>tbs_der.
     Option.bind (sign_value M (cr_sk euicc_cred) tbs_der) (\<lambda>sig.
     Option.bind (a_dec_certificate A ec) (\<lambda>c.
     Option.bind (a_dec_certificate A mc) (\<lambda>m.
     fits cap (c_enc_notification K
       \<lparr>cn_tbs = tbs, cn_signature = sig, cn_euiccCertificate = c, cn_eumCertificate = m\<rparr>)))))))"
    unfolding build_other_notification_def Let_def
    by (rule card_steps)+
qed (simp add: card_other_of_def euicc_cred_def Let_def)

end
