(* ===== verification/Card.thy ===== *)
theory Card
  imports Euicc
begin

text \<open>
  What the test eUICC of \<open>tests/fixtures.c\<close> says is what the library accepts. \<open>card_laws\<close> states
  what is relied on of the generated encoders and decoders: X.690 round trips on the values the
  builders make, and the place of the signed octets in a notification. \<open>card_material\<close> states what
  is relied on of the SGP.26 test certificates. Under both, the answers and the reports the builders
  make pass the checks of \<open>rsp_dp_authenticate_client\<close>, \<open>rsp_dp_get_bound_profile_package\<close>,
  \<open>rsp_dp_verify_installation_result\<close> and \<open>rsp_dp_verify_notification\<close>.
\<close>

section \<open>The codec\<close>

text \<open>The metadata as the library's decoder shows it: without the address it does not read.\<close>

definition meta_view :: "card_metadata \<Rightarrow> notification_metadata" where
  "meta_view m = \<lparr>nm_seqNumber = nm_seqNumber m, nm_operation = nm_operation m,
     nm_bits_unused = nm_bits_unused m, nm_iccid = nm_iccid m\<rparr>"

fun final_view :: "card_final \<Rightarrow> final_result" where
  "final_view (CardSuccess aid sima) = SuccessResult"
| "final_view (CardError command reason) = ErrorResult command reason"

definition result_view :: "card_result \<Rightarrow> bytes \<Rightarrow> installation_result" where
  "result_view d sig = \<lparr>pir_transactionId = cd_transactionId d, pir_metadata = meta_view (cd_metadata d),
     pir_finalResult = final_view (cd_finalResult d), pir_euiccSignPIR = sig\<rparr>"

text \<open>Only values in the form DER gives them survive: an INTEGER of \<open>asn_long2INTEGER\<close>, a BIT STRING
  whose unused bits are clear.\<close>

definition metadata_der :: "'a card_codec \<Rightarrow> card_metadata \<Rightarrow> bool" where
  "metadata_der K m \<longleftrightarrow> (\<exists>i. c_long2integer K i = Some (nm_seqNumber m)) \<and> nm_bits_unused m \<le> 7 \<and>
     nm_operation m \<noteq> [] \<and> take_bit (nm_bits_unused m) (last (nm_operation m)) = 0"

fun final_der :: "'a card_codec \<Rightarrow> card_final \<Rightarrow> bool" where
  "final_der K (CardSuccess aid sima) = True"
| "final_der K (CardError command reason) = ((\<exists>i. c_long2integer K i = Some command) \<and> (\<exists>i. c_long2integer K i = Some reason))"

definition message_laws :: "'a asn1c \<Rightarrow> 'a card_codec \<Rightarrow> bool" where
  "message_laws A K \<longleftrightarrow>
     (\<forall>svn bs. c_enc_euicc_info1 K svn = Some bs \<longrightarrow> concat bs \<noteq> [] \<and> a_dec_euicc_info1 A (concat bs)) \<and>
     (\<forall>r i t bs. es1_euiccInfo2 (ar_euiccSigned1 r) = c_info2 K i \<and> es1_ctxParams1 (ar_euiccSigned1 r) = c_ctx_params1 K t \<and>
        c_enc_auth_server_response K (AuthenticateResponseOk r) = Some bs \<longrightarrow>
        concat bs \<noteq> [] \<and> a_dec_auth_server_response A (concat bs) = Some (AuthenticateResponseOk r)) \<and>
     (\<forall>m bs. sm_others m = [] \<and> c_enc_store_metadata K m = Some bs \<longrightarrow>
        concat bs \<noteq> [] \<and> a_dec_store_metadata A (concat bs) = Some m) \<and>
     (\<forall>r bs. c_enc_prepare_download K (DownloadResponseOk r) = Some bs \<longrightarrow>
        concat bs \<noteq> [] \<and> a_dec_prepare_download A (concat bs) = Some (DownloadResponseOk r)) \<and>
     (\<forall>i b. c_long2integer K i = Some b \<longrightarrow> a_integer2long A b = Some i)"

definition report_laws :: "'a asn1c \<Rightarrow> 'a card_codec \<Rightarrow> bool" where
  "report_laws A K \<longleftrightarrow>
     (\<forall>d sig ds bs. metadata_der K (cd_metadata d) \<and> final_der K (cd_finalResult d) \<and>
        c_enc_result_data K d = Some ds \<and> c_enc_result K d sig = Some bs \<longrightarrow>
        a_dec_installation_result A (concat bs) = Some (result_view d sig) \<and>
        (\<exists>v. concat ds = tlv [0xBF, 0x27] v \<and> concat bs = tlv [0xBF, 0x37] (concat ds @ tlv [0x5F, 0x37] sig) \<and>
           length v \<le> 0xFFFFFFFF \<and> length (concat ds @ tlv [0x5F, 0x37] sig) \<le> 0xFFFFFFFF)) \<and>
     (\<forall>n ms es us bs. metadata_der K (cn_tbs n) \<and> c_enc_metadata K (cn_tbs n) = Some ms \<and>
        a_enc_certificate A (cn_euiccCertificate n) = Some es \<and> a_enc_certificate A (cn_eumCertificate n) = Some us \<and>
        c_enc_notification K n = Some bs \<longrightarrow>
        a_dec_other_notification A (concat bs) = Some \<lparr>osn_tbs = meta_view (cn_tbs n), osn_signature = cn_signature n\<rparr> \<and>
        (\<exists>m e u. concat ms = tlv [0xBF, 0x2F] m \<and> concat es = tlv [0x30] e \<and> concat us = tlv [0x30] u \<and>
           concat bs = tlv [0x30] (concat ms @ tlv [0x5F, 0x37] (cn_signature n) @ concat es @ concat us) \<and>
           length m \<le> 0xFFFFFFFF \<and> length e \<le> 0xFFFFFFFF \<and> length u \<le> 0xFFFFFFFF \<and>
           length (concat ms @ tlv [0x5F, 0x37] (cn_signature n) @ concat es @ concat us) \<le> 0xFFFFFFFF))"

definition card_laws :: "'a asn1c \<Rightarrow> 'a card_codec \<Rightarrow> bool" where
  "card_laws A K \<longleftrightarrow> message_laws A K \<and> report_laws A K"

lemma report_result_law:
  assumes "report_laws A K" "metadata_der K (cd_metadata d)" "final_der K (cd_finalResult d)"
    "c_enc_result_data K d = Some ds" "c_enc_result K d sig = Some bs"
  shows "a_dec_installation_result A (concat bs) = Some (result_view d sig) \<and>
        (\<exists>v. concat ds = tlv [0xBF, 0x27] v \<and> concat bs = tlv [0xBF, 0x37] (concat ds @ tlv [0x5F, 0x37] sig) \<and>
           length v \<le> 0xFFFFFFFF \<and> length (concat ds @ tlv [0x5F, 0x37] sig) \<le> 0xFFFFFFFF)"
  using assms unfolding report_laws_def by blast

lemma report_other_law:
  assumes "report_laws A K" "metadata_der K (cn_tbs n)" "c_enc_metadata K (cn_tbs n) = Some ms"
    "a_enc_certificate A (cn_euiccCertificate n) = Some es" "a_enc_certificate A (cn_eumCertificate n) = Some us"
    "c_enc_notification K n = Some bs"
  shows "a_dec_other_notification A (concat bs) = Some \<lparr>osn_tbs = meta_view (cn_tbs n), osn_signature = cn_signature n\<rparr>"
    "\<exists>m e u. concat ms = tlv [0xBF, 0x2F] m \<and> concat es = tlv [0x30] e \<and> concat us = tlv [0x30] u \<and>
           concat bs = tlv [0x30] (concat ms @ tlv [0x5F, 0x37] (cn_signature n) @ concat es @ concat us) \<and>
           length m \<le> 0xFFFFFFFF \<and> length e \<le> 0xFFFFFFFF \<and> length u \<le> 0xFFFFFFFF \<and>
           length (concat ms @ tlv [0x5F, 0x37] (cn_signature n) @ concat es @ concat us) \<le> 0xFFFFFFFF"
  using assms unfolding report_laws_def by blast+

section \<open>The material\<close>

text \<open>The two certificates decode and are DER, they chain to the test CI, the eUICC's carries the test
  EID and the public half of \<open>EUICC_TEST_SK\<close> on P-256.\<close>

definition card_material ::
  "('c, 'g, 'p, 'k) mbedtls \<Rightarrow> 'a asn1c \<Rightarrow> sgp26 \<Rightarrow> bytes \<Rightarrow> bytes \<Rightarrow> bool" where
  "card_material M A S ec mc \<longleftrightarrow> ec \<noteq> [] \<and>
     (\<forall>der \<in> {ec, mc}. \<exists>c. a_dec_certificate A der = Some c \<and> map_option concat (a_enc_certificate A c) = Some der) \<and>
     chain_good M S mc ec \<and>
     (\<exists>crt. ext_cert M ec = Some crt \<and> extract_eid M (m_crt_subject M crt) 32 = Some EUICC_TEST_EID) \<and>
     (\<exists>crt q. m_crt_parse M (rsp_accept_certificate_policies M) ec = Some crt \<and> m_crt_is_ec M crt \<and>
        m_crt_ec M crt = Some (m_p256 M, q) \<and> m_mul_g M (m_p256 M) (m_mpi_read M EUICC_TEST_SK) = Some q)"

lemma card_signature:
  assumes "ecdsa_laws M" "card_material M A S ec mc" "sign_value M EUICC_TEST_SK tbs = Some sig"
  shows "signature_good M ec tbs sig" "length sig = 64"
proof -
  from assms(3) obtain r s r32 s32 where
    s: "m_sign_det M (m_p256 M) (m_mpi_read M EUICC_TEST_SK) (m_sha256 M tbs) = Some (r, s)"
    "m_mpi_write M r 32 = Some r32" "m_mpi_write M s 32 = Some s32" "sig = r32 @ s32"
    by (auto simp: sign_value_def bind_eq_Some_conv)
  from s assms(1) have l: "length r32 = 32" "length s32 = 32" "m_mpi_read M r32 = r" "m_mpi_read M s32 = s"
    by (auto simp: ecdsa_laws_def)
  from assms(2) obtain crt q where
    c: "m_crt_parse M (rsp_accept_certificate_policies M) ec = Some crt" "m_crt_is_ec M crt"
    "m_crt_ec M crt = Some (m_p256 M, q)" "m_mul_g M (m_p256 M) (m_mpi_read M EUICC_TEST_SK) = Some q" "ec \<noteq> []"
    by (auto simp: card_material_def)
  from assms(1) c(4) s(1) have "m_verify M (m_p256 M) (m_sha256 M tbs) q r s"
    unfolding ecdsa_laws_def by blast
  with c s(4) l show "signature_good M ec tbs sig" by (simp add: signature_good_def)
  show "length sig = 64" by (rule sign_value_length [OF assms(1,3)])
qed

lemma card_certificates:
  assumes "card_material M A S ec mc"
  obtains c bs m ms where "a_dec_certificate A ec = Some c" "a_enc_certificate A c = Some bs" "concat bs = ec"
    "a_dec_certificate A mc = Some m" "a_enc_certificate A m = Some ms" "concat ms = mc"
  using assms by (auto simp: card_material_def)

section \<open>The answers\<close>

lemma card_auth_checked:
  assumes M: "ecdsa_laws M" "card_material M A S ec mc" and r: "card_auth_of M A K (ss_transaction_id s) (ss_server_challenge s) ec mc = Some rok"
  shows "auth_checked M A S s rok ec EUICC_TEST_EID"
proof -
  obtain c bs m ms where d: "a_dec_certificate A ec = Some c" "a_enc_certificate A c = Some bs" "concat bs = ec"
    "a_dec_certificate A mc = Some m" "a_enc_certificate A m = Some ms" "concat ms = mc"
    by (rule card_certificates [OF M(2)])
  from r d obtain tbs es sig where
    t: "a_enc_euicc_signed1 A (card_es1 K (ss_transaction_id s) (ss_server_challenge s)) = Some es" "concat es = tbs"
      "sign_value M EUICC_TEST_SK tbs = Some sig"
      "rok = \<lparr>ar_euiccSigned1 = card_es1 K (ss_transaction_id s) (ss_server_challenge s), ar_euiccSignature1 = sig,
        ar_euiccCertificate = c, ar_eumCertificate = m\<rparr>"
    by (auto simp: card_auth_of_def bind_eq_Some_conv fits_def split: if_splits)
  note sg = card_signature [OF M t(3)]
  from M(2) obtain crt where "ext_cert M ec = Some crt" "extract_eid M (m_crt_subject M crt) 32 = Some EUICC_TEST_EID"
    "chain_good M S mc ec" by (auto simp: card_material_def)
  with d t sg show ?thesis
    by (simp add: auth_checked_def) (simp add: card_es1_def)
qed

lemma card_auth_info:
  "card_auth_of M A K tid chal ec mc = Some rok \<Longrightarrow>
     es1_euiccInfo2 (ar_euiccSigned1 rok) = c_info2 K card_info2 \<and> es1_ctxParams1 (ar_euiccSigned1 rok) = c_ctx_params1 K [0, 0, 0, 0]"
  by (auto simp: card_auth_of_def card_es1_def bind_eq_Some_conv)

lemma card_download_checked:
  assumes M: "ecdsa_laws M" "card_material M A S ec mc" and s: "ss_euicc_cert s = Owned ec" "length (ss_smdp_signature2 s) = 64"
    and r: "card_download_of M A (ss_transaction_id s) otpk (ss_smdp_signature2 s) = Some rok" "length otpk = 65"
  shows "download_checked M A s rok"
proof -
  let ?es2 = "\<lparr>es2_transactionId = ss_transaction_id s, es2_euiccOtpk = otpk, es2_hashCc = None\<rparr>"
  from r(1) obtain es sig where
    t: "a_enc_euicc_signed2 A ?es2 = Some es" "sign_value M EUICC_TEST_SK (concat es @ [0x5F, 0x37, 64] @ ss_smdp_signature2 s) = Some sig"
      "rok = \<lparr>pd_euiccSigned2 = ?es2, pd_euiccSignature2 = sig\<rparr>"
    by (auto simp: card_download_of_def Let_def bind_eq_Some_conv fits_def split: if_splits)
  from card_signature [OF M t(2)] t s r(2) show ?thesis
    by (simp add: download_checked_def tlv_sig)
qed

section \<open>The reports\<close>

lemma card_event:
  assumes "i \<le> 3" "unused \<in> {0, 4}"
  shows "byte_loop [drop_bit i 0x80] (length [drop_bit i (0x80 :: u8)]) unused 0 (-1) = int i"
proof -
  have e: "event_bits [0x80] 0 = [0]" "event_bits [0x40] 0 = [1]" "event_bits [0x20] 0 = [2]" "event_bits [0x10] 0 = [3]"
    "event_bits [0x80] 4 = [0]" "event_bits [0x40] 4 = [1]" "event_bits [0x20] 4 = [2]" "event_bits [0x10] 4 = [3]"
    by (simp_all add: event_bits_def upt_rec)
  from assms(1) have "i = 0 \<or> i = 1 \<or> i = 2 \<or> i = 3" by linarith
  moreover from assms(2) have u: "unused = 0 \<or> unused = 4" by simp
  ultimately have "event_bits [drop_bit i 0x80] unused = [i]"
    using e by (elim disjE) simp_all
  with u show ?thesis using operation_spec [of unused "[drop_bit i 0x80]"] by (elim disjE) simp_all
qed

lemma card_report_parts:
  assumes "card_report_of M K tid success = Some (d, sig)"
  obtains seq oid ds where "c_long2integer K 1 = Some seq" "cd_transactionId d = tid" "metadata_der K (cd_metadata d)"
    "final_der K (cd_finalResult d)" "c_enc_result_data K d = Some ds" "sign_value M EUICC_TEST_SK (concat ds) = Some sig"
    "meta_view (cd_metadata d) = \<lparr>nm_seqNumber = seq, nm_operation = [0x80], nm_bits_unused = 0, nm_iccid = Some PIR_ICCID\<rparr>"
    "if success then final_view (cd_finalResult d) = SuccessResult
     else \<exists>c r. c_long2integer K 5 = Some c \<and> c_long2integer K 12 = Some r \<and> final_view (cd_finalResult d) = ErrorResult c r"
proof -
  from assms obtain seq oid final ds where
    r: "c_long2integer K 1 = Some seq" "c_oid K [2, 999] = Some oid"
      "(if success then Some (CardSuccess PIR_AID [0x30, 0x00])
        else Option.bind (c_long2integer K 5) (\<lambda>c. map_option (CardError c) (c_long2integer K 12))) = Some final"
      "d = \<lparr>cd_transactionId = tid, cd_metadata = \<lparr>nm_seqNumber = seq, nm_operation = [0x80], nm_bits_unused = 0,
             nm_iccid = Some PIR_ICCID, nm_notificationAddress = SMDP_ADDR\<rparr>, cd_smdpOid = oid, cd_finalResult = final\<rparr>"
      "c_enc_result_data K d = Some ds" "sign_value M EUICC_TEST_SK (concat ds) = Some sig"
    by (auto simp: card_report_of_def card_result_of_def bind_eq_Some_conv fits_def split: if_splits)
  show ?thesis
    by (rule that [OF r(1) _ _ _ r(5,6)])
      (use r(1,3,4) in \<open>auto simp: metadata_der_def meta_view_def bind_eq_Some_conv split: if_splits\<close>)
qed

lemma fits_Some: "fits cap b = Some x \<Longrightarrow> \<exists>bs. b = Some bs \<and> concat bs = x"
  by (auto simp: fits_def bind_eq_Some_conv split: if_splits)

lemma card_report_octets:
  assumes L: "card_laws A K" and r: "card_report_of M K tid success = Some (d, sig)" "fits cap (c_enc_result K d sig) = Some pn"
  obtains v ds where "c_enc_result_data K d = Some ds" "concat ds = tlv [0xBF, 0x27] v"
    "pn = tlv [0xBF, 0x37] (tlv [0xBF, 0x27] v @ tlv [0x5F, 0x37] sig)" "length v \<le> 0xFFFFFFFF"
    "length (tlv [0xBF, 0x27] v @ tlv [0x5F, 0x37] sig) \<le> 0xFFFFFFFF"
    "a_dec_installation_result A pn = Some (result_view d sig)"
proof -
  obtain ds where d: "c_enc_result_data K d = Some ds" "metadata_der K (cd_metadata d)" "final_der K (cd_finalResult d)"
    by (rule card_report_parts [OF r(1)])
  from fits_Some [OF r(2)] obtain bs where b: "c_enc_result K d sig = Some bs" "concat bs = pn" by blast
  from L have "report_laws A K" by (simp add: card_laws_def)
  from report_result_law [OF this d(2,3,1) b(1)] obtain v where
    "concat ds = tlv [0xBF, 0x27] v" "pn = tlv [0xBF, 0x37] (tlv [0xBF, 0x27] v @ tlv [0x5F, 0x37] sig)"
    "length v \<le> 0xFFFFFFFF" "length (tlv [0xBF, 0x27] v @ tlv [0x5F, 0x37] sig) \<le> 0xFFFFFFFF"
    "a_dec_installation_result A pn = Some (result_view d sig)"
    unfolding b(2) by auto
  from that [OF d(1) this] show ?thesis .
qed

lemma card_report_genuine:
  assumes L: "card_laws A K" "ber_laws A" and M: "ecdsa_laws M" "card_material M A S ec mc"
    and r: "card_report_of M K tid success = Some (d, sig)" "fits cap (c_enc_result K d sig) = Some pn"
  shows "pir_genuine M A ec pn (result_view d sig)"
proof -
  obtain v ds where o: "c_enc_result_data K d = Some ds" "concat ds = tlv [0xBF, 0x27] v"
    "pn = tlv [0xBF, 0x37] (tlv [0xBF, 0x27] v @ tlv [0x5F, 0x37] sig)" "length v \<le> 0xFFFFFFFF"
    "length (tlv [0xBF, 0x27] v @ tlv [0x5F, 0x37] sig) \<le> 0xFFFFFFFF"
    by (rule card_report_octets [OF L(1) r])
  have "pir_signed A pn = Some (tlv [0xBF, 0x27] v)"
    unfolding o(3) by (rule pir_data_ok(2) [where w = "\<lparr>faults = [], loc = ()\<rparr>", OF L(2) _ o(4,5)]) simp
  moreover have "sign_value M EUICC_TEST_SK (tlv [0xBF, 0x27] v) = Some sig"
    using card_report_parts [OF r(1)] o(1,2) by (metis option.inject)
  ultimately show ?thesis
    using card_signature [OF M] by (simp add: pir_genuine_def result_view_def)
qed

definition card_notification_value :: "bool \<Rightarrow> rsp_notification" where
  "card_notification_value success = \<lparr>rn_is_installation_result = 1, rn_seq_number = 1, rn_operation = 0,
     rn_have_iccid = 1, rn_iccid = PIR_ICCID, rn_installed = (if success then 1 else 0)\<rparr>"

definition card_other_value :: "int \<Rightarrow> nat \<Rightarrow> rsp_notification" where
  "card_other_value seq op = \<lparr>rn_is_installation_result = 0, rn_seq_number = seq, rn_operation = int op,
     rn_have_iccid = 0, rn_iccid = replicate 10 0, rn_installed = 0\<rparr>"

lemma card_report_accepted:
  assumes L: "card_laws A K" "ber_laws A" and M: "ecdsa_laws M" "card_material M A S ec mc"
    and r: "card_report_of M K tid success = Some (d, sig)" "fits cap (c_enc_result K d sig) = Some pn"
    and f: "faults w = []"
  shows "rsp_dp_verify_notification M A S (Buf ec) (Buf pn) True w = (Inr (), w\<lparr>loc := card_notification_value success\<rparr>)"
proof -
  obtain v ds where o: "pn = tlv [0xBF, 0x37] (tlv [0xBF, 0x27] v @ tlv [0x5F, 0x37] sig)" "length v \<le> 0xFFFFFFFF"
    "length (tlv [0xBF, 0x27] v @ tlv [0x5F, 0x37] sig) \<le> 0xFFFFFFFF"
    "a_dec_installation_result A pn = Some (result_view d sig)"
    by (rule card_report_octets [OF L(1) r])
  obtain seq where d: "c_long2integer K 1 = Some seq"
    "meta_view (cd_metadata d) = \<lparr>nm_seqNumber = seq, nm_operation = [0x80], nm_bits_unused = 0, nm_iccid = Some PIR_ICCID\<rparr>"
    "(final_view (cd_finalResult d) = SuccessResult) = success"
    by (rule card_report_parts [OF r(1)]) (metis final_result.distinct(1))
  have t: "2 \<le> length pn" "take 2 pn = [0xBF, 0x37]" by (simp_all add: o(1) tlv_def numeral_2_eq_2)
  have i: "a_integer2long A seq = Some 1" using L(1) d(1) by (simp add: card_laws_def message_laws_def)
  have "byte_loop [0x80] 1 0 0 (-1) = 0" using card_event [of 0 0] by simp
  with i have m: "meta_of A (pir_metadata (result_view d sig)) =
      Some (card_notification_value success \<lparr>rn_is_installation_result := 0, rn_installed := 0\<rparr>)"
    by (simp add: result_view_def d(2) meta_of_def clear_notification_def card_notification_value_def PIR_ICCID_def)
  have "installation_genuine M A (Buf ec) pn (card_notification_value success)"
    using card_report_genuine [OF L M r] t(2) d(3)
    by (simp add: installation_genuine_def o(4) m) (simp add: result_view_def card_notification_value_def)
  from installation_notification_ok [OF L(2) _ _ o(2,3,1) this, of "w\<lparr>loc := clear_notification\<rparr>"] f
  show ?thesis
    using notification_arms [OF t(1), of "w\<lparr>loc := clear_notification\<rparr>" w M A S "Buf ec"] t(2) by simp
qed

lemma card_result_accepted:
  assumes L: "card_laws A K" "ber_laws A" and M: "ecdsa_laws M" "card_material M A S ec mc"
    and r: "card_report_of M K (ss_transaction_id s) success = Some (d, sig)" "fits cap (c_enc_result K d sig) = Some pn"
    and s: "session_ok s" "ss_authenticated s" "ss_euicc_cert s = Owned ec" and f: "faults w = []"
  shows "rsp_dp_verify_installation_result M A (Some s) (Buf pn) True w = (Inr (), w\<lparr>loc :=
    (if success then (loc w)\<lparr>po_installed := 1\<rparr>
     else (loc w)\<lparr>po_installed := 0, po_command := map_option (\<lambda>_. 5) (po_command (loc w)),
                  po_reason := map_option (\<lambda>_. 12) (po_reason (loc w))\<rparr>)\<rparr>)"
proof -
  obtain v ds where o: "pn = tlv [0xBF, 0x37] (tlv [0xBF, 0x27] v @ tlv [0x5F, 0x37] sig)" "length v \<le> 0xFFFFFFFF"
    "length (tlv [0xBF, 0x27] v @ tlv [0x5F, 0x37] sig) \<le> 0xFFFFFFFF"
    "a_dec_installation_result A pn = Some (result_view d sig)"
    by (rule card_report_octets [OF L(1) r])
  have t: "pir_transactionId (result_view d sig) = ss_transaction_id s"
    by (rule card_report_parts [OF r(1)]) (simp add: result_view_def)
  have v: "if success then final_view (cd_finalResult d) = SuccessResult
     else \<exists>c r. c_long2integer K 5 = Some c \<and> c_long2integer K 12 = Some r \<and> final_view (cd_finalResult d) = ErrorResult c r"
    by (rule card_report_parts [OF r(1)])
  have n: "pir_finalResult (result_view d sig) \<noteq> NoResult"
    using v by (auto simp: result_view_def split: if_splits)
  have i: "c_long2integer K i = Some b \<Longrightarrow> a_integer2long A b = Some i" for i b
    using L(1) by (simp add: card_laws_def message_laws_def)
  have p: "pir_report A (pir_finalResult (result_view d sig)) (loc w) =
    (if success then (loc w)\<lparr>po_installed := 1\<rparr>
     else (loc w)\<lparr>po_installed := 0, po_command := map_option (\<lambda>_. 5) (po_command (loc w)),
                  po_reason := map_option (\<lambda>_. 12) (po_reason (loc w))\<rparr>)"
    using v i by (auto simp: result_view_def pir_report_def store_long_def split: if_splits option.split)
  from installation_result_ok [OF L(2) f s o(2,3,1,4) t card_report_genuine [OF L M r] n] show ?thesis
    unfolding p .
qed

lemma card_other_parts:
  assumes "card_other_of M A K seq op ec mc = Some n" "op \<le> 3"
  obtains sq ms c m where "c_long2integer K seq = Some sq" "a_dec_certificate A ec = Some c" "a_dec_certificate A mc = Some m"
    "c_enc_metadata K (cn_tbs n) = Some ms" "sign_value M EUICC_TEST_SK (concat ms) = Some (cn_signature n)"
    "cn_euiccCertificate n = c" "cn_eumCertificate n = m" "metadata_der K (cn_tbs n)"
    "meta_view (cn_tbs n) = \<lparr>nm_seqNumber = sq, nm_operation = [drop_bit op 0x80], nm_bits_unused = 4, nm_iccid = None\<rparr>"
proof -
  from assms(1) obtain sq ms c m sig where
    r: "c_long2integer K seq = Some sq" "a_dec_certificate A ec = Some c" "a_dec_certificate A mc = Some m"
      "n = \<lparr>cn_tbs = \<lparr>nm_seqNumber = sq, nm_operation = [drop_bit op 0x80], nm_bits_unused = 4, nm_iccid = None,
                nm_notificationAddress = SMDP_ADDR\<rparr>, cn_signature = sig, cn_euiccCertificate = c, cn_eumCertificate = m\<rparr>"
      "c_enc_metadata K (cn_tbs n) = Some ms" "sign_value M EUICC_TEST_SK (concat ms) = Some sig"
    by (auto simp: card_other_of_def Let_def bind_eq_Some_conv fits_def split: if_splits)
  from assms(2) have "op = 0 \<or> op = 1 \<or> op = 2 \<or> op = 3" by linarith
  then have "take_bit 4 (drop_bit op 0x80 :: u8) = 0" by (elim disjE) simp_all
  then have "metadata_der K (cn_tbs n)" using r(1) by (auto simp: metadata_der_def r(4))
  from that [OF r(1-3,5) _ _ _ this] r(6) show ?thesis by (simp add: r(4) meta_view_def)
qed

lemma card_other_accepted:
  assumes L: "card_laws A K" "ber_laws A" and M: "ecdsa_laws M" "card_material M A S ec mc"
    and r: "card_other_of M A K seq op ec mc = Some n" "op \<le> 3" "fits cap (c_enc_notification K n) = Some osn"
    and c: "cdata cert \<noteq> [] \<longrightarrow> cdata cert = ec" and f: "faults w = []"
  shows "rsp_dp_verify_notification M A S cert (Buf osn) True w = (Inr (), w\<lparr>loc := card_other_value seq op\<rparr>)"
proof -
  obtain sq ms ce cm where p: "c_long2integer K seq = Some sq" "a_dec_certificate A ec = Some ce" "a_dec_certificate A mc = Some cm"
    "c_enc_metadata K (cn_tbs n) = Some ms" "sign_value M EUICC_TEST_SK (concat ms) = Some (cn_signature n)"
    "cn_euiccCertificate n = ce" "cn_eumCertificate n = cm" "metadata_der K (cn_tbs n)"
    "meta_view (cn_tbs n) = \<lparr>nm_seqNumber = sq, nm_operation = [drop_bit op 0x80], nm_bits_unused = 4, nm_iccid = None\<rparr>"
    by (rule card_other_parts [OF r(1,2)])
  obtain es us where d: "a_enc_certificate A ce = Some es" "concat es = ec" "a_enc_certificate A cm = Some us" "concat us = mc"
    by (rule card_certificates [OF M(2)]) (use p(2,3) in auto)
  from fits_Some [OF r(3)] obtain bs where b: "c_enc_notification K n = Some bs" "concat bs = osn" by blast
  from L(1) have rl: "report_laws A K" by (simp add: card_laws_def)
  note law = report_other_law [OF rl p(8,4) d(1,3) [folded p(6,7)] b(1), unfolded b(2) d(2,4) p(9)]
  from law(2) obtain m e u where o: "concat ms = tlv [0xBF, 0x2F] m" "ec = tlv [0x30] e" "mc = tlv [0x30] u"
    "osn = tlv [0x30] (concat ms @ tlv [0x5F, 0x37] (cn_signature n) @ ec @ mc)" "length m \<le> 0xFFFFFFFF"
    "length e \<le> 0xFFFFFFFF" "length u \<le> 0xFFFFFFFF"
    "length (concat ms @ tlv [0x5F, 0x37] (cn_signature n) @ ec @ mc) \<le> 0xFFFFFFFF" by blast
  note sg = card_signature [OF M p(5)]
  define v where "v = w\<lparr>loc := clear_notification\<rparr>"
  have v: "faults v = []" "loc v = clear_notification" using f by (simp_all add: v_def)
  have members: "osn_members A osn v = (Inr (concat ms, ec, mc), v)"
    unfolding o(4) o(1-3)
    by (rule osn_members_ok [OF L(2) o(5) _ o(6,7) o(8) [unfolded o(1-3)] _ _ _ _ refl])
      (use sg(2) in \<open>simp_all add: tag_class_num_def\<close>)
  with wp_Inr [OF osn_members_wp [OF L(2)] members] obtain sgt where
    parts: "osn_parts A osn = Some [concat ms, sgt, ec, mc]" by auto
  have i: "a_integer2long A sq = Some seq" using L(1) p(1) by (simp add: card_laws_def message_laws_def)
  have "byte_loop [drop_bit op 0x80] (length [drop_bit op (0x80 :: u8)]) 4 0 (-1) = int op"
    by (rule card_event [OF r(2)]) simp
  with i have m: "meta_of A (meta_view (cn_tbs n)) = Some (card_other_value seq op)"
    by (simp add: p(9) meta_of_def clear_notification_def card_other_value_def)
  have "chain_good M S mc ec" using M(2) by (simp add: card_material_def)
  then have g: "other_genuine M A S cert osn (card_other_value seq op)"
    using parts law(1) sg c m by (simp add: other_genuine_def p(9))
  have t: "2 \<le> length osn" "hd osn = 0x30" by (simp_all add: o(4) tlv_def)
  have h: "hd osn AND 0x1F = 0x10" "take 2 osn \<noteq> [0xBF, 0x37]"
    using t(2) by (simp, cases osn) auto
  show ?thesis
    using other_notification_ok [OF L(2) v members parts g] t h
      notification_arms [OF t(1), of v w M A S cert] by (simp add: v_def)
qed

text \<open>A whole run of the fixture: what it builds is accepted, and says what it was asked to say.\<close>

lemma built_report_accepted:
  assumes L: "card_laws A K" "ber_laws A" and M: "ecdsa_laws M" "card_material M A S ec mc"
    and b: "build_installation_result M K tid success cap w = (Inr pn, w')" and f: "faults v = []"
  shows "rsp_dp_verify_notification M A S (Buf ec) (Buf pn) True v = (Inr (), v\<lparr>loc := card_notification_value success\<rparr>)"
proof -
  from computesD(1) [OF build_result_computes b] obtain d sig where
    "card_report_of M K tid success = Some (d, sig)" "fits cap (c_enc_result K d sig) = Some pn"
    by (auto simp: bind_eq_Some_conv)
  from card_report_accepted [OF L M this f] show ?thesis .
qed

lemma built_other_accepted:
  assumes L: "card_laws A K" "ber_laws A" and M: "ecdsa_laws M" "card_material M A S ec mc"
    and b: "build_other_notification M A K seq op ec mc cap w = (Inr osn, w')" "op \<le> 3" and f: "faults v = []"
    and c: "cdata cert \<noteq> [] \<longrightarrow> cdata cert = ec"
  shows "rsp_dp_verify_notification M A S cert (Buf osn) True v = (Inr (), v\<lparr>loc := card_other_value seq op\<rparr>)"
proof -
  from computesD(1) [OF build_other_computes b(1)] obtain n where
    n: "card_other_of M A K seq op ec mc = Some n" "fits cap (c_enc_notification K n) = Some osn"
    by (auto simp: bind_eq_Some_conv)
  from card_other_accepted [OF L M n(1) b(2) n(2) c f] show ?thesis .
qed

end
