(* ===== verification/Replay.thy ===== *)
theory Replay
  imports Card Answers Protocol
begin

text \<open>
  \<open>tools/session-fixtures.c\<close>: one whole RSP session between the library and the test eUICC, written
  to files. The \<open>loc\<close> part of the state is the file system as the program sees it: a file is absent,
  complete with its octets, or opened by the program and not known to be complete. \<open>exit(1)\<close> is a
  stop with -1, which \<open>main\<close> turns into the exit status. The certificates \<open>rsp_sgp26_euicc_der\<close> and
  \<open>rsp_sgp26_eum_der\<close> are generated, hence parameters; a path is shorter than \<open>INT_MAX\<close>, the range of
  the length \<open>snprintf\<close> returns.
\<close>

type_synonym files = "bytes \<Rightarrow> bytes option option"

definition TRANSACTION_ID :: bytes where
  "TRANSACTION_ID = [
     0x01, 0x02, 0x03, 0x04, 0x05, 0x06, 0x07, 0x08,
     0x09, 0x0a, 0x0b, 0x0c, 0x0d, 0x0e, 0x0f, 0x10]"

definition EUICC_CHALLENGE :: bytes where
  "EUICC_CHALLENGE = [
     0xaa, 0xbb, 0xcc, 0xdd, 0xee, 0xff, 0x00, 0x11,
     0x22, 0x33, 0x44, 0x55, 0x66, 0x77, 0x88, 0x99]"

definition SERVER_CHALLENGE :: bytes where
  "SERVER_CHALLENGE = [
     0xf0, 0xe1, 0xd2, 0xc3, 0xb4, 0xa5, 0x96, 0x87,
     0x78, 0x69, 0x5a, 0x4b, 0x3c, 0x2d, 0x1e, 0x0f]"

definition OTSK_DP :: bytes where
  "OTSK_DP = [
     0x01, 0x02, 0x03, 0x04, 0x05, 0x06, 0x07, 0x08,
     0x09, 0x0a, 0x0b, 0x0c, 0x0d, 0x0e, 0x0f, 0x10,
     0x11, 0x12, 0x13, 0x14, 0x15, 0x16, 0x17, 0x18,
     0x19, 0x1a, 0x1b, 0x1c, 0x1d, 0x1e, 0x1f, 0x20]"

definition ICCID :: bytes where
  "ICCID = [0x98, 0x00, 0x10, 0x32, 0x54, 0x76, 0x98, 0x10, 0x32, 0x14]"

definition EUICC_OTPK :: bytes where
  "EUICC_OTPK = [
     0x04,
     0xa6, 0x1b, 0x58, 0x52, 0xfe, 0xde, 0xec, 0xd5,
     0x37, 0x3d, 0x76, 0x9a, 0xf0, 0xed, 0xbc, 0x94,
     0x50, 0x22, 0x76, 0xd9, 0xc6, 0xff, 0x1d, 0xa3,
     0xa1, 0x56, 0xfe, 0xcf, 0x31, 0xc6, 0x62, 0x99,
     0x54, 0xae, 0xa6, 0x28, 0x62, 0xe2, 0x27, 0xae,
     0xba, 0xf7, 0x45, 0xc4, 0xe1, 0xd5, 0xf1, 0xbc,
     0xbb, 0xa6, 0x13, 0x64, 0x00, 0xd9, 0xf0, 0xa6,
     0x34, 0x34, 0x22, 0x5f, 0xee, 0x25, 0x90, 0xae]"

definition UPP :: bytes where "UPP = c_string ''the-uicc-profile-fixture''"

definition SMDP_ADDRESS :: bytes where "SMDP_ADDRESS = c_string ''smdp.example.com''"

section \<open>Writing a file\<close>

definition file_path :: "bytes \<Rightarrow> string \<Rightarrow> bytes" where
  "file_path g_dir name = g_dir @ [0x2F] @ c_string name"

text \<open>Opening a file for writing truncates it; closing it without error completes it.\<close>

definition set_file :: "bytes \<Rightarrow> bytes option \<Rightarrow> files \<Rightarrow> files" where
  "set_file path content fs = fs(path \<mapsto> content)"

lemma set_file_twice [simp]: "set_file p a (set_file p b fs) = set_file p a fs"
  by (simp add: set_file_def)

definition put :: "bytes \<Rightarrow> string \<Rightarrow> bytes \<Rightarrow> (files, unit) cm" where
  "put g_dir name buf =
    (let path = file_path g_dir name in
     bnd (ensure (\<not> length path \<ge> 1024) Minus1) (\<lambda>_.
     bnd (ext Minus1 (Some ())) (\<lambda>_.
     bnd (modify (set_file path None)) (\<lambda>_.
     bnd (if length buf \<noteq> 0 then ext Minus1 (Some ()) else ret ()) (\<lambda>_.
     bnd (ext Minus1 (Some ())) (\<lambda>_.
     modify (set_file path (Some buf))))))))"

fun put_all :: "bytes \<Rightarrow> (string \<times> bytes) list \<Rightarrow> (files, unit) cm" where
  "put_all g_dir [] = ret ()"
| "put_all g_dir ((name, buf) # rest) = bnd (put g_dir name buf) (\<lambda>_. put_all g_dir rest)"

section \<open>The session\<close>

record replay =
  rp_info1 :: bytes
  rp_asr :: bytes
  rp_md :: bytes
  rp_pdr :: bytes
  rp_init_resp :: cbuf
  rp_ac_resp :: cbuf
  rp_bpp :: cbuf
  rp_session :: "rsp_dp_session option"

text \<open>\<open>main\<close> up to the first file, with the eUICC's two certificates.\<close>

definition replay_session ::
  "('c, 'g, 'p, 'k) mbedtls \<Rightarrow> 'a asn1c \<Rightarrow> 'a card_codec \<Rightarrow> sgp26 \<Rightarrow> rsp_dp_session \<Rightarrow> bytes \<Rightarrow> bytes \<Rightarrow> ('x, replay) cm" where
  "replay_session M A K S junk euicc_der eum_der =
     bnd (build_euicc_info1 K 512) (\<lambda>info1.
     bnd (recode Minus1 (nested \<lparr>io_session = None, io_resp = Null 0\<rparr>
            (rsp_dp_initiate_authentication M A S junk (Buf EUICC_CHALLENGE) (Buf info1) (Some TRANSACTION_ID)
               (Some SERVER_CHALLENGE) (Some SMDP_ADDRESS) (Some SMDP_ADDRESS) True))) (\<lambda>(_, io).
     bnd (build_auth_server_response M A K TRANSACTION_ID SERVER_CHALLENGE euicc_der eum_der 4096) (\<lambda>asr.
     bnd (build_store_metadata K ICCID (c_string ''euicc-rsp test profile'') (c_string ''euicc-rsp'') 512) (\<lambda>md.
     bnd (recode Minus1 (nested \<lparr>ao_session = io_session io, ao_out = Null 0\<rparr>
            (rsp_dp_authenticate_client M A S (Buf asr) (Buf md) True))) (\<lambda>(_, ao).
     bnd (recode Minus1 (rsp_dp_authenticate_fields (ao_out ao) True)) (\<lambda>f.
     bnd (ensure (\<not> snd (field4 f) \<noteq> 67) Minus1) (\<lambda>_.
     bnd (rd_block (cdata (ao_out ao)) (fst (field4 f) + 3) 64) (\<lambda>smdp_sig2.
     bnd (build_prepare_download_response M A K TRANSACTION_ID EUICC_OTPK smdp_sig2 512) (\<lambda>pdr.
     bnd (recode Minus1 (nested \<lparr>do_session = ao_session ao, do_bpp = Null 0\<rparr>
            (rsp_dp_get_bound_profile_package M A S (Buf pdr) (Buf UPP) (Some OTSK_DP) True))) (\<lambda>(_, dl).
     ret \<lparr>rp_info1 = info1, rp_asr = asr, rp_md = md, rp_pdr = pdr, rp_init_resp = io_resp io,
          rp_ac_resp = ao_out ao, rp_bpp = do_bpp dl, rp_session = do_session dl\<rparr>))))))))))"

definition replay_inputs :: "replay \<Rightarrow> (string \<times> bytes) list" where
  "replay_inputs r = [
     (''euicc-challenge.bin'', EUICC_CHALLENGE),
     (''transaction-id.bin'', TRANSACTION_ID),
     (''server-challenge.bin'', SERVER_CHALLENGE),
     (''otsk-dp.bin'', OTSK_DP),
     (''euicc-info1.der'', rp_info1 r),
     (''auth-server-response.der'', rp_asr r),
     (''store-metadata.der'', rp_md r),
     (''prepare-download-response.der'', rp_pdr r),
     (''upp.der'', UPP)]"

definition replay_outputs :: "replay \<Rightarrow> (string \<times> bytes) list" where
  "replay_outputs r = [
     (''initiate-response.der'', cdata (rp_init_resp r)),
     (''authenticate-response.der'', cdata (rp_ac_resp r)),
     (''bound-profile-package.der'', cdata (rp_bpp r))]"

text \<open>The rest of \<open>main\<close>.\<close>

definition replay_write ::
  "('c, 'g, 'p, 'k) mbedtls \<Rightarrow> 'a card_codec \<Rightarrow> bytes \<Rightarrow> replay \<Rightarrow> (files, unit) cm" where
  "replay_write M K g_dir r =
     bnd (put_all g_dir (replay_inputs r)) (\<lambda>_.
     bnd (build_installation_result M K TRANSACTION_ID True 1024) (\<lambda>pn.
     bnd (put g_dir ''pending-notification.der'' pn) (\<lambda>_.
     bnd (put_all g_dir (replay_outputs r)) (\<lambda>_.
     bnd (rsp_dp_session_free (rp_session r)) (\<lambda>_.
     ret ())))))"

definition session_fixtures_main ::
  "('c, 'g, 'p, 'k) mbedtls \<Rightarrow> 'a asn1c \<Rightarrow> 'a card_codec \<Rightarrow> sgp26 \<Rightarrow> rsp_dp_session \<Rightarrow> bytes \<Rightarrow> bytes \<Rightarrow>
   bytes list \<Rightarrow> (files, nat) cm" where
  "session_fixtures_main M A K S junk euicc_der eum_der argv =
     (if length argv \<noteq> 2 then ret 2
      else bnd (attempt (bnd (replay_session M A K S junk euicc_der eum_der) (replay_write M K (argv ! 1)))) (\<lambda>r.
           ret (case r of Some _ \<Rightarrow> 0 | None \<Rightarrow> 1)))"

section \<open>The octets of a session\<close>

definition fixture_metadata :: store_metadata where
  "fixture_metadata = \<lparr>sm_iccid = ICCID, sm_serviceProviderName = c_string ''euicc-rsp'',
     sm_profileName = c_string ''euicc-rsp test profile'', sm_others = []\<rparr>"

definition fixture_s1 :: "rsp_dp_session \<Rightarrow> rsp_dp_session" where
  "fixture_s1 junk = junk\<lparr>ss_transaction_id := TRANSACTION_ID, ss_euicc_challenge := EUICC_CHALLENGE,
     ss_server_challenge := SERVER_CHALLENGE\<rparr>"

definition fixture_s2 :: "rsp_dp_session \<Rightarrow> bytes \<Rightarrow> bytes \<Rightarrow> bytes \<Rightarrow> rsp_dp_session" where
  "fixture_s2 junk euicc_der md sig2 = (fixture_s1 junk)\<lparr>
     ss_euicc_cert := Owned euicc_der, ss_euicc_cert_len := length euicc_der,
     ss_eid := EUICC_TEST_EID, ss_eid_len := 32, ss_metadata := Owned md, ss_metadata_len := length md,
     ss_smdp_signature2 := sig2, ss_authenticated := True\<rparr>"

text \<open>The test EID as sixteen octets.\<close>

definition EID_OCTETS :: bytes where
  "EID_OCTETS = [0x89, 0x04, 0x90, 0x32, 0x12, 0x34, 0x51, 0x23, 0x45, 0x12, 0x34, 0x56, 0x78, 0x90, 0x12, 0x35]"

definition replay_of ::
  "('c, 'g, 'p, 'k) mbedtls \<Rightarrow> 'a asn1c \<Rightarrow> 'a card_codec \<Rightarrow> sgp26 \<Rightarrow> rsp_dp_session \<Rightarrow> bytes \<Rightarrow> bytes \<Rightarrow> replay option" where
  "replay_of M A K S junk ec mc =
     Option.bind (fits 512 (c_enc_euicc_info1 K [2, 0, 0])) (\<lambda>info1.
     Option.bind (init_response_of M A S (server_signed1_of TRANSACTION_ID EUICC_CHALLENGE SMDP_ADDRESS SERVER_CHALLENGE)) (\<lambda>ir.
     Option.bind (a_enc_init_auth_ok A ir) (\<lambda>init.
     Option.bind (card_auth_of M A K TRANSACTION_ID SERVER_CHALLENGE ec mc) (\<lambda>rok.
     Option.bind (fits 4096 (c_enc_auth_server_response K (AuthenticateResponseOk rok))) (\<lambda>asr.
     Option.bind (fits 512 (c_enc_store_metadata K fixture_metadata)) (\<lambda>md.
     Option.bind (auth_response_of M A S TRANSACTION_ID (ar_euiccSignature1 rok) md) (\<lambda>ar.
     Option.bind (a_enc_auth_client_ok A ar) (\<lambda>ac.
     Option.bind (card_download_of M A TRANSACTION_ID EUICC_OTPK (ac_smdpSignature2 ar)) (\<lambda>dok.
     Option.bind (fits 512 (c_enc_prepare_download K (DownloadResponseOk dok))) (\<lambda>pdr.
     Option.bind (download_of M A S (fixture_s2 junk ec md (ac_smdpSignature2 ar)) (pd_euiccSigned2 dok) EID_OCTETS UPP OTSK_DP)
       (\<lambda>(bpp, ks).
     Some \<lparr>rp_info1 = info1, rp_asr = asr, rp_md = md, rp_pdr = pdr, rp_init_resp = Buf (concat init),
           rp_ac_resp = Buf (concat ac), rp_bpp = Buf bpp,
           rp_session = Some (download_commit (fixture_s2 junk ec md (ac_smdpSignature2 ar)) ks)\<rparr>)))))))))))"

text \<open>X.690 of an AuthenticateClientResponseEs9: the outer [59], the SEQUENCE inside it, and its five
  members in order.\<close>

definition auth_ok_law :: "'a asn1c \<Rightarrow> bool" where
  "auth_ok_law A \<longleftrightarrow> (\<forall>r bs. a_enc_auth_client_ok A r = Some bs \<longrightarrow>
     (\<exists>md sd2 ct v. v = tlv [0x80] (ac_transactionId r) @ tlv [0xBF, 0x25] md @ tlv [0x30] sd2 @
         tlv [0x5F, 0x37] (ac_smdpSignature2 r) @ tlv [0x30] ct \<and>
        concat bs = tlv [0xBF, 0x3B] (tlv [0x30] v) \<and> length (tlv [0x30] v) \<le> 0xFFFFFFFF))"

definition replay_laws :: "('c, 'g, 'p, 'k) mbedtls \<Rightarrow> 'a asn1c \<Rightarrow> 'a card_codec \<Rightarrow> bool" where
  "replay_laws M A K \<longleftrightarrow> enc_laws A \<and> ber_laws A \<and> isc_codec_law A \<and> auth_ok_law A \<and> card_laws A K \<and>
     cipher_laws M \<and> hash_laws M \<and> ecdsa_laws M \<and> (\<forall>sk pk. public_key M sk = Some pk \<longrightarrow> length pk = 65)"

section \<open>The session computes them\<close>

lemma replay_lawsD:
  assumes "replay_laws M A K"
  shows "enc_laws A" "ber_laws A" "isc_codec_law A" "auth_ok_law A" "card_laws A K" "cipher_laws M" "hash_laws M"
    "ecdsa_laws M" "public_key M sk = Some pk \<Longrightarrow> length pk = 65"
  using assms unfolding replay_laws_def by blast+

lemma message_lawsD:
  assumes "replay_laws M A K"
  shows "fits cap (c_enc_euicc_info1 K svn) = Some b \<Longrightarrow> b \<noteq> [] \<and> a_dec_euicc_info1 A b"
    and "es1_euiccInfo2 (ar_euiccSigned1 r) = c_info2 K i \<Longrightarrow> es1_ctxParams1 (ar_euiccSigned1 r) = c_ctx_params1 K t \<Longrightarrow>
      fits cap (c_enc_auth_server_response K (AuthenticateResponseOk r)) = Some b \<Longrightarrow>
      b \<noteq> [] \<and> a_dec_auth_server_response A b = Some (AuthenticateResponseOk r)"
    and "sm_others m = [] \<Longrightarrow> fits cap (c_enc_store_metadata K m) = Some b \<Longrightarrow> b \<noteq> [] \<and> a_dec_store_metadata A b = Some m"
    and "fits cap (c_enc_prepare_download K (DownloadResponseOk d)) = Some b \<Longrightarrow>
      b \<noteq> [] \<and> a_dec_prepare_download A b = Some (DownloadResponseOk d)"
proof -
  have l: "message_laws A K" using replay_lawsD(5) [OF assms] by (simp add: card_laws_def)
  have 1: "c_enc_euicc_info1 K svn = Some bs \<Longrightarrow> concat bs \<noteq> [] \<and> a_dec_euicc_info1 A (concat bs)" for bs
    using l unfolding message_laws_def by blast
  then show "fits cap (c_enc_euicc_info1 K svn) = Some b \<Longrightarrow> b \<noteq> [] \<and> a_dec_euicc_info1 A b"
    by (blast dest: fits_Some)
  assume f: "fits cap (c_enc_auth_server_response K (AuthenticateResponseOk r)) = Some b"
    "es1_euiccInfo2 (ar_euiccSigned1 r) = c_info2 K i" "es1_ctxParams1 (ar_euiccSigned1 r) = c_ctx_params1 K t"
  show "b \<noteq> [] \<and> a_dec_auth_server_response A b = Some (AuthenticateResponseOk r)"
    using l f(2,3) fits_Some [OF f(1)] unfolding message_laws_def by blast
next
  have l: "message_laws A K" using replay_lawsD(5) [OF assms] by (simp add: card_laws_def)
  have 1: "sm_others m = [] \<Longrightarrow> c_enc_store_metadata K m = Some bs \<Longrightarrow> concat bs \<noteq> [] \<and> a_dec_store_metadata A (concat bs) = Some m" for bs
    using l unfolding message_laws_def by blast
  then show "sm_others m = [] \<Longrightarrow> fits cap (c_enc_store_metadata K m) = Some b \<Longrightarrow> b \<noteq> [] \<and> a_dec_store_metadata A b = Some m"
    by (blast dest: fits_Some)
  have 2: "c_enc_prepare_download K (DownloadResponseOk d) = Some bs \<Longrightarrow>
      concat bs \<noteq> [] \<and> a_dec_prepare_download A (concat bs) = Some (DownloadResponseOk d)" for bs
    using l unfolding message_laws_def by blast
  then show "fits cap (c_enc_prepare_download K (DownloadResponseOk d)) = Some b \<Longrightarrow>
      b \<noteq> [] \<and> a_dec_prepare_download A b = Some (DownloadResponseOk d)"
    by (blast dest: fits_Some)
qed

text \<open>A step whose value is itself two steps.\<close>

lemma computes_bnd2:
  assumes "computes m (Option.bind a (\<lambda>x. Option.bind (b x) (\<lambda>y. Some (g x y))))"
    "\<And>x y. a = Some x \<Longrightarrow> b x = Some y \<Longrightarrow> computes (k (g x y)) (f x y)"
  shows "computes (bnd m k) (Option.bind a (\<lambda>x. Option.bind (b x) (f x)))"
proof -
  have "computes (bnd m k) (Option.bind (Option.bind a (\<lambda>x. Option.bind (b x) (\<lambda>y. Some (g x y))))
      (\<lambda>_. Option.bind a (\<lambda>x. Option.bind (b x) (f x))))"
    by (rule computes_bnd [OF assms(1)]) (auto simp: bind_eq_Some_conv assms(2))
  then show ?thesis by (rule computes_cong) (auto split: bind_splits)
qed

lemma computes_bnd1:
  assumes "computes m (Option.bind a (\<lambda>x. Some (g x)))" "\<And>x. a = Some x \<Longrightarrow> computes (k (g x)) (f x)"
  shows "computes (bnd m k) (Option.bind a f)"
proof -
  have "computes (bnd m k) (Option.bind (Option.bind a (\<lambda>x. Some (g x))) (\<lambda>_. Option.bind a f))"
    by (rule computes_bnd [OF assms(1)]) (auto simp: bind_eq_Some_conv assms(2))
  then show ?thesis by (rule computes_cong) (auto split: bind_splits)
qed

lemma fixture_sizes [simp]: "length TRANSACTION_ID = 16" "length EUICC_CHALLENGE = 16" "length SERVER_CHALLENGE = 16"
  "length EUICC_OTPK = 65" "length ICCID = 10" "length EUICC_TEST_EID = 32" "length UPP = 24" "UPP \<noteq> []"
  by (simp_all add: TRANSACTION_ID_def EUICC_CHALLENGE_def SERVER_CHALLENGE_def EUICC_OTPK_def ICCID_def
      EUICC_TEST_EID_def UPP_def c_string_def)

lemma fixture_eid: "eid_packed EUICC_TEST_EID EID_OCTETS"
proof -
  have e: "EUICC_TEST_EID = [0x38, 0x39, 0x30, 0x34, 0x39, 0x30, 0x33, 0x32, 0x31, 0x32, 0x33, 0x34, 0x35, 0x31, 0x32, 0x33,
    0x34, 0x35, 0x31, 0x32, 0x33, 0x34, 0x35, 0x36, 0x37, 0x38, 0x39, 0x30, 0x31, 0x32, 0x33, 0x35]"
    by (simp add: EUICC_TEST_EID_def c_string_def)
  show ?thesis unfolding eid_packed_def e by (simp add: EID_OCTETS_def nibbles_def is_digit_def)
qed

lemma ascii_ieq_refl [simp]: "ascii_ieq a a"
  by (simp add: ascii_ieq_map)

lemma initiate_computes:
  assumes L: "replay_laws M A K" and i: "fits 512 (c_enc_euicc_info1 K [2, 0, 0]) = Some info1"
  shows "computes (recode Minus1 (nested \<lparr>io_session = None, io_resp = Null 0\<rparr>
      (rsp_dp_initiate_authentication M A S junk (Buf EUICC_CHALLENGE) (Buf info1) (Some TRANSACTION_ID)
               (Some SERVER_CHALLENGE) (Some SMDP_ADDRESS) (Some SMDP_ADDRESS) True)))
    (Option.bind (init_response_of M A S (server_signed1_of TRANSACTION_ID EUICC_CHALLENGE SMDP_ADDRESS SERVER_CHALLENGE)) (\<lambda>ir.
     Option.bind (a_enc_init_auth_ok A ir) (\<lambda>init.
     Some ((), \<lparr>io_session = Some (fixture_s1 junk), io_resp = Buf (concat init)\<rparr>))))"
proof (rule computes_nested)
  fix bs x w'
  assume "rsp_dp_initiate_authentication M A S junk (Buf EUICC_CHALLENGE) (Buf info1) (Some TRANSACTION_ID)
    (Some SERVER_CHALLENGE) (Some SMDP_ADDRESS) (Some SMDP_ADDRESS) True
    \<lparr>faults = bs, loc = \<lparr>io_session = None, io_resp = Null 0\<rparr>\<rparr> = (Inr x, w')"
  then show "Option.bind (init_response_of M A S (server_signed1_of TRANSACTION_ID EUICC_CHALLENGE SMDP_ADDRESS SERVER_CHALLENGE)) (\<lambda>ir.
     Option.bind (a_enc_init_auth_ok A ir) (\<lambda>init.
     Some ((), \<lparr>io_session = Some (fixture_s1 junk), io_resp = Buf (concat init)\<rparr>))) = Some (x, loc w')"
    by (rule initiate_run) (auto simp: fixture_s1_def intro: initiate_out.equality)
next
  fix bs e w'
  assume "rsp_dp_initiate_authentication M A S junk (Buf EUICC_CHALLENGE) (Buf info1) (Some TRANSACTION_ID)
    (Some SERVER_CHALLENGE) (Some SMDP_ADDRESS) (Some SMDP_ADDRESS) True
    \<lparr>faults = bs, loc = \<lparr>io_session = None, io_resp = Null 0\<rparr>\<rparr> = (Inl e, w')"
  then show "e \<in> {Minus1, Minus2}" by (rule answersD [OF answers_initiate [OF replay_lawsD(1) [OF L]]])
next
  fix x z
  assume "Option.bind (init_response_of M A S (server_signed1_of TRANSACTION_ID EUICC_CHALLENGE SMDP_ADDRESS SERVER_CHALLENGE)) (\<lambda>ir.
     Option.bind (a_enc_init_auth_ok A ir) (\<lambda>init.
     Some ((), \<lparr>io_session = Some (fixture_s1 junk), io_resp = Buf (concat init)\<rparr>))) = Some (x, z)"
  then obtain ir init where r: "init_response_of M A S (server_signed1_of TRANSACTION_ID EUICC_CHALLENGE SMDP_ADDRESS SERVER_CHALLENGE) = Some ir"
    "a_enc_init_auth_ok A ir = Some init" "z = \<lparr>io_session = Some (fixture_s1 junk), io_resp = Buf (concat init)\<rparr>"
    by (auto simp: bind_eq_Some_conv)
  have n: "info1 \<noteq> []" "a_dec_euicc_info1 A info1" using message_lawsD(1) [OF L i] by simp_all
  show "rsp_dp_initiate_authentication M A S junk (Buf EUICC_CHALLENGE) (Buf info1) (Some TRANSACTION_ID)
    (Some SERVER_CHALLENGE) (Some SMDP_ADDRESS) (Some SMDP_ADDRESS) True
    \<lparr>faults = [], loc = \<lparr>io_session = None, io_resp = Null 0\<rparr>\<rparr> = (Inr x, \<lparr>faults = [], loc = z\<rparr>)"
    using initiate_ok [OF _ replay_lawsD(1) [OF L] _ n _ r(1,2), of "\<lparr>faults = [], loc = \<lparr>io_session = None, io_resp = Null 0\<rparr>\<rparr>" "Some SMDP_ADDRESS" junk]
    by (simp add: r(3) fixture_s1_def)
qed

text \<open>\<open>f.smdp_signature2\<close> is the TLV of the signature, so the 64 octets behind its header are it.\<close>

lemma chained_le: "chained start fs n \<Longrightarrow> start \<le> n"
  by (induction start fs n rule: chained.induct) auto

lemma chained_in: "chained start fs n \<Longrightarrow> f \<in> set fs \<Longrightarrow> fst f + snd f \<le> n"
  by (induction start fs n rule: chained.induct) (auto dest: chained_le)

lemma signature2_field:
  assumes A: "auth_ok_law A" "a_enc_auth_client_ok A r = Some bs" and l: "length (ac_smdpSignature2 r) = 64"
  obtains f where "rsp_dp_authenticate_fields (Buf (concat bs)) True w = (Inr f, w)" "snd (field4 f) = 67"
    "fst (field4 f) + 67 \<le> length (concat bs)" "take 64 (drop (fst (field4 f) + 3) (concat bs)) = ac_smdpSignature2 r"
proof -
  from A obtain md sd2 ct v where o: "v = tlv [0x80] (ac_transactionId r) @ tlv [0xBF, 0x25] md @ tlv [0x30] sd2 @
      tlv [0x5F, 0x37] (ac_smdpSignature2 r) @ tlv [0x30] ct @ []"
    "concat bs = tlv [0xBF, 0x3B] (tlv [0x30] v @ []) @ []" "length (tlv [0x30] v) \<le> 0xFFFFFFFF"
    unfolding auth_ok_law_def by force
  have v: "length v \<le> 0xFFFFFFFF" using o(3) by (simp add: length_tlv)
  have k: "tlv_ok [0xBF, 0x3B] (tlv [0x30] v @ [])" "tlv_ok [0x30] v" "tlv_ok [0x80] (ac_transactionId r)"
    "tlv_ok [0xBF, 0x25] md" "tlv_ok [0x30] sd2" "tlv_ok [0x5F, 0x37] (ac_smdpSignature2 r)" "tlv_ok [0x30] ct"
    using o(3) v unfolding o(1) by (simp_all add: tlv_ok_def tag_class_num_def length_tlv)
  obtain x w' where x: "rsp_dp_authenticate_fields (Buf (concat bs)) True w = (x, w')" by fastforce
  note c = authenticate_fields_cut [OF k o(1), of "[]" w, folded o(2)]
  show ?thesis
  proof (cases x)
    case (Inl e)
    with wp_Inl [OF c] x show ?thesis by simp
  next
    case (Inr f)
    with wp_Inr [OF c] x have w: "w' = w" and s: "slice (concat bs) (field4 f) = [0x5F, 0x37, 64] @ ac_smdpSignature2 r"
      by (simp_all add: field_list_def tlv_sig [OF l])
    from wp_Inr [OF authenticate_fields_wp] x Inr obtain start where
      "chained start (field_list f) (length (concat bs))" by fastforce
    from chained_in [OF this, of "field4 f"] have b: "fst (field4 f) + snd (field4 f) \<le> length (concat bs)"
      by (simp add: field_list_def)
    then have "length (slice (concat bs) (field4 f)) = snd (field4 f)" by (simp add: slice_def)
    then have n: "snd (field4 f) = 67" using s l by simp
    have "drop 3 (slice (concat bs) (field4 f)) = take 64 (drop (fst (field4 f) + 3) (concat bs))"
      unfolding slice_def n by (simp add: drop_take add.commute)
    then have "take 64 (drop (fst (field4 f) + 3) (concat bs)) = ac_smdpSignature2 r" unfolding s by simp
    with b n x w Inr show ?thesis by (intro that [of f]) simp_all
  qed
qed

lemma signature2_step:
  assumes A: "auth_ok_law A" "a_enc_auth_client_ok A r = Some bs" and l: "length (ac_smdpSignature2 r) = 64"
    and k: "computes (k (ac_smdpSignature2 r)) v"
  shows "computes (bnd (recode Minus1 (rsp_dp_authenticate_fields (Buf (concat bs)) True)) (\<lambda>f.
     bnd (ensure (\<not> snd (field4 f) \<noteq> 67) Minus1) (\<lambda>_.
     bnd (rd_block (cdata (Buf (concat bs))) (fst (field4 f) + 3) 64) k))) v"
    (is "computes ?m v")
proof -
  have "?m w = k (ac_smdpSignature2 r) w" for w
    by (rule signature2_field [OF A l, of w]) (simp add: bnd_def recode_def ensure_def ret_def rd_block_def)
  then have "?m = k (ac_smdpSignature2 r)" by blast
  with k show ?thesis by simp
qed

lemma auth_response_signature:
  "ecdsa_laws M \<Longrightarrow> auth_response_of M A S tid sig md = Some r \<Longrightarrow> length (ac_smdpSignature2 r) = 64"
  by (auto simp: auth_response_of_def Let_def bind_eq_Some_conv dest: sign_value_length)

lemma fixture_s1_ok: "junk_clean junk \<Longrightarrow> session_ok (fixture_s1 junk)"
  by (simp add: session_ok_def fixture_s1_def junk_clean_def)

lemma fixture_s2_ok:
  assumes "junk_clean junk" "ec \<noteq> []" "md \<noteq> []" "length sig2 = 64"
  shows "session_ok (fixture_s2 junk ec md sig2)" "ss_authenticated (fixture_s2 junk ec md sig2)"
  using assms by (simp_all add: session_ok_def fixture_s2_def fixture_s1_def junk_clean_def)

lemma auth_checked_unique:
  "auth_checked M A S s rok cert eid \<Longrightarrow> auth_checked M A S s rok cert' eid' \<Longrightarrow> cert' = cert \<and> eid' = eid"
  by (auto simp: auth_checked_def split: option.splits)

lemma authenticate_computes:
  assumes L: "replay_laws M A K" and c: "card_material M A S ec mc" "junk_clean junk"
    and r: "card_auth_of M A K TRANSACTION_ID SERVER_CHALLENGE ec mc = Some rok"
      "fits 4096 (c_enc_auth_server_response K (AuthenticateResponseOk rok)) = Some asr"
      "fits 512 (c_enc_store_metadata K fixture_metadata) = Some md"
  shows "computes (recode Minus1 (nested \<lparr>ao_session = Some (fixture_s1 junk), ao_out = Null 0\<rparr>
      (rsp_dp_authenticate_client M A S (Buf asr) (Buf md) True)))
    (Option.bind (auth_response_of M A S TRANSACTION_ID (ar_euiccSignature1 rok) md) (\<lambda>ar.
     Option.bind (a_enc_auth_client_ok A ar) (\<lambda>ac.
     Some ((), \<lparr>ao_session = Some (fixture_s2 junk ec md (ac_smdpSignature2 ar)), ao_out = Buf (concat ac)\<rparr>))))"
    (is "computes (recode Minus1 (nested ?lo ?m)) ?v")
proof -
  have t: "ss_transaction_id (fixture_s1 junk) = TRANSACTION_ID" "ss_server_challenge (fixture_s1 junk) = SERVER_CHALLENGE"
    by (simp_all add: fixture_s1_def)
  have chk: "auth_checked M A S (fixture_s1 junk) rok ec EUICC_TEST_EID"
    by (rule card_auth_checked [OF replay_lawsD(8) [OF L] c(1) r(1) [folded t]])
  have d: "asr \<noteq> []" "a_dec_auth_server_response A asr = Some (AuthenticateResponseOk rok)"
    using message_lawsD(2) [OF L _ _ r(2)] card_auth_info [OF r(1)] by blast+
  have m: "md \<noteq> []" "a_dec_store_metadata A md = Some fixture_metadata"
    using message_lawsD(3) [OF L _ r(3)] by (simp_all add: fixture_metadata_def)
  have s2: "(fixture_s1 junk)\<lparr>ss_euicc_cert := Owned ec, ss_euicc_cert_len := length ec,
         ss_eid := EUICC_TEST_EID @ drop (length EUICC_TEST_EID) (ss_eid (fixture_s1 junk)), ss_eid_len := length EUICC_TEST_EID,
         ss_metadata := Owned md, ss_metadata_len := length md,
         ss_smdp_signature2 := sig2, ss_authenticated := True\<rparr> = fixture_s2 junk ec md sig2" for sig2
    using c(2) by (simp add: fixture_s2_def fixture_s1_def junk_clean_def)
  show ?thesis
  proof (rule computes_nested)
    fix bs x w' assume run: "?m \<lparr>faults = bs, loc = ?lo\<rparr> = (Inr x, w')"
    obtain s rk der eid ar ac where a: "s = fixture_s1 junk" "rk = rok" "auth_checked M A S s rk der eid"
      "auth_response_of M A S (ss_transaction_id s) (ar_euiccSignature1 rk) md = Some ar" "a_enc_auth_client_ok A ar = Some ac"
      "ao_out (loc w') = Buf (concat ac)"
      "ao_session (loc w') = Some (s\<lparr>ss_euicc_cert := Owned der, ss_euicc_cert_len := length der,
         ss_eid := eid @ drop (length eid) (ss_eid s), ss_eid_len := length eid,
         ss_metadata := Owned md, ss_metadata_len := length md,
         ss_smdp_signature2 := ac_smdpSignature2 ar, ss_authenticated := True\<rparr>)"
      by (rule authenticate_run [OF run]) (use d in auto)
    from auth_checked_unique [OF chk a(3) [unfolded a(1,2)]] have "der = ec" "eid = EUICC_TEST_EID" by simp_all
    with a(7) have "ao_session (loc w') = Some (fixture_s2 junk ec md (ac_smdpSignature2 ar))"
      using s2 by (simp add: a(1))
    then have "loc w' = \<lparr>ao_session = Some (fixture_s2 junk ec md (ac_smdpSignature2 ar)), ao_out = Buf (concat ac)\<rparr>"
      using a(6) by (auto intro: auth_out.equality)
    with a(4,5) show "?v = Some (x, loc w')" by (simp add: a(1,2) t)
  next
    fix bs e w' assume "?m \<lparr>faults = bs, loc = ?lo\<rparr> = (Inl e, w')"
    then show "e \<in> {Minus1, Minus2}"
      by (rule authenticate_code [OF _ replay_lawsD(1) [OF L]]) (simp add: fixture_s1_ok [OF c(2)])
  next
    fix x z assume "?v = Some (x, z)"
    then obtain ar ac where v: "auth_response_of M A S TRANSACTION_ID (ar_euiccSignature1 rok) md = Some ar"
      "a_enc_auth_client_ok A ar = Some ac"
      "z = \<lparr>ao_session = Some (fixture_s2 junk ec md (ac_smdpSignature2 ar)), ao_out = Buf (concat ac)\<rparr>"
      by (auto simp: bind_eq_Some_conv)
    have n: "length (sm_iccid fixture_metadata) = 10" "length (sm_profileName fixture_metadata) \<le> 64"
      "length (sm_serviceProviderName fixture_metadata) \<le> 32"
      by (simp_all add: fixture_metadata_def c_string_def)
    show "?m \<lparr>faults = [], loc = ?lo\<rparr> = (Inr x, \<lparr>faults = [], loc = z\<rparr>)"
      using authenticate_ok [OF _ replay_lawsD(1) [OF L] _ fixture_s1_ok [OF c(2)] d(1) m n d(2) chk v(1) [folded t] v(2),
          of "\<lparr>faults = [], loc = ?lo\<rparr>"]
      unfolding s2 by (simp add: v(3))
  qed
qed

lemma download_computes:
  assumes L: "replay_laws M A K" and c: "card_material M A S ec mc" "junk_clean junk" "length sig2 = 64"
    and r: "card_download_of M A TRANSACTION_ID EUICC_OTPK sig2 = Some dok" "md \<noteq> []" "length md \<le> 512"
      "fits 512 (c_enc_prepare_download K (DownloadResponseOk dok)) = Some pdr"
  shows "computes (recode Minus1 (nested \<lparr>do_session = Some (fixture_s2 junk ec md sig2), do_bpp = Null 0\<rparr>
      (rsp_dp_get_bound_profile_package M A S (Buf pdr) (Buf UPP) (Some OTSK_DP) True)))
    (Option.bind (download_of M A S (fixture_s2 junk ec md sig2) (pd_euiccSigned2 dok) EID_OCTETS UPP OTSK_DP) (\<lambda>p.
     Some ((), \<lparr>do_session = Some (download_commit (fixture_s2 junk ec md sig2) (snd p)), do_bpp = Buf (fst p)\<rparr>)))"
    (is "computes (recode Minus1 (nested ?lo ?m)) ?v")
proof -
  define s where "s = fixture_s2 junk ec md sig2"
  have "ec \<noteq> []" using c(1) by (simp add: card_material_def)
  from fixture_s2_ok [OF c(2) this r(2) c(3)] have s: "session_ok s" "ss_authenticated s" by (simp_all add: s_def)
  have f: "ss_eid s = EUICC_TEST_EID" "ss_eid_len s = 32" "ss_transaction_id s = TRANSACTION_ID" "ss_smdp_signature2 s = sig2"
    "ss_euicc_cert s = Owned ec" "ss_metadata_len s = length md"
    by (simp_all add: s_def fixture_s2_def fixture_s1_def)
  have d: "pdr \<noteq> []" "a_dec_prepare_download A pdr = Some (DownloadResponseOk dok)"
    using message_lawsD(4) [OF L r(4)] by simp_all
  have chk: "download_checked M A s dok"
    by (rule card_download_checked [OF replay_lawsD(8) [OF L] c(1) f(5) _ _ fixture_sizes(4)]) (simp_all add: f c(3) r(1))
  have e: "eid_packed (ss_eid s) EID_OCTETS" by (simp add: f fixture_eid)
  show ?thesis unfolding s_def [symmetric]
  proof (rule computes_nested)
    fix bs x w' assume run: "?m \<lparr>faults = bs, loc = \<lparr>do_session = Some s, do_bpp = Null 0\<rparr>\<rparr> = (Inr x, w')"
    obtain rk octets bpp ks where a: "rk = dok" "eid_packed (ss_eid s) octets"
      "download_of M A S s (pd_euiccSigned2 rk) octets UPP OTSK_DP = Some (bpp, ks)" "do_bpp (loc w') = Buf bpp"
      "do_session (loc w') = Some (download_commit s ks)"
      by (rule download_run [OF run _ s(1) replay_lawsD(6,7) [OF L]]) (use d in auto)
    from eid_packed_unique [OF e a(2)] a(1,3)
    have "download_of M A S s (pd_euiccSigned2 dok) EID_OCTETS UPP OTSK_DP = Some (bpp, ks)" by simp
    with a(4,5) show "(Option.bind (download_of M A S s (pd_euiccSigned2 dok) EID_OCTETS UPP OTSK_DP) (\<lambda>p.
     Some ((), \<lparr>do_session = Some (download_commit s (snd p)), do_bpp = Buf (fst p)\<rparr>))) = Some (x, loc w')"
      by (auto intro: download_out.equality)
  next
    fix bs e w' assume "?m \<lparr>faults = bs, loc = \<lparr>do_session = Some s, do_bpp = Null 0\<rparr>\<rparr> = (Inl e, w')"
    then show "e \<in> {Minus1, Minus2}"
      by (rule download_code [OF _ replay_lawsD(1,3,6,8) [OF L]]) (simp_all add: s)
  next
    fix x z assume "(Option.bind (download_of M A S s (pd_euiccSigned2 dok) EID_OCTETS UPP OTSK_DP) (\<lambda>p.
     Some ((), \<lparr>do_session = Some (download_commit s (snd p)), do_bpp = Buf (fst p)\<rparr>))) = Some (x, z)"
    then obtain bpp ks where v: "download_of M A S s (pd_euiccSigned2 dok) EID_OCTETS UPP OTSK_DP = Some (bpp, ks)"
      "z = \<lparr>do_session = Some (download_commit s ks), do_bpp = Buf bpp\<rparr>"
      by (auto simp: bind_eq_Some_conv)
    from v(1) obtain otpk where p: "public_key M OTSK_DP = Some otpk"
      by (auto simp: download_of_def bind_eq_Some_conv)
    have m: "ss_metadata_len s \<le> 1007" using r(3) by (simp add: f)
    show "?m \<lparr>faults = [], loc = \<lparr>do_session = Some s, do_bpp = Null 0\<rparr>\<rparr> = (Inr x, \<lparr>faults = [], loc = z\<rparr>)"
      using download_ok [OF _ replay_lawsD(1,6,7,8) [OF L] _ s m f(2) e d(1) fixture_sizes(8) d(2) chk p replay_lawsD(9) [OF L p] v(1),
          of "\<lparr>faults = [], loc = \<lparr>do_session = Some s, do_bpp = Null 0\<rparr>\<rparr>"]
      by (simp add: v(2))
  qed
qed

text \<open>The two builders with their values in two steps.\<close>

lemma build_steps:
  "computes (build_auth_server_response M A K tid chal ec mc cap)
     (Option.bind (card_auth_of M A K tid chal ec mc)
        (\<lambda>rok. Option.bind (fits cap (c_enc_auth_server_response K (AuthenticateResponseOk rok))) Some))"
  "computes (build_prepare_download_response M A K tid otpk sig2 cap)
     (Option.bind (card_download_of M A tid otpk sig2)
        (\<lambda>rok. Option.bind (fits cap (c_enc_prepare_download K (DownloadResponseOk rok))) Some))"
  using build_auth_computes build_download_computes by simp_all

lemma build_md_computes:
  "computes (build_store_metadata K ICCID (c_string ''euicc-rsp test profile'') (c_string ''euicc-rsp'') cap)
     (fits cap (c_enc_store_metadata K fixture_metadata))"
  unfolding fixture_metadata_def by (rule build_store_metadata_computes)

lemma fits_length: "fits cap b = Some x \<Longrightarrow> length x \<le> cap"
  by (auto simp: fits_def bind_eq_Some_conv split: if_splits)

theorem replay_session_computes:
  assumes L: "replay_laws M A K" and c: "card_material M A S ec mc" "junk_clean junk"
  shows "computes (replay_session M A K S junk ec mc) (replay_of M A K S junk ec mc)"
  unfolding replay_session_def replay_of_def
proof ((rule computes_bnd [OF build_info1_computes] computes_bnd2 [OF initiate_computes [OF L]]
      computes_bnd2 [OF build_steps(1)] computes_bnd [OF build_md_computes] | assumption | simp only: prod.case initiate_out.select_convs)+,
    goal_cases)
  case (1 info1 ir init rok asr md)
  show ?case
  proof (rule computes_bnd2 [OF authenticate_computes [OF L c 1(4,5,6)]], simp only: prod.case auth_out.select_convs, goal_cases)
    case (1 ar ac)
    note sig = auth_response_signature [OF replay_lawsD(8) [OF L] 1(1)]
    have md: "md \<noteq> []" "length md \<le> 512"
      using message_lawsD(3) [OF L, of fixture_metadata 512 md] fits_length
        \<open>fits 512 (c_enc_store_metadata K fixture_metadata) = Some md\<close>
      by (simp_all add: fixture_metadata_def)
    show ?case
    proof (rule signature2_step [OF replay_lawsD(4) [OF L] 1(2) sig], rule computes_bnd2 [OF build_steps(2)], goal_cases)
      case (1 dok pdr)
      show ?case
      proof (rule computes_bnd1 [OF download_computes [OF L c sig 1(1) md 1(2)]], goal_cases)
        case (1 p)
        show ?case by (cases p) (simp only: prod.case fst_conv snd_conv download_out.select_convs computes_ret)
      qed
    qed
  qed
qed

section \<open>The files\<close>

fun write_all :: "bytes \<Rightarrow> (string \<times> bytes) list \<Rightarrow> files \<Rightarrow> files" where
  "write_all g_dir [] fs = fs"
| "write_all g_dir ((name, buf) # rest) fs = write_all g_dir rest (set_file (file_path g_dir name) (Some buf) fs)"

text \<open>What a run may leave that was cut short while it wrote: a first part of the files, complete, and
  at most the next one opened.\<close>

fun interrupted :: "bytes \<Rightarrow> (string \<times> bytes) list \<Rightarrow> files \<Rightarrow> files \<Rightarrow> bool" where
  "interrupted g_dir [] fs fs' = (fs' = fs)"
| "interrupted g_dir ((name, buf) # rest) fs fs' =
     (fs' = fs \<or> fs' = set_file (file_path g_dir name) None fs \<or>
      interrupted g_dir rest (set_file (file_path g_dir name) (Some buf) fs) fs')"

lemma put_wp:
  "wp (put g_dir name buf) (\<lambda>_ w'. loc w' = set_file (file_path g_dir name) (Some buf) (loc w))
     (\<lambda>e w'. e = Minus1 \<and> (loc w' = loc w \<or> loc w' = set_file (file_path g_dir name) None (loc w))) w"
  unfolding put_def Let_def by (simp add: wp_simps)

lemma put_ok:
  "faults w = [] \<Longrightarrow> length (file_path g_dir name) < 1024 \<Longrightarrow>
     put g_dir name buf w = (Inr (), w\<lparr>loc := set_file (file_path g_dir name) (Some buf) (loc w)\<rparr>)"
  unfolding put_def Let_def by (simp add: bnd_def ensure_def ret_def modify_def get_loc_def set_loc_def)

lemma put_all_wp:
  "wp (put_all g_dir vs) (\<lambda>_ w'. loc w' = write_all g_dir vs (loc w))
     (\<lambda>e w'. e = Minus1 \<and> interrupted g_dir vs (loc w) (loc w')) w"
proof (induction vs arbitrary: w)
  case (Cons v vs)
  show ?case
    by (cases v) (auto simp: wp_simps intro!: wp_mono [OF put_wp] wp_mono [OF Cons.IH])
qed (simp add: wp_simps)

lemma put_all_ok:
  "faults w = [] \<Longrightarrow> \<forall>v \<in> set vs. length (file_path g_dir (fst v)) < 1024 \<Longrightarrow>
     put_all g_dir vs w = (Inr (), w\<lparr>loc := write_all g_dir vs (loc w)\<rparr>)"
proof (induction vs arbitrary: w)
  case (Cons v vs)
  then show ?case by (cases v) (simp add: bnd_def put_ok)
qed (simp add: ret_def)

lemma interrupted_done: "interrupted g_dir vs fs (write_all g_dir vs fs)"
  by (induction g_dir vs fs rule: write_all.induct) auto

lemma interrupted_append:
  "interrupted g_dir vs (write_all g_dir us fs) fs' \<Longrightarrow> interrupted g_dir (us @ vs) fs fs'"
  by (induction g_dir us fs rule: write_all.induct) auto

lemma interrupted_prefix: "interrupted g_dir us fs fs' \<Longrightarrow> interrupted g_dir (us @ vs) fs fs'"
proof (induction g_dir us fs rule: write_all.induct)
  case (1 g_dir fs)
  then show ?case by (cases vs) (auto split: prod.split)
qed auto

lemma write_all_append: "write_all g_dir (us @ vs) fs = write_all g_dir vs (write_all g_dir us fs)"
  by (induction g_dir us fs rule: write_all.induct) auto

definition pending_of :: "('c, 'g, 'p, 'k) mbedtls \<Rightarrow> 'a card_codec \<Rightarrow> bytes option" where
  "pending_of M K = Option.bind (card_report_of M K TRANSACTION_ID True) (\<lambda>(d, sig). fits 1024 (c_enc_result K d sig))"

definition replay_files :: "replay \<Rightarrow> bytes \<Rightarrow> (string \<times> bytes) list" where
  "replay_files r pn = replay_inputs r @ [(''pending-notification.der'', pn)] @ replay_outputs r"

lemma download_commit_ok: "session_ok (download_commit s ks) = session_ok s"
  by (auto simp: session_ok_def download_commit_def split: ptr.splits)

lemma replay_of_session:
  assumes "replay_of M A K S junk ec mc = Some r" "replay_laws M A K" "card_material M A S ec mc" "junk_clean junk"
  obtains s where "rp_session r = Some s" "session_ok s"
proof -
  from assms(1) obtain md ar sig ks where
    md: "fits 512 (c_enc_store_metadata K fixture_metadata) = Some md" and
    r: "auth_response_of M A S TRANSACTION_ID sig md = Some ar"
    "rp_session r = Some (download_commit (fixture_s2 junk ec md (ac_smdpSignature2 ar)) ks)"
    unfolding replay_of_def bind_eq_Some_conv by auto
  have "md \<noteq> []" using message_lawsD(3) [OF assms(2) _ md] by (simp add: fixture_metadata_def)
  moreover have "ec \<noteq> []" using assms(3) by (simp add: card_material_def)
  ultimately have "session_ok (fixture_s2 junk ec md (ac_smdpSignature2 ar))"
    using fixture_s2_ok(1) [OF assms(4)] auth_response_signature [OF replay_lawsD(8) [OF assms(2)] r(1)] by blast
  then have "session_ok (download_commit (fixture_s2 junk ec md (ac_smdpSignature2 ar)) ks)"
    by (simp add: download_commit_ok)
  with r(2) that show ?thesis by blast
qed

lemma pending_wp:
  "wp (build_installation_result M K TRANSACTION_ID True 1024) (\<lambda>pn w'. pending_of M K = Some pn \<and> loc w' = loc w)
     (\<lambda>e w'. e = Minus1 \<and> loc w' = loc w) w"
  using computesD(1,2) [OF build_result_computes] unfolding pending_of_def by (blast intro: wpI)

lemma replay_write_wp:
  assumes "rp_session r = Some s" "session_ok s"
  shows "wp (replay_write M K g_dir r)
    (\<lambda>_ w'. \<exists>pn. pending_of M K = Some pn \<and> loc w' = write_all g_dir (replay_files r pn) (loc w))
    (\<lambda>e w'. e = Minus1 \<and> (\<exists>vs. interrupted g_dir vs (loc w) (loc w') \<and>
       (vs = replay_inputs r \<or> (\<exists>pn. pending_of M K = Some pn \<and> vs = replay_files r pn)))) w"
    (is "wp ?m ?Q ?E w")
proof -
  have free: "wp (rsp_dp_session_free (Some s)) Q E v = Q (Some zero_dp_session) v" for Q E and v :: "files st"
    by (simp add: wp_def session_free_ok [OF assms(2)])
  show ?thesis
    unfolding replay_write_def assms(1)
  proof (subst wp_bnd, rule wp_mono [OF put_all_wp], goal_cases)
    case (1 u w1)
    show ?case
    proof (subst wp_bnd, rule wp_mono [OF pending_wp], goal_cases)
      case pn: (1 pn w2)
      define files where "files = replay_inputs r @ (''pending-notification.der'', pn) # replay_outputs r"
      have f: "replay_files r pn = files" by (simp add: replay_files_def files_def)
      have stop: "\<exists>vs. interrupted g_dir vs (loc w) fs \<and>
          (vs = replay_inputs r \<or> (\<exists>pn. pending_of M K = Some pn \<and> vs = replay_files r pn))"
        if "interrupted g_dir files (loc w) fs" for fs
        using that pn f by blast
      have l1: "loc w2 = write_all g_dir (replay_inputs r) (loc w)" using 1 pn by simp
      show ?case
      proof (subst wp_bnd, rule wp_mono [OF put_wp], goal_cases)
        case (1 u w3)
        have l: "loc w3 = write_all g_dir (replay_inputs r @ [(''pending-notification.der'', pn)]) (loc w)"
          unfolding 1 l1 by (simp add: write_all_append)
        show ?case
        proof (subst wp_bnd, rule wp_mono [OF put_all_wp], goal_cases)
          case (1 u w4)
          have "loc w4 = write_all g_dir files (loc w)"
            unfolding 1 l files_def by (simp add: write_all_append)
          then show ?case using pn by (simp add: wp_bnd free wp_ret f)
        next
          case (2 e w4)
          then have "interrupted g_dir ((replay_inputs r @ [(''pending-notification.der'', pn)]) @ replay_outputs r) (loc w) (loc w4)"
            unfolding l by (intro interrupted_append) simp
          then have "interrupted g_dir files (loc w) (loc w4)" by (simp add: files_def)
          with stop 2 show ?case by simp
        qed
      next
        case (2 e w3)
        then have "interrupted g_dir files (loc w) (loc w3)"
          unfolding l1 files_def by (intro interrupted_append) auto
        with stop 2 show ?case by simp
      qed
    next
      case (2 e w2)
      then show ?case using 1 interrupted_done [of g_dir "replay_inputs r" "loc w"] by auto
    qed
  next
    case (2 e w1)
    then show ?case by blast
  qed
qed

section \<open>The program\<close>

text \<open>What the program does, whatever fails: status 0 and every file, or status 1 and no file but a first
  part of them, the first of them only after the whole session.\<close>

definition fixtures_written ::
  "('c, 'g, 'p, 'k) mbedtls \<Rightarrow> 'a asn1c \<Rightarrow> 'a card_codec \<Rightarrow> sgp26 \<Rightarrow> rsp_dp_session \<Rightarrow> bytes \<Rightarrow> bytes \<Rightarrow> bytes \<Rightarrow>
   files \<Rightarrow> files \<Rightarrow> bool" where
  "fixtures_written M A K S junk ec mc g_dir fs fs' \<longleftrightarrow>
     (\<exists>r pn. replay_of M A K S junk ec mc = Some r \<and> pending_of M K = Some pn \<and>
        fs' = write_all g_dir (replay_files r pn) fs)"

definition fixtures_interrupted ::
  "('c, 'g, 'p, 'k) mbedtls \<Rightarrow> 'a asn1c \<Rightarrow> 'a card_codec \<Rightarrow> sgp26 \<Rightarrow> rsp_dp_session \<Rightarrow> bytes \<Rightarrow> bytes \<Rightarrow> bytes \<Rightarrow>
   files \<Rightarrow> files \<Rightarrow> bool" where
  "fixtures_interrupted M A K S junk ec mc g_dir fs fs' \<longleftrightarrow> fs' = fs \<or>
     (\<exists>r vs. replay_of M A K S junk ec mc = Some r \<and> interrupted g_dir vs fs fs' \<and>
        (vs = replay_inputs r \<or> (\<exists>pn. pending_of M K = Some pn \<and> vs = replay_files r pn)))"

lemma main_body_wp:
  assumes "replay_laws M A K" "card_material M A S ec mc" "junk_clean junk"
  shows "wp (bnd (replay_session M A K S junk ec mc) (replay_write M K g_dir))
    (\<lambda>_ w'. fixtures_written M A K S junk ec mc g_dir (loc w) (loc w'))
    (\<lambda>e w'. e = Minus1 \<and> fixtures_interrupted M A K S junk ec mc g_dir (loc w) (loc w')) w"
proof (subst wp_bnd, rule wpI)
  fix r w1 assume run: "replay_session M A K S junk ec mc w = (Inr r, w1)"
  from computesD(1) [OF replay_session_computes [OF assms] run] have r: "replay_of M A K S junk ec mc = Some r" "loc w1 = loc w"
    by simp_all
  obtain s where s: "rp_session r = Some s" "session_ok s"
    by (rule replay_of_session [OF r(1) assms])
  show "wp (replay_write M K g_dir r) (\<lambda>_ w'. fixtures_written M A K S junk ec mc g_dir (loc w) (loc w'))
    (\<lambda>e w'. e = Minus1 \<and> fixtures_interrupted M A K S junk ec mc g_dir (loc w) (loc w')) w1"
    by (rule wp_mono [OF replay_write_wp [OF s]])
      (use r in \<open>auto simp: fixtures_written_def fixtures_interrupted_def\<close>)
next
  fix e w1 assume "replay_session M A K S junk ec mc w = (Inl e, w1)"
  from computesD(2) [OF replay_session_computes [OF assms] this]
  show "e = Minus1 \<and> fixtures_interrupted M A K S junk ec mc g_dir (loc w) (loc w1)"
    by (simp add: fixtures_interrupted_def)
qed

lemma main_outcome:
  assumes L: "replay_laws M A K" and c: "card_material M A S ec mc" "junk_clean junk"
  obtains w' where "session_fixtures_main M A K S junk ec mc [prog, g_dir] w = (Inr 0, w')"
      "fixtures_written M A K S junk ec mc g_dir (loc w) (loc w')"
  | w' where "session_fixtures_main M A K S junk ec mc [prog, g_dir] w = (Inr 1, w')"
      "fixtures_interrupted M A K S junk ec mc g_dir (loc w) (loc w')"
proof -
  have m: "session_fixtures_main M A K S junk ec mc [prog, g_dir] =
      bnd (attempt (bnd (replay_session M A K S junk ec mc) (replay_write M K g_dir))) (\<lambda>r.
           ret (case r of Some _ \<Rightarrow> 0 | None \<Rightarrow> 1))"
    by (simp add: session_fixtures_main_def)
  note wp = main_body_wp [OF L c, of g_dir w]
  show thesis
  proof (cases "bnd (replay_session M A K S junk ec mc) (replay_write M K g_dir) w")
    case (Pair x w')
    show thesis
    proof (cases x)
      case (Inl e)
      with wp_Inl [OF wp] Pair that(2) [of w'] show thesis
        unfolding m by (simp add: bnd_def [of "attempt _"] attempt_def ret_def)
    next
      case (Inr u)
      with wp_Inr [OF wp] Pair that(1) [of w'] show thesis
        unfolding m by (simp add: bnd_def [of "attempt _"] attempt_def ret_def)
    qed
  qed
qed

lemma file_path_length: "length (file_path g_dir name) = length g_dir + 1 + length name"
  by (simp add: file_path_def c_string_def)

lemma main_success:
  assumes L: "replay_laws M A K" and c: "card_material M A S ec mc" "junk_clean junk"
    and f: "faults w = []" "length g_dir \<le> 993"
    and r: "replay_of M A K S junk ec mc = Some r" "pending_of M K = Some pn"
  shows "session_fixtures_main M A K S junk ec mc [prog, g_dir] w = (Inr 0, w\<lparr>loc := write_all g_dir (replay_files r pn) (loc w)\<rparr>)"
proof -
  have s: "replay_session M A K S junk ec mc w = (Inr r, w)"
    by (rule computesD(3) [OF replay_session_computes [OF L c] f(1) r(1)])
  have b: "build_installation_result M K TRANSACTION_ID True 1024 v = (Inr pn, v)" if "faults v = []" for v :: "files st"
    by (rule computesD(3) [OF build_result_computes that]) (use r(2) in \<open>simp add: pending_of_def\<close>)
  have n: "\<forall>v \<in> set (replay_inputs r) \<union> set (replay_outputs r). length (file_path g_dir (fst v)) < 1024"
    "length (file_path g_dir ''pending-notification.der'') < 1024"
    using f(2) by (simp_all add: replay_inputs_def replay_outputs_def file_path_length)
  obtain t where t: "rp_session r = Some t" "session_ok t" by (rule replay_of_session [OF r(1) L c])
  have "replay_write M K g_dir r w = (Inr (), w\<lparr>loc := write_all g_dir (replay_files r pn) (loc w)\<rparr>)"
    using f(1) n by (simp add: replay_write_def bnd_def put_all_ok b put_ok t(1) session_free_ok [OF t(2)] ret_def
        replay_files_def write_all_append)
  with s show ?thesis
    by (simp add: session_fixtures_main_def bnd_def attempt_def ret_def)
qed

text \<open>The files hold what was written to them: no two have the same name.\<close>

lemma c_string_inject: "c_string s = c_string t \<longleftrightarrow> s = t"
proof -
  have "unat (word_of_nat (of_char c) :: u8) = of_char c" for c
    by (simp add: unsigned_of_nat take_bit_eq_mod)
  then have "inj (\<lambda>c. word_of_nat (of_char c) :: u8)"
    by (intro injI) (metis of_char_eq_iff)
  then show ?thesis by (simp add: c_string_def inj_map_eq_map)
qed

lemma file_path_inject: "file_path g_dir a = file_path g_dir b \<longleftrightarrow> a = b"
  by (simp add: file_path_def c_string_inject)

lemma write_all_other:
  "\<forall>v \<in> set vs. file_path g_dir (fst v) \<noteq> p \<Longrightarrow> write_all g_dir vs fs p = fs p"
  by (induction g_dir vs fs rule: write_all.induct) (auto simp: set_file_def)

lemma write_all_file:
  "distinct (map fst vs) \<Longrightarrow> (name, buf) \<in> set vs \<Longrightarrow> write_all g_dir vs fs (file_path g_dir name) = Some (Some buf)"
proof (induction g_dir vs fs rule: write_all.induct)
  case (2 g_dir n b rest fs)
  show ?case
  proof (cases "(name, buf) \<in> set rest")
    case True
    with 2 show ?thesis by simp
  next
    case False
    with 2(3) have "name = n" "buf = b" by auto
    moreover have "\<forall>v \<in> set rest. file_path g_dir (fst v) \<noteq> file_path g_dir n"
      using 2(2) by (auto simp: file_path_inject image_iff)
    ultimately show ?thesis by (simp add: write_all_other) (simp add: set_file_def)
  qed
qed simp

lemma replay_names: "distinct (map fst (replay_files r pn))"
  by (simp add: replay_files_def replay_inputs_def replay_outputs_def)

definition fixture_names :: "string list" where
  "fixture_names = [
     ''euicc-challenge.bin'', ''transaction-id.bin'', ''server-challenge.bin'', ''otsk-dp.bin'', ''euicc-info1.der'',
     ''auth-server-response.der'', ''store-metadata.der'', ''prepare-download-response.der'', ''upp.der'',
     ''pending-notification.der'', ''initiate-response.der'', ''authenticate-response.der'', ''bound-profile-package.der'']"

lemma replay_files_names: "map fst (replay_files r pn) = fixture_names"
  by (simp add: replay_files_def replay_inputs_def replay_outputs_def fixture_names_def)

lemma fixtures_written_file:
  assumes "fixtures_written M A K S junk ec mc g_dir fs fs'"
  obtains r pn where "replay_of M A K S junk ec mc = Some r" "pending_of M K = Some pn"
    "\<forall>(name, buf) \<in> set (replay_files r pn). fs' (file_path g_dir name) = Some (Some buf)"
    "\<forall>p. (\<forall>v \<in> set (replay_files r pn). file_path g_dir (fst v) \<noteq> p) \<longrightarrow> fs' p = fs p"
  using assms write_all_file [OF replay_names] write_all_other
  unfolding fixtures_written_def by (fastforce split: prod.splits)

text \<open>The octets are a function of the material alone: not of the memory the session is allocated in.\<close>

lemma download_of_fixture:
  "download_of M A S (fixture_s2 junk ec md sig2) es2 octets upp sk = download_of M A S (fixture_s2 junk' ec md sig2) es2 octets upp sk"
  by (simp add: download_of_def download_input_def fixture_s2_def fixture_s1_def)

lemma replay_of_junk:
  assumes "replay_of M A K S junk ec mc = Some r" "replay_of M A K S junk' ec mc = Some r'"
  shows "replay_files r pn = replay_files r' pn"
proof -
  from assms(1) obtain info1 ir init rok asr md ar ac dok pdr bpp ks where
    1: "fits 512 (c_enc_euicc_info1 K [2, 0, 0]) = Some info1"
      "init_response_of M A S (server_signed1_of TRANSACTION_ID EUICC_CHALLENGE SMDP_ADDRESS SERVER_CHALLENGE) = Some ir"
      "a_enc_init_auth_ok A ir = Some init" "card_auth_of M A K TRANSACTION_ID SERVER_CHALLENGE ec mc = Some rok"
      "fits 4096 (c_enc_auth_server_response K (AuthenticateResponseOk rok)) = Some asr"
      "fits 512 (c_enc_store_metadata K fixture_metadata) = Some md"
      "auth_response_of M A S TRANSACTION_ID (ar_euiccSignature1 rok) md = Some ar" "a_enc_auth_client_ok A ar = Some ac"
      "card_download_of M A TRANSACTION_ID EUICC_OTPK (ac_smdpSignature2 ar) = Some dok"
      "fits 512 (c_enc_prepare_download K (DownloadResponseOk dok)) = Some pdr" and
    d: "download_of M A S (fixture_s2 junk ec md (ac_smdpSignature2 ar)) (pd_euiccSigned2 dok) EID_OCTETS UPP OTSK_DP = Some (bpp, ks)" and
    r: "r = \<lparr>rp_info1 = info1, rp_asr = asr, rp_md = md, rp_pdr = pdr, rp_init_resp = Buf (concat init),
           rp_ac_resp = Buf (concat ac), rp_bpp = Buf bpp,
           rp_session = Some (download_commit (fixture_s2 junk ec md (ac_smdpSignature2 ar)) ks)\<rparr>"
    unfolding replay_of_def bind_eq_Some_conv by (elim exE conjE) (simp split: prod.splits)
  have d': "download_of M A S (fixture_s2 junk' ec md (ac_smdpSignature2 ar)) (pd_euiccSigned2 dok) EID_OCTETS UPP OTSK_DP = Some (bpp, ks)"
    using d download_of_fixture [of M A S junk' ec md "ac_smdpSignature2 ar" "pd_euiccSigned2 dok" EID_OCTETS UPP OTSK_DP junk] by simp
  from assms(2) have "rp_info1 r' = info1 \<and> rp_asr r' = asr \<and> rp_md r' = md \<and> rp_pdr r' = pdr \<and>
    rp_init_resp r' = Buf (concat init) \<and> rp_ac_resp r' = Buf (concat ac) \<and> rp_bpp r' = Buf bpp"
    unfolding replay_of_def 1 bind.bind_lunit d' prod.case by auto
  with r show ?thesis by (simp add: replay_files_def replay_inputs_def replay_outputs_def)
qed

lemma main_written:
  assumes "replay_laws M A K" "card_material M A S ec mc" "junk_clean junk"
    and "session_fixtures_main M A K S junk ec mc [prog, g_dir] w = (Inr 0, w')"
  shows "fixtures_written M A K S junk ec mc g_dir (loc w) (loc w')"
  by (rule main_outcome [OF assms(1-3), of prog g_dir w]) (use assms(4) in simp_all)

lemma fixtures_same:
  assumes "fixtures_written M A K S junk ec mc d fs fs'" "fixtures_written M A K S junk' ec mc e gs gs'"
  shows "\<exists>files. map fst files = fixture_names \<and>
    (\<forall>(name, buf) \<in> set files. fs' (file_path d name) = Some (Some buf) \<and> gs' (file_path e name) = Some (Some buf))"
proof -
  obtain r pn where 1: "replay_of M A K S junk ec mc = Some r" "pending_of M K = Some pn"
    "\<forall>(name, buf) \<in> set (replay_files r pn). fs' (file_path d name) = Some (Some buf)"
    by (rule fixtures_written_file [OF assms(1)])
  obtain r' pn' where 2: "replay_of M A K S junk' ec mc = Some r'" "pending_of M K = Some pn'"
    "\<forall>(name, buf) \<in> set (replay_files r' pn'). gs' (file_path e name) = Some (Some buf)"
    by (rule fixtures_written_file [OF assms(2)])
  have "replay_files r' pn' = replay_files r pn"
    using replay_of_junk [OF 1(1) 2(1)] 1(2) 2(2) by simp
  with 1(3) 2(3) replay_files_names show ?thesis by (intro exI [of _ "replay_files r pn"]) auto
qed

end
