(* ===== verification/CardSample.thy ===== *)
theory CardSample
  imports Sample Replay
begin

text \<open>
  A concrete instance of the laws about the eUICC's codec and the SGP.26 material, on top of the
  cipher suite of \<open>Sample\<close>: a codec that writes its members one after the other as TLVs and reads
  them back, and certificates wrapped in a SEQUENCE. It shows that the laws hold together and that
  the session of \<open>tools/session-fixtures.c\<close> has a value. It is not a model of asn1c.
\<close>

section \<open>Members\<close>

definition small :: "bytes \<Rightarrow> bool" where
  "small b \<longleftrightarrow> length b \<le> 0xFFFFFFFF"

definition pack :: "bytes list \<Rightarrow> bytes" where
  "pack xs = concat (map (tlv [4]) xs)"

function unpack :: "bytes \<Rightarrow> bytes list option" where
  "unpack [] = Some []"
| "unpack (t # rest) = (case der_length_value rest of None \<Rightarrow> None
     | Some (k, n) \<Rightarrow> if k + n \<le> length rest then map_option (Cons (take n (drop k rest))) (unpack (drop (k + n) rest)) else None)"
  by pat_completeness auto
termination
  by (relation "measure length") auto

lemma unpack_pack: "list_all small xs \<Longrightarrow> unpack (pack xs) = Some xs"
proof (induction xs)
  case (Cons x xs)
  then have "length x \<le> 0xFFFFFFFF" by (simp add: small_def)
  then obtain lo where lo: "rsp_der_length_octets (length x) = Some lo" by (rule der_octets_exist)
  have "pack (x # xs) = 4 # lo @ x @ pack xs" by (simp add: pack_def tlv_def lo)
  then show ?case using Cons der_length_decode [OF lo, of "x @ pack xs"] by simp
qed (simp add: pack_def)

definition enc_members :: "bytes list \<Rightarrow> bytes list option" where
  "enc_members xs = (if list_all small xs then toy_blocks [pack xs] else None)"

lemma enc_members_dec: "enc_members xs = Some bs \<Longrightarrow> unpack (concat bs) = Some xs"
  by (auto simp: enc_members_def toy_blocks_def unpack_pack split: if_splits)

section \<open>The codec\<close>

definition meta_members :: "card_metadata \<Rightarrow> bytes list" where
  "meta_members m = [nm_seqNumber m, nm_operation m, [word_of_nat (nm_bits_unused m)],
     (case nm_iccid m of None \<Rightarrow> [] | Some i \<Rightarrow> 1 # i), nm_notificationAddress m]"

fun meta_read :: "bytes list \<Rightarrow> notification_metadata" where
  "meta_read (seq # op # unused # iccid # rest) = \<lparr>nm_seqNumber = seq, nm_operation = op,
     nm_bits_unused = unat (hd unused), nm_iccid = (if iccid = [] then None else Some (tl iccid))\<rparr>"
| "meta_read _ = \<lparr>nm_seqNumber = [], nm_operation = [], nm_bits_unused = 0, nm_iccid = None\<rparr>"

fun final_members :: "card_final \<Rightarrow> bytes list" where
  "final_members (CardSuccess a b) = [[0], a, b]"
| "final_members (CardError a b) = [[1], a, b]"

fun final_read :: "bytes list \<Rightarrow> final_result" where
  "final_read [k, a, b] = (if k = [0] then SuccessResult else ErrorResult a b)"
| "final_read _ = NoResult"

definition result_members :: "card_result \<Rightarrow> bytes list" where
  "result_members d = final_members (cd_finalResult d) @ cd_transactionId d # cd_smdpOid d # meta_members (cd_metadata d)"

definition result_read :: "bytes list \<Rightarrow> bytes \<Rightarrow> installation_result" where
  "result_read xs sig = \<lparr>pir_transactionId = xs ! 3, pir_metadata = meta_read (drop 5 xs),
     pir_finalResult = final_read (take 3 xs), pir_euiccSignPIR = sig\<rparr>"

definition enc_result_data :: "card_result \<Rightarrow> bytes list option" where
  "enc_result_data d = (let v = pack (result_members d) in
     if list_all small (result_members d) \<and> small v then Some [tlv [0xBF, 0x27] v] else None)"

definition enc_result :: "card_result \<Rightarrow> bytes \<Rightarrow> bytes list option" where
  "enc_result d sig = Option.bind (enc_result_data d) (\<lambda>ds. let v = concat ds @ tlv [0x5F, 0x37] sig in
     if small sig \<and> small v then Some [tlv [0xBF, 0x37] v] else None)"

definition enc_metadata :: "card_metadata \<Rightarrow> bytes list option" where
  "enc_metadata m = (let v = pack (meta_members m) in
     if list_all small (meta_members m) \<and> small v then Some [tlv [0xBF, 0x2F] v] else None)"

text \<open>The content of a TLV and what follows it.\<close>

definition cut :: "bytes \<Rightarrow> (bytes \<times> bytes) option" where
  "cut b = map_option (\<lambda>(n, t, v). (v, drop n b)) (read_tlv toy_asn1 b)"

definition whole :: "bytes \<Rightarrow> bool" where
  "whole c \<longleftrightarrow> (case cut c of None \<Rightarrow> False | Some (v, rest) \<Rightarrow> c = tlv [0x30] v \<and> small v)"

definition enc_notification :: "bytes card_notification \<Rightarrow> bytes list option" where
  "enc_notification n = Option.bind (enc_metadata (cn_tbs n)) (\<lambda>ms.
     let v = concat ms @ tlv [0x5F, 0x37] (cn_signature n) @ cn_euiccCertificate n @ cn_eumCertificate n in
     if whole (cn_euiccCertificate n) \<and> whole (cn_eumCertificate n) \<and> small (cn_signature n) \<and> small v
     then Some [tlv [0x30] v] else None)"

lemma cut_tlv: "small v \<Longrightarrow> tag_class_num t \<noteq> None \<Longrightarrow> cut (tlv t v @ rest) = Some (v, rest)"
  by (auto simp: cut_def small_def read_tlv_tlv [OF toy_ber_laws])

definition card_asn1 :: "bytes asn1c" where
  "card_asn1 = toy_asn1\<lparr>
     a_dec_auth_server_response := (\<lambda>b. case unpack b of
        Some [tid, addr, chal, info2, ctx, sig, ec, mc] \<Rightarrow> Some (AuthenticateResponseOk
          \<lparr>ar_euiccSigned1 = \<lparr>es1_transactionId = tid, es1_serverAddress = addr, es1_serverChallenge = chal,
              es1_euiccInfo2 = info2, es1_ctxParams1 = ctx\<rparr>,
           ar_euiccSignature1 = sig, ar_euiccCertificate = ec, ar_eumCertificate = mc\<rparr>)
        | _ \<Rightarrow> None),
     a_dec_store_metadata := (\<lambda>b. case unpack b of
        Some [iccid, spn, name] \<Rightarrow> Some \<lparr>sm_iccid = iccid, sm_serviceProviderName = spn, sm_profileName = name, sm_others = []\<rparr>
        | _ \<Rightarrow> None),
     a_enc_auth_client_ok := (\<lambda>r. let v = tlv [0x80] (ac_transactionId r) @ tlv [0xBF, 0x25] [] @ tlv [0x30] [] @
          tlv [0x5F, 0x37] (ac_smdpSignature2 r) @ tlv [0x30] [] in
        if small (tlv [0x30] v) then Some [tlv [0xBF, 0x3B] (tlv [0x30] v)] else None),
     a_dec_prepare_download := (\<lambda>b. case unpack b of
        Some [tid, otpk, sig] \<Rightarrow> Some (DownloadResponseOk \<lparr>pd_euiccSigned2 =
          \<lparr>es2_transactionId = tid, es2_euiccOtpk = otpk, es2_hashCc = None\<rparr>, pd_euiccSignature2 = sig\<rparr>)
        | Some [tid, otpk, sig, cc] \<Rightarrow> Some (DownloadResponseOk \<lparr>pd_euiccSigned2 =
          \<lparr>es2_transactionId = tid, es2_euiccOtpk = otpk, es2_hashCc = Some cc\<rparr>, pd_euiccSignature2 = sig\<rparr>)
        | _ \<Rightarrow> None),
     a_dec_installation_result := (\<lambda>b.
        Option.bind (cut b) (\<lambda>(v, _). Option.bind (cut v) (\<lambda>(d, rest). Option.bind (cut rest) (\<lambda>(sig, _).
        map_option (\<lambda>xs. result_read xs sig) (unpack d))))),
     a_dec_other_notification := (\<lambda>b.
        Option.bind (cut b) (\<lambda>(v, _). Option.bind (cut v) (\<lambda>(m, rest). Option.bind (cut rest) (\<lambda>(sig, _).
        map_option (\<lambda>xs. \<lparr>osn_tbs = meta_read xs, osn_signature = sig\<rparr>) (unpack m)))))\<rparr>"

definition card_toy :: "bytes card_codec" where
  "card_toy = \<lparr>
     c_enc_euicc_info1 = (\<lambda>svn. enc_members [svn]),
     c_info2 = ei_svn,
     c_ctx_params1 = (\<lambda>tac. tac),
     c_enc_auth_server_response = (\<lambda>r. case r of AuthenticateResponseError \<Rightarrow> None
        | AuthenticateResponseOk r \<Rightarrow> let s = ar_euiccSigned1 r in
            enc_members [es1_transactionId s, es1_serverAddress s, es1_serverChallenge s, es1_euiccInfo2 s, es1_ctxParams1 s,
              ar_euiccSignature1 r, ar_euiccCertificate r, ar_eumCertificate r]),
     c_enc_store_metadata = (\<lambda>m. enc_members [sm_iccid m, sm_serviceProviderName m, sm_profileName m]),
     c_enc_prepare_download = (\<lambda>r. case r of DownloadResponseError \<Rightarrow> None
        | DownloadResponseOk r \<Rightarrow> let s = pd_euiccSigned2 r in
            enc_members ([es2_transactionId s, es2_euiccOtpk s, pd_euiccSignature2 r] @
              (case es2_hashCc s of None \<Rightarrow> [] | Some cc \<Rightarrow> [cc]))),
     c_enc_result_data = enc_result_data,
     c_enc_result = enc_result,
     c_enc_metadata = enc_metadata,
     c_enc_notification = enc_notification,
     c_long2integer = (\<lambda>i. if 0 \<le> i \<and> i < 128 then Some [word_of_int i] else None),
     c_oid = (\<lambda>arcs. Some (map word_of_nat arcs))\<rparr>"

section \<open>It satisfies the laws\<close>

lemma card_asn1_same [simp]:
  "a_fetch_tag card_asn1 = a_fetch_tag toy_asn1" "a_fetch_length card_asn1 = a_fetch_length toy_asn1"
  "a_constructed card_asn1 = a_constructed toy_asn1" "a_integer2long card_asn1 = a_integer2long toy_asn1"
  "a_enc_isc card_asn1 = a_enc_isc toy_asn1" "a_enc_configure card_asn1 = a_enc_configure toy_asn1"
  "a_dec_euicc_info1 card_asn1 = a_dec_euicc_info1 toy_asn1" "a_enc_server_signed1 card_asn1 = a_enc_server_signed1 toy_asn1"
  "a_enc_init_auth_ok card_asn1 = a_enc_init_auth_ok toy_asn1" "a_dec_certificate card_asn1 = a_dec_certificate toy_asn1"
  "a_enc_certificate card_asn1 = a_enc_certificate toy_asn1" "a_enc_euicc_signed1 card_asn1 = a_enc_euicc_signed1 toy_asn1"
  "a_enc_smdp_signed2 card_asn1 = a_enc_smdp_signed2 toy_asn1" "a_enc_euicc_signed2 card_asn1 = a_enc_euicc_signed2 toy_asn1"
  by (simp_all add: card_asn1_def)

lemma card_ber_laws: "ber_laws card_asn1"
  using toy_ber_laws by (simp add: ber_laws_def)

lemma card_isc_law: "isc_codec_law card_asn1"
  using toy_isc_law by (simp add: isc_codec_law_def)

lemma card_auth_ok_law: "auth_ok_law card_asn1"
  by (auto simp: auth_ok_law_def card_asn1_def Let_def small_def split: if_splits)

lemma card_enc_laws: "enc_laws card_asn1"
proof -
  have "length (tlv [0xBF, 0x3B] v) \<le> 2 ^ 63 - 1" if "small v" for v
    using length_tlv_le [of v "[0xBF, 0x3B]"] that by (simp add: small_def)
  then have "bounded_enc (a_enc_auth_client_ok card_asn1)"
    by (auto simp: bounded_enc_def card_asn1_def Let_def split: if_splits)
  then show ?thesis using toy_enc_laws by (simp add: enc_laws_def)
qed

lemma card_message_laws: "message_laws card_asn1 card_toy"
proof -
  have d: "unpack (concat bs) = Some xs \<and> (xs \<noteq> [] \<longrightarrow> concat bs \<noteq> [])" if "enc_members xs = Some bs" for xs bs
    using enc_members_dec [OF that] by (metis unpack.simps(1) option.inject)
  show ?thesis
    unfolding message_laws_def
  proof (intro conjI allI impI; (elim conjE)?)
    fix svn bs assume "c_enc_euicc_info1 card_toy svn = Some bs"
    then show "concat bs \<noteq> []" "a_dec_euicc_info1 card_asn1 (concat bs)"
      using d [of "[svn]" bs] by (auto simp: card_toy_def toy_asn1_def simp del: concat_eq_Nil_conv)
  next
    fix r i t bs assume "c_enc_auth_server_response card_toy (AuthenticateResponseOk r) = Some bs"
    then show "concat bs \<noteq> []" "a_dec_auth_server_response card_asn1 (concat bs) = Some (AuthenticateResponseOk r)"
      using d by (auto simp: card_toy_def card_asn1_def Let_def simp del: concat_eq_Nil_conv)
  next
    fix m bs assume "c_enc_store_metadata card_toy m = Some bs" "sm_others m = []"
    then show "concat bs \<noteq> []" "a_dec_store_metadata card_asn1 (concat bs) = Some m"
      using d by (auto simp: card_toy_def card_asn1_def simp del: concat_eq_Nil_conv)
  next
    fix r bs assume "c_enc_prepare_download card_toy (DownloadResponseOk r) = Some bs"
    then show "concat bs \<noteq> []" "a_dec_prepare_download card_asn1 (concat bs) = Some (DownloadResponseOk r)"
      using d by (auto simp: card_toy_def card_asn1_def Let_def simp del: concat_eq_Nil_conv split: option.splits)
  next
    fix i b assume "c_long2integer card_toy i = Some b"
    then show "a_integer2long card_asn1 b = Some i"
      by (auto simp: card_toy_def toy_asn1_def uint_word_of_int split: if_splits)
  qed
qed

lemma small_simps [simp]: "small []" "small [a]"
  by (simp_all add: small_def)

lemma meta_read_members:
  "metadata_der K m \<Longrightarrow> meta_read (meta_members m) = meta_view m"
  by (auto simp: meta_members_def meta_view_def metadata_der_def unsigned_of_nat take_bit_eq_mod split: option.split)

lemma result_read_members:
  assumes "metadata_der K (cd_metadata d)"
  shows "result_read (result_members d) sig = result_view d sig"
proof -
  obtain k a b where f: "final_members (cd_finalResult d) = [[k], a, b]"
    "final_read [[k], a, b] = final_view (cd_finalResult d)"
    by (cases "cd_finalResult d") auto
  then show ?thesis
    using meta_read_members [OF assms] by (simp add: result_read_def result_members_def result_view_def)
qed

lemma cut_tlv_end: "small v \<Longrightarrow> tag_class_num t \<noteq> None \<Longrightarrow> cut (tlv t v) = Some (v, [])"
  using cut_tlv [of v t "[]"] by simp

lemma card_report_laws: "report_laws card_asn1 card_toy"
  unfolding report_laws_def
proof (intro conjI allI impI; elim conjE)
  fix d sig ds bs
  assume m: "metadata_der card_toy (cd_metadata d)" and e: "c_enc_result_data card_toy d = Some ds" "c_enc_result card_toy d sig = Some bs"
  define v where "v = pack (result_members d)"
  from e(1) have d: "list_all small (result_members d)" "small v" "ds = [tlv [0xBF, 0x27] v]"
    by (auto simp: card_toy_def enc_result_data_def Let_def v_def split: if_splits)
  from e have b: "small sig" "small (tlv [0xBF, 0x27] v @ tlv [0x5F, 0x37] sig)"
    "bs = [tlv [0xBF, 0x37] (tlv [0xBF, 0x27] v @ tlv [0x5F, 0x37] sig)]"
    by (auto simp: card_toy_def enc_result_def Let_def d(3) split: if_splits)
  show "a_dec_installation_result card_asn1 (concat bs) = Some (result_view d sig)"
    using d(2) b unpack_pack [OF d(1)]
    by (simp add: card_asn1_def cut_tlv cut_tlv_end tag_class_num_def v_def [symmetric] result_read_members [OF m])
  show "\<exists>v. concat ds = tlv [0xBF, 0x27] v \<and> concat bs = tlv [0xBF, 0x37] (concat ds @ tlv [0x5F, 0x37] sig) \<and>
           length v \<le> 0xFFFFFFFF \<and> length (concat ds @ tlv [0x5F, 0x37] sig) \<le> 0xFFFFFFFF"
    using d(2) b by (intro exI [of _ v]) (simp add: d(3) small_def)
next
  fix n ms es us bs
  assume m: "metadata_der card_toy (cn_tbs n)" and e: "c_enc_metadata card_toy (cn_tbs n) = Some ms"
    "a_enc_certificate card_asn1 (cn_euiccCertificate n) = Some es" "a_enc_certificate card_asn1 (cn_eumCertificate n) = Some us"
    "c_enc_notification card_toy n = Some bs"
  define v where "v = pack (meta_members (cn_tbs n))"
  from e(1) have d: "list_all small (meta_members (cn_tbs n))" "small v" "ms = [tlv [0xBF, 0x2F] v]"
    by (auto simp: card_toy_def enc_metadata_def Let_def v_def split: if_splits)
  from e(2,3) have c: "concat es = cn_euiccCertificate n" "concat us = cn_eumCertificate n"
    by (auto simp: toy_asn1_def toy_blocks_def split: if_splits)
  let ?v = "tlv [0xBF, 0x2F] v @ tlv [0x5F, 0x37] (cn_signature n) @ cn_euiccCertificate n @ cn_eumCertificate n"
  from e(1,4) have b: "whole (cn_euiccCertificate n)" "whole (cn_eumCertificate n)" "small (cn_signature n)" "small ?v" "bs = [tlv [0x30] ?v]"
    by (auto simp: card_toy_def enc_notification_def Let_def d(3) split: if_splits)
  show "a_dec_other_notification card_asn1 (concat bs) = Some \<lparr>osn_tbs = meta_view (cn_tbs n), osn_signature = cn_signature n\<rparr>"
    using d(2) b unpack_pack [OF d(1)]
    by (simp add: card_asn1_def cut_tlv cut_tlv_end tag_class_num_def v_def [symmetric] meta_read_members [OF m])
  from b(1,2) obtain x y where "cn_euiccCertificate n = tlv [0x30] x" "small x" "cn_eumCertificate n = tlv [0x30] y" "small y"
    by (auto simp: whole_def split: option.splits)
  then show "\<exists>m e u. concat ms = tlv [0xBF, 0x2F] m \<and> concat es = tlv [0x30] e \<and> concat us = tlv [0x30] u \<and>
           concat bs = tlv [0x30] (concat ms @ tlv [0x5F, 0x37] (cn_signature n) @ concat es @ concat us) \<and>
           length m \<le> 0xFFFFFFFF \<and> length e \<le> 0xFFFFFFFF \<and> length u \<le> 0xFFFFFFFF \<and>
           length (concat ms @ tlv [0x5F, 0x37] (cn_signature n) @ concat es @ concat us) \<le> 0xFFFFFFFF"
    using d(2) b(4) by (intro exI [of _ v] exI [of _ x] exI [of _ y]) (simp add: b(5) d(3) c small_def)
qed

section \<open>The material\<close>

definition card_mbed :: "(bytes, unit, bytes, bytes) mbedtls" where
  "card_mbed = toy_mbed\<lparr>m_crt_parse := (\<lambda>cb der. if take 2 der = [0x30, 99] \<and> length der = 101 then Some (drop 2 der) else None)\<rparr>"

definition card_cert :: "u8 \<Rightarrow> nat \<Rightarrow> bytes \<Rightarrow> u8 \<Rightarrow> bytes" where
  "card_cert n d eid ca = tlv [0x30] (toy_cert n d eid ca)"

definition card_sgp26 :: sgp26 where
  "card_sgp26 = toy_sgp26\<lparr>ci_der := tlv [0x30] (ci_der toy_sgp26), ci2017_der := tlv [0x30] (ci2017_der toy_sgp26),
     dpauth_der := tlv [0x30] (dpauth_der toy_sgp26), dppb_der := tlv [0x30] (dppb_der toy_sgp26)\<rparr>"

definition card_euicc_der :: bytes where
  "card_euicc_der = card_cert 30 (be_val EUICC_TEST_SK) EUICC_TEST_EID 20"

definition card_eum_der :: bytes where
  "card_eum_der = card_cert 20 11 (replicate 32 0x30) 1"

lemma card_cert_octets:
  "length eid = 32 \<Longrightarrow> card_cert n d eid ca = [0x30, 99] @ toy_cert n d eid ca"
  "length eid = 32 \<Longrightarrow> length (card_cert n d eid ca) = 101"
  by (simp_all add: card_cert_def tlv_def toy_cert_parts rsp_der_length_octets_def)

lemma card_crt:
  assumes "length eid = 32"
  shows "m_crt_parse card_mbed cb (card_cert n d eid ca) = Some (toy_cert n d eid ca)"
    "m_crt_ec card_mbed (toy_cert n d eid ca) = Some ((), toy_point d)"
    "m_crt_subject card_mbed (toy_cert n d eid ca) = [([3], eid)]"
    "m_crt_verify card_mbed (toy_cert n d eid ca) cas = list_ex (\<lambda>x. hd x = ca) cas"
    "m_crt_ski card_mbed (toy_cert n d eid ca) = [n]"
  using toy_crt [OF assms] toy_cert_parts [OF assms]
  by (simp_all add: card_mbed_def card_cert_octets [OF assms] numeral_2_eq_2) (simp_all add: toy_mbed_def)

lemma card_is_ec [simp]: "m_crt_is_ec card_mbed c"
  by (simp add: card_mbed_def toy_mbed_def)

lemma card_cert_codec:
  assumes "length eid = 32"
  shows "a_dec_certificate card_asn1 (card_cert n d eid ca) = Some (card_cert n d eid ca)"
    "a_enc_certificate card_asn1 (card_cert n d eid ca) = Some [card_cert n d eid ca]"
  using card_cert_octets [OF assms, of n d ca] by (simp_all add: toy_asn1_def toy_blocks_def)

lemma card_sgp26_material:
  "ci_der card_sgp26 = card_cert 1 9 (replicate 32 0x30) 1" "ci2017_der card_sgp26 = card_cert 2 8 (replicate 32 0x30) 2"
  "dpauth_der card_sgp26 = card_cert 3 5 (replicate 32 0x30) 1" "dppb_der card_sgp26 = card_cert 4 6 (replicate 32 0x30) 1"
  "dpauth_key_pem card_sgp26 = be_bytes 32 5" "dppb_key_pem card_sgp26 = be_bytes 32 6"
  by (simp_all add: card_sgp26_def card_cert_def toy_material) (simp_all add: toy_sgp26_def)

lemma card_mbed_same [simp]: "m_sha256 card_mbed = m_sha256 toy_mbed" "m_sign_det card_mbed = m_sign_det toy_mbed"
  "m_mpi_read card_mbed = be_val" "m_mpi_write card_mbed = m_mpi_write toy_mbed" "m_p256 card_mbed = ()"
  "m_mul_g card_mbed = m_mul_g toy_mbed" "m_point_read card_mbed = m_point_read toy_mbed"
  "m_point_write card_mbed = m_point_write toy_mbed" "m_ecdh card_mbed = m_ecdh toy_mbed" "m_verify card_mbed = m_verify toy_mbed"
  "m_pk_parse card_mbed = m_pk_parse toy_mbed" "m_pk_is_ec card_mbed = m_pk_is_ec toy_mbed"
  "m_pk_write_key card_mbed = m_pk_write_key toy_mbed" "m_oid_serial card_mbed = [3]"
  by (simp_all add: card_mbed_def) (simp_all add: toy_mbed_def)

lemma toy_mbed_parts: "m_mpi_read toy_mbed = be_val" "m_p256 toy_mbed = ()" by (simp_all add: toy_mbed_def)

lemma card_sign_value: "sign_value card_mbed sk tbs = sign_value toy_mbed sk tbs"
  by (simp add: sign_value_def toy_mbed_parts)

lemma card_public_key: "public_key card_mbed sk = Some (toy_point (be_val sk))"
  by (simp add: public_key_def) (simp add: toy_mbed_def)

lemma card_mbed_laws: "cipher_laws card_mbed" "hash_laws card_mbed" "ecdsa_laws card_mbed"
proof -
  show "cipher_laws card_mbed" using toy_cipher_laws by (simp add: cipher_laws_def card_mbed_def)
  show "hash_laws card_mbed" using toy_hash_laws by (simp add: hash_laws_def)
  show "ecdsa_laws card_mbed" using toy_ecdsa_laws by (simp add: ecdsa_laws_def toy_mbed_parts)
qed

lemma card_replay_laws: "replay_laws card_mbed card_asn1 card_toy"
  using card_enc_laws card_ber_laws card_isc_law card_auth_ok_law card_message_laws card_report_laws card_mbed_laws
  by (simp add: replay_laws_def card_laws_def card_public_key)

lemma card_signs:
  assumes "length sk = 32"
  obtains sig where "sign_value card_mbed sk tbs = Some sig" "length sig = 64"
proof -
  have "be_val (m_sha256 toy_mbed tbs) < 256 ^ 32" "be_val sk < 256 ^ 32"
    using be_val_bound [of "m_sha256 toy_mbed tbs"] be_val_bound [of sk] assms by (simp_all add: toy_mbed_def)
  then have "sign_value card_mbed sk tbs = Some (be_bytes 32 (be_val sk) @ be_bytes 32 (be_val (m_sha256 toy_mbed tbs)))"
    unfolding card_sign_value by (simp add: sign_value_def toy_mbed_def)
  then show ?thesis using that by simp
qed

lemma card_sk_length [simp]: "length EUICC_TEST_SK = 32" by (simp add: EUICC_TEST_SK_def)

lemma card_material_good: "card_material card_mbed card_asn1 card_sgp26 card_euicc_der card_eum_der"
proof -
  have z: "length (replicate 32 (0x30 :: u8)) = 32" by simp
  have c: "chain_good card_mbed card_sgp26 card_eum_der card_euicc_der"
    by (simp add: chain_good_def ext_cert_def card_euicc_der_def card_eum_der_def card_sgp26_material card_crt toy_cert_parts)
  have e: "ext_cert card_mbed card_euicc_der = Some (toy_cert 30 (be_val EUICC_TEST_SK) EUICC_TEST_EID 20)"
    by (simp add: ext_cert_def card_euicc_der_def card_crt)
  have "EUICC_TEST_EID \<noteq> []" by (simp add: EUICC_TEST_EID_def c_string_def)
  then have x: "extract_eid card_mbed (m_crt_subject card_mbed (toy_cert 30 (be_val EUICC_TEST_SK) EUICC_TEST_EID 20)) 32 = Some EUICC_TEST_EID"
    by (simp add: card_crt)
  have p: "m_mul_g toy_mbed () (be_val EUICC_TEST_SK) = Some (toy_point (be_val EUICC_TEST_SK))" by (simp add: toy_mbed_def)
  have n: "card_euicc_der \<noteq> []" using card_cert_octets(2) [OF fixture_sizes(6)] unfolding card_euicc_der_def by (metis list.size(3) zero_neq_numeral)
  have d: "\<forall>der \<in> {card_euicc_der, card_eum_der}. \<exists>c. a_dec_certificate card_asn1 der = Some c \<and>
      map_option concat (a_enc_certificate card_asn1 c) = Some der"
    unfolding card_euicc_der_def card_eum_der_def using card_cert_codec [OF fixture_sizes(6)] card_cert_codec [OF z] by simp
  have k: "\<exists>crt q. m_crt_parse card_mbed (rsp_accept_certificate_policies card_mbed) card_euicc_der = Some crt \<and> m_crt_is_ec card_mbed crt \<and>
        m_crt_ec card_mbed crt = Some (m_p256 card_mbed, q) \<and> m_mul_g card_mbed (m_p256 card_mbed) (m_mpi_read card_mbed EUICC_TEST_SK) = Some q"
    by (simp add: card_euicc_der_def card_crt p)
  from n d c e x k show ?thesis by (simp add: card_material_def)
qed

section \<open>The session has a value\<close>

lemma enc_members_some:
  assumes "list_all (\<lambda>x. length x \<le> 1000) xs" "length xs \<le> 10"
  obtains bs where "enc_members xs = Some bs" "concat bs = pack xs" "length (pack xs) \<le> sum_list (map length xs) + 6 * length xs"
proof -
  have l: "length (pack ys) \<le> sum_list (map length ys) + 6 * length ys \<and> sum_list (map length ys) \<le> 1000 * length ys"
    if "list_all (\<lambda>x. length x \<le> 1000) ys" for ys
    using that
  proof (induction ys)
    case (Cons y ys)
    then have "length (tlv [4] y) \<le> 1 + 5 + length y" using length_tlv_le [of y "[4]"] by simp
    with Cons show ?case by (simp add: pack_def)
  qed (simp add: pack_def)
  have "list_all small xs" using assms(1) by (auto simp: list_all_iff small_def)
  moreover have "length (pack xs) \<le> 2 ^ 63 - 1" using l [OF assms(1)] assms(2) by simp
  ultimately show ?thesis using l [OF assms(1)] that by (simp add: enc_members_def toy_blocks_def)
qed

lemma fits_members:
  assumes "list_all (\<lambda>x. length x \<le> 1000) xs" "length xs \<le> 10" "sum_list (map length xs) + 6 * length xs \<le> cap"
  shows "fits cap (enc_members xs) = Some (pack xs)"
  by (rule enc_members_some [OF assms(1,2)]) (use assms(3) in \<open>simp add: fits_def\<close>)

lemma card_dp: "dp_credential card_mbed card_sgp26 role =
   Some \<lparr>cr_der = Buf (if role = 0 then dpauth_der card_sgp26 else dppb_der card_sgp26),
         cr_sk = be_bytes 32 (if role = 0 then 5 else 6)\<rparr>"
  by (simp add: dp_credential_def card_sgp26_material(5,6)) (simp add: toy_mbed_def)

lemma smdp_sizes [simp]: "length SMDP_ADDR = 16" "length SMDP_ADDRESS = 16"
  by (simp_all add: SMDP_ADDR_def SMDP_ADDRESS_def c_string_def)

lemma zero_eid: "length (replicate 32 (0x30 :: u8)) = 32" by simp

lemma card_init_response:
  obtains ir init where "init_response_of card_mbed card_asn1 card_sgp26
      (server_signed1_of TRANSACTION_ID EUICC_CHALLENGE SMDP_ADDRESS SERVER_CHALLENGE) = Some ir"
    "a_enc_init_auth_ok card_asn1 ir = Some init"
proof -
  let ?ss1 = "server_signed1_of TRANSACTION_ID EUICC_CHALLENGE SMDP_ADDRESS SERVER_CHALLENGE"
  obtain sig where s: "sign_value card_mbed (be_bytes 32 5) (concat [TRANSACTION_ID, EUICC_CHALLENGE, SMDP_ADDRESS, SERVER_CHALLENGE]) = Some sig"
    "length sig = 64" by (rule card_signs [of "be_bytes 32 5"]) simp_all
  have e: "a_enc_server_signed1 card_asn1 ?ss1 = Some [TRANSACTION_ID, EUICC_CHALLENGE, SMDP_ADDRESS, SERVER_CHALLENGE]"
    by (simp add: toy_asn1_def toy_blocks_def server_signed1_of_def)
  let ?ir = "\<lparr>ia_transactionId = TRANSACTION_ID, ia_serverSigned1 = ?ss1, ia_serverSignature1 = sig,
      ia_euiccCiPKIdToBeUsed = [1], ia_serverCertificate = dpauth_der card_sgp26\<rparr>"
  have "init_response_of card_mbed card_asn1 card_sgp26 ?ss1 = Some ?ir"
    using s(1) by (simp add: init_response_of_def card_dp e card_sgp26_material card_crt card_cert_codec del: card_asn1_same)
      (simp add: server_signed1_of_def)
  moreover have "a_enc_init_auth_ok card_asn1 ?ir = Some [TRANSACTION_ID, sig, [1], dpauth_der card_sgp26]"
    using s(2) by (simp add: toy_asn1_def toy_blocks_def card_sgp26_material card_cert_octets toy_cert_parts)
  ultimately show ?thesis by (rule that)
qed

lemma card_auth_some:
  obtains rok asr where "card_auth_of card_mbed card_asn1 card_toy TRANSACTION_ID SERVER_CHALLENGE card_euicc_der card_eum_der = Some rok"
    "fits 4096 (c_enc_auth_server_response card_toy (AuthenticateResponseOk rok)) = Some asr" "length (ar_euiccSignature1 rok) = 64"
proof -
  let ?es1 = "card_es1 card_toy TRANSACTION_ID SERVER_CHALLENGE"
  have e: "fits 2048 (a_enc_euicc_signed1 card_asn1 ?es1) = Some (TRANSACTION_ID @ SERVER_CHALLENGE)"
    by (simp add: toy_asn1_def toy_blocks_def fits_def card_es1_def)
  obtain sig where s: "sign_value card_mbed EUICC_TEST_SK (TRANSACTION_ID @ SERVER_CHALLENGE) = Some sig" "length sig = 64"
    by (rule card_signs [OF card_sk_length])
  let ?rok = "\<lparr>ar_euiccSigned1 = ?es1, ar_euiccSignature1 = sig, ar_euiccCertificate = card_euicc_der, ar_eumCertificate = card_eum_der\<rparr>"
  have c: "a_dec_certificate card_asn1 card_euicc_der = Some card_euicc_der" "a_dec_certificate card_asn1 card_eum_der = Some card_eum_der"
    "length card_euicc_der = 101" "length card_eum_der = 101"
    unfolding card_euicc_der_def card_eum_der_def
    using card_cert_codec(1) card_cert_octets(2) fixture_sizes(6) zero_eid by blast+
  have r: "card_auth_of card_mbed card_asn1 card_toy TRANSACTION_ID SERVER_CHALLENGE card_euicc_der card_eum_der = Some ?rok"
    using e s c by (simp add: card_auth_of_def del: card_asn1_same)
  have i: "length (c_info2 card_toy card_info2) = 3" "length (c_ctx_params1 card_toy [0, 0, 0, 0]) = 4"
    by (simp_all add: card_toy_def card_info2_def)
  let ?xs = "[TRANSACTION_ID, SMDP_ADDR, SERVER_CHALLENGE, c_info2 card_toy card_info2, c_ctx_params1 card_toy [0, 0, 0, 0], sig, card_euicc_der, card_eum_der]"
  have "fits 4096 (enc_members ?xs) = Some (pack ?xs)"
    by (rule fits_members) (simp_all add: c i s)
  then have "fits 4096 (c_enc_auth_server_response card_toy (AuthenticateResponseOk ?rok)) = Some (pack ?xs)"
    by (simp add: card_toy_def Let_def card_es1_def)
  from that [OF r this] s(2) show ?thesis by simp
qed

lemma card_md_some:
  obtains md where "fits 512 (c_enc_store_metadata card_toy fixture_metadata) = Some md" "length md \<le> 60" "md \<noteq> []"
    "a_dec_store_metadata card_asn1 md = Some fixture_metadata"
proof -
  let ?xs = "[ICCID, c_string ''euicc-rsp'', c_string ''euicc-rsp test profile'']"
  have f: "fits 60 (enc_members ?xs) = Some (pack ?xs)" "fits 512 (enc_members ?xs) = Some (pack ?xs)"
    by (rule fits_members; simp add: c_string_def)+
  have m: "fits 512 (c_enc_store_metadata card_toy fixture_metadata) = Some (pack ?xs)"
    using f(2) by (simp add: card_toy_def fixture_metadata_def)
  have "length (pack ?xs) \<le> 60" by (rule fits_length [OF f(1)])
  with m message_lawsD(3) [OF card_replay_laws _ m] that show ?thesis by (simp add: fixture_metadata_def)
qed

lemma card_response_some:
  assumes "length sig1 = 64" "a_dec_store_metadata card_asn1 md = Some fixture_metadata"
  obtains ar ac where "auth_response_of card_mbed card_asn1 card_sgp26 TRANSACTION_ID sig1 md = Some ar"
    "a_enc_auth_client_ok card_asn1 ar = Some ac" "length (ac_smdpSignature2 ar) = 64"
proof -
  let ?sd2 = "\<lparr>sd2_transactionId = TRANSACTION_ID, sd2_ccRequiredFlag = False, sd2_bppEuiccOtpk = None\<rparr>"
  have e: "a_enc_smdp_signed2 card_asn1 ?sd2 = Some [TRANSACTION_ID]" by (simp add: toy_asn1_def toy_blocks_def)
  obtain sig where s: "sign_value card_mbed (be_bytes 32 6) (TRANSACTION_ID @ tlv [0x5F, 0x37] sig1) = Some sig" "length sig = 64"
    by (rule card_signs [of "be_bytes 32 6"]) simp_all
  let ?ar = "\<lparr>ac_transactionId = TRANSACTION_ID, ac_profileMetaData = fixture_metadata, ac_smdpSigned2 = ?sd2,
    ac_smdpSignature2 = sig, ac_smdpCertificate = dppb_der card_sgp26\<rparr>"
  have r: "auth_response_of card_mbed card_asn1 card_sgp26 TRANSACTION_ID sig1 md = Some ?ar"
    using s e assms(2) by (simp add: auth_response_of_def Let_def card_dp card_sgp26_material card_cert_codec del: card_asn1_same)
  let ?v = "tlv [0x80] TRANSACTION_ID @ tlv [0xBF, 0x25] [] @ tlv [0x30] [] @ tlv [0x5F, 0x37] sig @ tlv [0x30] []"
  have "length ?v \<le> 200"
    using length_tlv_le [of TRANSACTION_ID "[0x80]"] length_tlv_le [of "[]" "[0xBF, 0x25]"] length_tlv_le [of "[]" "[0x30]"]
      length_tlv_le [of sig "[0x5F, 0x37]"] s(2) by simp
  then have "small (tlv [0x30] ?v)"
    using length_tlv_le [of ?v "[0x30]"] by (simp add: small_def)
  then have "a_enc_auth_client_ok card_asn1 ?ar = Some [tlv [0xBF, 0x3B] (tlv [0x30] ?v)]"
    by (simp add: card_asn1_def Let_def)
  from that [OF r this] s(2) show ?thesis by simp
qed

lemma card_download_some:
  assumes "length sig2 = 64"
  obtains dok pdr where "card_download_of card_mbed card_asn1 TRANSACTION_ID EUICC_OTPK sig2 = Some dok"
    "fits 512 (c_enc_prepare_download card_toy (DownloadResponseOk dok)) = Some pdr" "es2_euiccOtpk (pd_euiccSigned2 dok) = EUICC_OTPK"
proof -
  let ?es2 = "\<lparr>es2_transactionId = TRANSACTION_ID, es2_euiccOtpk = EUICC_OTPK, es2_hashCc = None\<rparr>"
  have e: "fits 445 (a_enc_euicc_signed2 card_asn1 ?es2) = Some (TRANSACTION_ID @ EUICC_OTPK)"
    by (simp add: toy_asn1_def toy_blocks_def fits_def)
  obtain sig where s: "sign_value card_mbed EUICC_TEST_SK ((TRANSACTION_ID @ EUICC_OTPK) @ [0x5F, 0x37, 64] @ sig2) = Some sig" "length sig = 64"
    by (rule card_signs [OF card_sk_length])
  let ?dok = "\<lparr>pd_euiccSigned2 = ?es2, pd_euiccSignature2 = sig\<rparr>"
  have r: "card_download_of card_mbed card_asn1 TRANSACTION_ID EUICC_OTPK sig2 = Some ?dok"
    using e s by (simp add: card_download_of_def Let_def del: card_asn1_same)
  let ?xs = "[TRANSACTION_ID, EUICC_OTPK, sig]"
  have "fits 512 (enc_members ?xs) = Some (pack ?xs)" by (rule fits_members) (simp_all add: s)
  then have "fits 512 (c_enc_prepare_download card_toy (DownloadResponseOk ?dok)) = Some (pack ?xs)"
    by (simp add: card_toy_def)
  from that [OF r this] show ?thesis by simp
qed

lemma card_package_some:
  assumes "length md \<le> 60" "md \<noteq> []" "length sig2 = 64" "es2_euiccOtpk es2 = EUICC_OTPK"
  obtains bpp ks where "download_of card_mbed card_asn1 card_sgp26 (fixture_s2 junk card_euicc_der md sig2) es2 EID_OCTETS UPP OTSK_DP
    = Some (bpp, ks)"
proof -
  have "x mod 256 ^ 32 < (256 ^ 32 :: nat)" for x by simp
  then have "\<exists>k0. session_keys card_mbed OTSK_DP EUICC_OTPK EID_OCTETS = Some k0"
    by (simp add: session_keys_def ecdh_value_def) (simp add: toy_mbed_def)
  then obtain k0 where k: "session_keys card_mbed OTSK_DP EUICC_OTPK EID_OCTETS = Some k0" ..
  define otpk where "otpk = toy_point (be_val OTSK_DP)"
  obtain sig where s: "sign_value card_mbed (be_bytes 32 6) (isc_tbs TRANSACTION_ID otpk EUICC_OTPK) = Some sig" "length sig = 64"
    by (rule card_signs [of "be_bytes 32 6"]) simp_all
  define isc where "isc = \<lparr>isc_remoteOpId = 1, isc_transactionId = TRANSACTION_ID, isc_keyType = [0x88],
          isc_keyLen = [0x10], isc_hostId = RSP_HOST_ID, isc_smdpOtpk = otpk, isc_smdpSign = sig\<rparr>"
  define v where "v = TRANSACTION_ID @ otpk @ sig"
  have i: "isc_of card_mbed (be_bytes 32 6) TRANSACTION_ID otpk EUICC_OTPK = Some isc" using s(1) by (simp add: isc_of_def isc_def)
  have lo: "length otpk = 65" by (simp add: otpk_def)
  have lv: "length v = 145" by (simp add: v_def otpk_def s(2))
  then have li: "length (tlv [0xBF, 0x23] v) \<le> 1000" using length_tlv_le [of v "[0xBF, 0x23]"] by simp
  have e: "a_enc_isc card_asn1 isc = Some [tlv [0xBF, 0x23] v]"
    using li lo s(2) unfolding v_def by (simp add: toy_asn1_def isc_def toy_blocks_def)
  have c: "a_enc_configure card_asn1 build_configure = Some [[0xBF, 0x24], [0]]"
    by (simp add: toy_asn1_def toy_blocks_def)
  have ch: "chunks 1007 UPP = [UPP]"
    using fixture_sizes(7,8) by (subst chunks.simps) (simp add: chunks.simps [of 1007 "[]"])
  define content where "content = fst (bpp_parts card_mbed k0 (tlv [0xBF, 0x23] v) [0xBF, 0x24, 0] md UPP)"
  have "length content \<le> 0xFFFFFFFF"
  proof -
    note len = length_sealed [OF card_mbed_laws(1)] length_macced [OF card_mbed_laws(1)]
    have t: "length (tlv t x) \<le> length t + 5 + n" if "length x \<le> n" "n \<le> 0xFFFFFFFF" for t x n
      using length_tlv_le [of x t] that by simp
    have "length (tlv [0xA0] (tlv [0x87] (sealed card_mbed 0x87 s1 [0xBF, 0x24, 0]))) \<le> 36" for s1
      using t [of "tlv [0x87] (sealed card_mbed 0x87 s1 [0xBF, 0x24, 0])" 30 "[0xA0]"] t [of "sealed card_mbed 0x87 s1 [0xBF, 0x24, 0]" 24 "[0x87]"]
      by (simp add: len)
    moreover have "length (tlv [0xA1] (tlv [0x88] (macced card_mbed 0x88 s1 md))) \<le> 80" for s1
      using t [of "tlv [0x88] (macced card_mbed 0x88 s1 md)" 74 "[0xA1]"] t [of "macced card_mbed 0x88 s1 md" 68 "[0x88]"] assms(1)
      by (simp add: len)
    moreover have "length (tlv [0xA3] (tlvs 0x86 [sealed card_mbed 0x86 s1 UPP])) \<le> 52" for s1
      using t [of "tlv [0x86] (sealed card_mbed 0x86 s1 UPP)" 46 "[0xA3]"] t [of "sealed card_mbed 0x86 s1 UPP" 40 "[0x86]"]
      by (simp add: len tlvs_def)
    ultimately have "length content \<le> 1000 + (36 + (80 + 52))"
      using li unfolding content_def bpp_parts_def Let_def ch
      by (simp only: seal_all.simps prod.case fst_conv length_append) (intro add_mono)
    then show ?thesis by simp
  qed
  then have b: "\<exists>r. bpp_of card_mbed card_asn1 k0 (download_input (fixture_s2 junk card_euicc_der md sig2) es2 UPP otpk
      \<lparr>cr_der = Buf (dppb_der card_sgp26), cr_sk = be_bytes 32 6\<rparr>) = Some r"
    using i e c by (simp add: bpp_of_def Let_def content_def download_input_def fixture_s2_def fixture_s1_def assms(4) del: card_asn1_same)
  then show ?thesis
    using that k by (auto simp: download_of_def assms(4) card_public_key card_dp otpk_def [symmetric])
qed

lemma card_pending_some:
  obtains pn where "pending_of card_mbed card_toy = Some pn"
proof -
  let ?d = "\<lparr>cd_transactionId = TRANSACTION_ID, cd_metadata = \<lparr>nm_seqNumber = [1], nm_operation = [0x80], nm_bits_unused = 0,
     nm_iccid = Some PIR_ICCID, nm_notificationAddress = SMDP_ADDR\<rparr>, cd_smdpOid = [2, 231],
     cd_finalResult = CardSuccess PIR_AID [0x30, 0x00]\<rparr>"
  let ?xs = "result_members ?d"
  have r: "card_result_of card_toy TRANSACTION_ID True = Some ?d"
    by (simp add: card_result_of_def card_toy_def)
  have xs: "list_all (\<lambda>x. length x \<le> 16) ?xs" "length ?xs = 10"
    by (simp_all add: result_members_def meta_members_def PIR_ICCID_def PIR_AID_def)
  obtain bs where p: "length (pack ?xs) \<le> sum_list (map length ?xs) + 60"
    by (rule enc_members_some [of ?xs]) (use xs in \<open>auto simp: list_all_iff\<close>)
  have "sum_list (map length ?xs) \<le> 100"
    by (simp add: result_members_def meta_members_def PIR_ICCID_def PIR_AID_def)
  with p have l: "length (pack ?xs) \<le> 160" by simp
  let ?v = "pack ?xs"
  have sm: "list_all small ?xs" "small ?v" using xs(1) l by (auto simp: list_all_iff small_def)
  have e: "c_enc_result_data card_toy ?d = Some [tlv [0xBF, 0x27] ?v]"
    using sm by (simp add: card_toy_def enc_result_data_def Let_def)
  have t: "length (tlv [0xBF, 0x27] ?v) \<le> 167" using length_tlv_le [of ?v "[0xBF, 0x27]"] l by simp
  obtain sig where s: "sign_value card_mbed EUICC_TEST_SK (tlv [0xBF, 0x27] ?v) = Some sig" "length sig = 64"
    by (rule card_signs [OF card_sk_length])
  let ?w = "tlv [0xBF, 0x27] ?v @ tlv [0x5F, 0x37] sig"
  have w: "length ?w \<le> 238" using t length_tlv_le [of sig "[0x5F, 0x37]"] s(2) by simp
  then have o: "length (tlv [0xBF, 0x37] ?w) \<le> 245" using length_tlv_le [of ?w "[0xBF, 0x37]"] by simp
  have f: "c_enc_result card_toy ?d sig = Some [tlv [0xBF, 0x37] ?w]"
    using e w s(2) by (simp add: card_toy_def enc_result_def Let_def small_def)
  have "card_report_of card_mbed card_toy TRANSACTION_ID True = Some (?d, sig)"
    using t s by (simp add: card_report_of_def r e fits_def)
  then have "pending_of card_mbed card_toy = Some (tlv [0xBF, 0x37] ?w)"
    using o by (simp add: pending_of_def f fits_def)
  then show ?thesis by (rule that)
qed

lemma card_replay_some:
  obtains r where "replay_of card_mbed card_asn1 card_toy card_sgp26 junk card_euicc_der card_eum_der = Some r"
proof -
  have i: "fits 512 (c_enc_euicc_info1 card_toy [2, 0, 0]) = Some (pack [[2, 0, 0]])"
    using fits_members [of "[[2, 0, 0]]" 512] by (simp add: card_toy_def)
  obtain ir init where ir: "init_response_of card_mbed card_asn1 card_sgp26
      (server_signed1_of TRANSACTION_ID EUICC_CHALLENGE SMDP_ADDRESS SERVER_CHALLENGE) = Some ir"
    "a_enc_init_auth_ok card_asn1 ir = Some init" by (rule card_init_response)
  obtain rok asr where a: "card_auth_of card_mbed card_asn1 card_toy TRANSACTION_ID SERVER_CHALLENGE card_euicc_der card_eum_der = Some rok"
    "fits 4096 (c_enc_auth_server_response card_toy (AuthenticateResponseOk rok)) = Some asr" "length (ar_euiccSignature1 rok) = 64"
    by (rule card_auth_some)
  obtain md where m: "fits 512 (c_enc_store_metadata card_toy fixture_metadata) = Some md" "length md \<le> 60" "md \<noteq> []"
    "a_dec_store_metadata card_asn1 md = Some fixture_metadata" by (rule card_md_some)
  obtain ar ac where c: "auth_response_of card_mbed card_asn1 card_sgp26 TRANSACTION_ID (ar_euiccSignature1 rok) md = Some ar"
    "a_enc_auth_client_ok card_asn1 ar = Some ac" "length (ac_smdpSignature2 ar) = 64"
    by (rule card_response_some [OF a(3) m(4)])
  obtain dok pdr where d: "card_download_of card_mbed card_asn1 TRANSACTION_ID EUICC_OTPK (ac_smdpSignature2 ar) = Some dok"
    "fits 512 (c_enc_prepare_download card_toy (DownloadResponseOk dok)) = Some pdr" "es2_euiccOtpk (pd_euiccSigned2 dok) = EUICC_OTPK"
    by (rule card_download_some [OF c(3)])
  obtain bpp ks where "download_of card_mbed card_asn1 card_sgp26 (fixture_s2 junk card_euicc_der md (ac_smdpSignature2 ar))
      (pd_euiccSigned2 dok) EID_OCTETS UPP OTSK_DP = Some (bpp, ks)"
    by (rule card_package_some [OF m(2,3) c(3) d(3)])
  with i ir a m c d that show ?thesis by (simp add: replay_of_def del: card_asn1_same)
qed

end
