(* ===== verification/Dump.thy ===== *)
theory Dump
  imports Recover Computes
begin

text \<open>
  \<open>tools/bpp-dump.c\<close>: \<open>slurp\<close>, the tool's own TLV reader \<open>tlv\<close> (here \<open>dump_tlv\<close>), \<open>group_name\<close>,
  \<open>hexdump\<close>, \<open>walk\<close> and \<open>demo_session\<close>, with the text they print as a string. A TLV that does not
  fit, where the C function returns 0, is the stop \<open>Minus1\<close>. \<open>item\<close> is a package's structure as
  a tree; on the octets of any tree of the tags the tool knows, \<open>walk\<close> prints its rendering.
  The reader agrees with the library's \<open>parse_tlv\<close> where both apply.
\<close>

unbundle bit_operations_syntax

section \<open>Reading a file\<close>

text \<open>The argument is what the file system has under the path: the file's octets, or \<open>None\<close> where
  \<open>fopen\<close> fails. NULL is the stop \<open>Minus1\<close>.\<close>

definition slurp :: "bytes option \<Rightarrow> ('x, bytes) cm" where
  "slurp file =
     bnd (ext Minus1 file) (\<lambda>f.
     bnd (ext Minus1 (Some ())) (\<lambda>_.
     bnd (ext Minus1 (Some (length f))) (\<lambda>n.
     bnd (ext Minus1 (Some ())) (\<lambda>_.
     bnd (malloc Minus1 (if n \<noteq> 0 then n else 1)) (\<lambda>_.
     bnd (ext Minus1 (Some (take n f))) (\<lambda>b.
     bnd (ensure (\<not> length b \<noteq> n) Minus1) (\<lambda>_.
     ret b)))))))"

lemma slurp_computes [computes_intros]: "computes (slurp file) file"
proof -
  have "computes (slurp file) (Option.bind file Some)"
    unfolding slurp_def
    by (rule computes_bnd, rule computes_ext)
      (simp add: computes_step [OF computes_ext] computes_step [OF computes_malloc] computes_step [OF computes_ret]
        computes_ret ensure_def)
  then show ?thesis by simp
qed

section \<open>Reading one TLV\<close>

text \<open>The length octets at \<open>i\<close>: where the value starts and its length.\<close>

definition dump_tlv_len :: "bytes \<Rightarrow> nat \<Rightarrow> ('x, nat \<times> nat) cm" where
  "dump_tlv_len p i =
     (let n = length p in
     bnd (ensure (\<not> i \<ge> n) Minus1) (\<lambda>_.
     bnd (rd p i) (\<lambda>l.
     let i = i + 1 in
     bnd (if l AND 0x80 \<noteq> 0 then
            let k = unat (l AND 0x7F) in
            bnd (ensure (\<not> (k = 0 \<or> k > 4 \<or> i + k > n)) Minus1) (\<lambda>_.
            bnd (len_loop p i k 0) (\<lambda>len. ret (i + k, unat len)))
          else ret (i, unat l)) (\<lambda>(i, len).
     bnd (ensure (\<not> i + len > n) Minus1) (\<lambda>_.
     ret (i, len))))))"

text \<open>The result: the tag, where the value starts, and the value's length.\<close>

definition dump_tlv :: "bytes \<Rightarrow> ('x, 32 word \<times> nat \<times> nat) cm" where
  "dump_tlv p =
     (let n = length p in
     bnd (ensure (\<not> n < 2) Minus1) (\<lambda>_.
     bnd (rd p 0) (\<lambda>b.
     bnd (if (ucast b :: 32 word) AND 0x1F = 0x1F then
            bnd (ensure (\<not> 1 \<ge> n) Minus1) (\<lambda>_.
            bnd (rd p 1) (\<lambda>c. ret (push_bit 8 (ucast b) OR ucast c, 2)))
          else ret (ucast b, 1)) (\<lambda>(tag, i).
     bnd (dump_tlv_len p i) (\<lambda>(hdr, len).
     ret (tag, hdr, len))))))"

definition quoted :: "string \<Rightarrow> string" where
  "quoted s = [CHR 0x27] @ s @ [CHR 0x27]"

definition group_name :: "32 word \<Rightarrow> string option" where
  "group_name tag =
     (if tag = 0xBF36 then Some ''BoundProfilePackage''
      else if tag = 0xBF23 then Some ''initialiseSecureChannelRequest''
      else if tag = 0xA0 then Some ''firstSequenceOf87  (configureISDP)''
      else if tag = 0xA1 then Some ''sequenceOf88       (storeMetadata)''
      else if tag = 0xA2 then Some ''secondSequenceOf87 (replaceSessionKeys)''
      else if tag = 0xA3 then Some ''sequenceOf86       (the profile segments)''
      else if tag = 0x86 then Some (quoted ''86'' @ '' protected segment'')
      else if tag = 0x87 then Some (quoted ''87'' @ '' element'')
      else if tag = 0x88 then Some (quoted ''88'' @ '' element'')
      else None)"

section \<open>Printing\<close>

text \<open>The conversions of \<open>printf\<close> the tool uses: \<open>%X\<close>, \<open>%zu\<close>, and padding to a width.\<close>

definition hex_digit :: "nat \<Rightarrow> char" where
  "hex_digit d = ''0123456789ABCDEF'' ! d"

fun base_str :: "nat \<Rightarrow> nat \<Rightarrow> string" where
  "base_str b n = (if b < 2 \<or> n < b then [hex_digit n] else base_str b (n div b) @ [hex_digit (n mod b)])"

declare base_str.simps [simp del]

definition lpad :: "char \<Rightarrow> nat \<Rightarrow> string \<Rightarrow> string" where
  "lpad c w s = replicate (w - length s) c @ s"

definition rpad :: "nat \<Rightarrow> string \<Rightarrow> string" where
  "rpad w s = s @ replicate (w - length s) (CHR '' '')"

definition blanks :: "nat \<Rightarrow> string" where
  "blanks n = replicate n (CHR '' '')"

definition hex02 :: "u8 \<Rightarrow> string" where
  "hex02 b = lpad (CHR ''0'') 2 (base_str 16 (unat b))"

definition newline :: string where
  "newline = [CHR 0x0A]"

text \<open>One row of \<open>hexdump\<close>, at most sixteen octets: their hexadecimal digits, then the octets that
  are printable characters as such.\<close>

definition dump_char :: "u8 \<Rightarrow> char" where
  "dump_char c = (if c \<ge> 0x20 \<and> c < 0x7F then char_of (unat c) else CHR ''.'')"

definition hex_row :: "string \<Rightarrow> bytes \<Rightarrow> string" where
  "hex_row indent row =
     indent @ concat (map (\<lambda>b. hex02 b @ '' '') row) @ concat (replicate (16 - length row) ''   '') @
     '' |'' @ map dump_char row @ ''|'' @ newline"

function hex_rows :: "string \<Rightarrow> bytes \<Rightarrow> string" where
  "hex_rows indent xs =
     (if xs = [] then [] else hex_row indent (take 16 xs) @ hex_rows indent (drop 16 xs))"
  by pat_completeness auto
termination
  by (relation "measure (\<lambda>(_, xs). length xs)") auto

declare hex_rows.simps [simp del]

definition hexdump :: "bytes \<Rightarrow> nat \<Rightarrow> string \<Rightarrow> string" where
  "hexdump p mx indent =
     (let n = length p; shown = (if n < mx then n else mx) in
      hex_rows indent (take shown p) @
      (if shown < n then indent @ ''... '' @ base_str 10 (n - shown) @ '' more bytes'' @ newline else []))"

text \<open>\<open>printf("%*s%04X  %-38s %6zu bytes\\n", ...)\<close>\<close>

definition head_line :: "nat \<Rightarrow> 32 word \<Rightarrow> nat \<Rightarrow> string" where
  "head_line depth tag len =
     blanks (depth * 2) @ lpad (CHR ''0'') 4 (base_str 16 (unat tag)) @ ''  '' @
     rpad 38 (case group_name tag of Some name \<Rightarrow> name | None \<Rightarrow> ''(unknown tag)'') @ '' '' @
     lpad (CHR '' '') 6 (base_str 10 len) @ '' bytes'' @ newline"

text \<open>What is printed of a value that is not descended into: a protected segment is ciphertext
  followed by its eight-octet C-MAC.\<close>

definition leaf_lines :: "nat \<Rightarrow> 32 word \<Rightarrow> bytes \<Rightarrow> string" where
  "leaf_lines depth tag v =
     (if tag = 0x86 \<and> length v > 8 then
        blanks ((depth + 1) * 2) @ ''ciphertext '' @ base_str 10 (length v - 8) @ '' bytes:'' @ newline @
        hexdump (take (length v - 8) v) 32 ''      '' @
        blanks ((depth + 1) * 2) @ ''C-MAC:'' @ newline @
        hexdump (drop (length v - 8) v) 8 ''      ''
      else hexdump v 32 ''      '')"

definition is_group :: "32 word \<Rightarrow> bool" where
  "is_group tag \<longleftrightarrow> tag = 0xBF36 \<or> (tag \<ge> 0xA0 \<and> tag \<le> 0xA3)"


text \<open>The reader ends, stays inside the buffer, and what it accepts fits.\<close>

lemma dump_tlv_wp:
  "wp (dump_tlv p) (\<lambda>(tag, hdr, len) w'. w' = w \<and> 2 \<le> hdr \<and> hdr + len \<le> length p)
     (\<lambda>e w'. e = Minus1 \<and> w' = w) w"
  unfolding dump_tlv_def dump_tlv_len_def Let_def by (simp add: wp_simps Let_def not_less not_le)

definition dump_read :: "bytes \<Rightarrow> stop + 32 word \<times> nat \<times> nat" where
  "dump_read p = fst (dump_tlv p \<lparr>faults = [], loc = ()\<rparr>)"

lemma dump_read_cases:
  obtains "dump_read p = Inl Minus1"
  | tag hdr len where "dump_read p = Inr (tag, hdr, len)" "2 \<le> hdr" "hdr + len \<le> length p"
  using dump_tlv_wp [of p "\<lparr>faults = [], loc = ()\<rparr>"] unfolding dump_read_def wp_def
  by (cases "fst (dump_tlv p \<lparr>faults = [], loc = ()\<rparr>)") (auto split: prod.splits)

section \<open>Walking a package\<close>

function walk :: "bytes \<Rightarrow> nat \<Rightarrow> stop + string" where
  "walk p depth =
     (if p = [] then Inr []
      else case dump_read p of
        Inl e \<Rightarrow>
          if e = Minus1 then
            Inr (blanks (depth * 2) @ ''('' @ base_str 10 (length p) @
                 '' trailing bytes that are not a TLV)'' @ newline)
          else Inl e
      | Inr (tag, hdr, len) \<Rightarrow>
          (case (if is_group tag then walk (take len (drop hdr p)) (depth + 1)
                 else Inr (leaf_lines depth tag (take len (drop hdr p)))) of
             Inl e \<Rightarrow> Inl e
           | Inr body \<Rightarrow>
               (case walk (drop (hdr + len) p) depth of
                  Inl e \<Rightarrow> Inl e
                | Inr rest \<Rightarrow> Inr (head_line depth tag len @ body @ rest))))"
  by pat_completeness auto
termination
proof (relation "measure (\<lambda>(p, _). length p)", goal_cases)
  case 1
  show ?case by simp
next
  case (2 p depth r x tag hdr len)
  then show ?case by (cases p rule: dump_read_cases) auto
next
  case (3 p depth r x tag hdr len body)
  then show ?case by (cases p rule: dump_read_cases) auto
qed

declare walk.simps [simp del]

lemma walk_Nil [simp]: "walk [] depth = Inr []"
  by (simp add: walk.simps)

lemma walk_total: "\<exists>out. walk p depth = Inr out"
proof (induction p depth rule: walk.induct)
  case (1 p depth)
  show ?case
  proof (cases p rule: dump_read_cases)
    case 1
    then show ?thesis by (subst walk.simps) simp
  next
    case (2 tag hdr len)
    show ?thesis
    proof (cases "p = []")
      case False
      obtain body where b: "(if is_group tag then walk (take len (drop hdr p)) (depth + 1)
          else Inr (leaf_lines depth tag (take len (drop hdr p)))) = Inr body"
        using "1.IH"(1) [OF False 2(1)] by (cases "is_group tag") auto
      with "1.IH"(2) [OF False 2(1) refl refl b] show ?thesis
        using False 2(1) by (subst walk.simps) auto
    qed simp
  qed
qed


section \<open>The two readers agree\<close>

definition dump_tag :: "bytes \<Rightarrow> 32 word" where
  "dump_tag p = (if (ucast (p ! 0) :: 32 word) AND 0x1F = 0x1F then push_bit 8 (ucast (p ! 0)) OR ucast (p ! 1)
     else ucast (p ! 0))"

text \<open>The first TLV of \<open>p\<close> has a tag of one or two octets, and at most four length octets after the first.\<close>

definition short_head :: "bytes \<Rightarrow> bool" where
  "short_head p \<longleftrightarrow>
     (let high = (p ! 0 AND 0x1F = 0x1F); i = (if high then 2 else 1) in
      (high \<and> 1 < length p \<longrightarrow> p ! 1 AND 0x80 = 0) \<and>
      (i < length p \<and> p ! i AND 0x80 \<noteq> 0 \<longrightarrow> unat (p ! i AND 0x7F) \<le> 4))"

lemma tag_bits: "(ucast (b :: u8) :: 32 word) AND 0x1F = 0x1F \<longleftrightarrow> b AND 0x1F = 0x1F"
proof -
  have "(ucast b :: 32 word) AND 0x1F = ucast (b AND 0x1F)"
    by (simp add: unsigned_and_eq)
  moreover have "(ucast (b AND 0x1F) :: 32 word) = 0x1F \<longleftrightarrow> b AND 0x1F = 0x1F"
    by (simp add: word_unat_eq_iff unsigned_ucast_eq take_bit_nat_eq_self [OF order_less_trans [OF unat_u8_less]])
  ultimately show ?thesis by simp
qed

lemma long_form_bit: "(l :: u8) < 0x80 \<longleftrightarrow> l AND 0x80 = 0"
proof
  assume "l < 0x80"
  then show "l AND 0x80 = 0" by (intro tag_octet_bits(2)) (simp add: word_less_nat_alt)
next
  assume 0: "l AND 0x80 = 0"
  have "l = l AND (mask 7 OR NOT (mask 7))" by simp
  also have "\<dots> = (l AND mask 7) OR (l AND NOT (mask 7))" by (rule bit.conj_disj_distrib)
  also have "NOT (mask 7) = (0x80 :: u8)" by (simp add: mask_eq_decr_exp)
  finally have "l = l AND mask 7" using 0 by simp
  then have "l = take_bit 7 l" by (simp add: take_bit_eq_mask)
  moreover have "unat (take_bit 7 l) < 2 ^ 7"
    unfolding unsigned_take_bit_eq by (rule take_bit_nat_less_exp)
  ultimately show "l < 0x80" by (simp add: word_less_nat_alt)
qed

lemma tag_cont_stop:
  assumes "p < end" "end \<le> length buf" "buf ! p AND 0x80 = 0"
  shows "tag_cont buf end p w = (Inr p, w)"
  using assms by (subst tag_cont.simps) (simp add: bnd_def rd_def ret_def)

lemma dump_tlv_len_agrees:
  assumes "lst + 1 < length p \<longrightarrow> p ! (lst + 1) AND 0x80 \<noteq> 0 \<longrightarrow> unat (p ! (lst + 1) AND 0x7F) \<le> 4"
  shows "dump_tlv_len p (lst + 1) w = bnd (parse_tlv_rest p (length p) lst) (\<lambda>(v_off, v_len, _). ret (v_off, v_len)) w"
proof (cases "lst + 1 < length p")
  case False
  then show ?thesis by (simp add: dump_tlv_len_def parse_tlv_rest_def Let_def bnd_def ensure_def stop_with_def)
next
  case True
  define q where "q = lst + 1"
  have q: "q < length p" using True by (simp add: q_def)
  show ?thesis
  proof (cases "p ! q AND 0x80 = 0")
    case short: True
    then show ?thesis using q unfolding dump_tlv_len_def parse_tlv_rest_def q_def [symmetric] Let_def
      by (auto simp: bnd_def ensure_def rd_def ret_def stop_with_def long_form_bit)
  next
    case False
    obtain k where k: "unat (p ! q AND 0x7F) = k" "k \<le> 4" using assms False True unfolding q_def by blast
    show ?thesis
    proof (cases "k = 0 \<or> length p < q + 1 + k")
      case True
      with False q k show ?thesis
        unfolding dump_tlv_len_def parse_tlv_rest_def q_def [symmetric] Let_def
        by (auto simp: k(1) bnd_def ensure_def rd_def ret_def stop_with_def long_form_bit)
    next
      case fits: False
      then have "len_loop p (q + 1) k 0 w = (Inr (word_of_nat (be_val (take k (drop (q + 1) p)))), w)"
        using len_loop_value [of "q + 1" k p 0 w] by simp
      with False fits q k show ?thesis
        unfolding dump_tlv_len_def parse_tlv_rest_def q_def [symmetric] Let_def
        by (auto simp: k(1) bnd_def ensure_def rd_def ret_def stop_with_def long_form_bit)
    qed
  qed
qed

lemma dump_head_agrees:
  assumes d: "dump_tlv p w = bnd (dump_tlv_len p (lst + 1)) (\<lambda>(hdr, len). ret (dump_tag p, hdr, len)) w"
    and q: "parse_tlv p (length p) 0 w = parse_tlv_rest p (length p) lst w"
    and l: "lst + 1 < length p \<longrightarrow> p ! (lst + 1) AND 0x80 \<noteq> 0 \<longrightarrow> unat (p ! (lst + 1) AND 0x7F) \<le> 4"
  shows "dump_tlv p w =
    bnd (parse_tlv p (length p) 0) (\<lambda>(v_off, v_len, _). ret (dump_tag p, v_off, v_len)) w"
  using d dump_tlv_len_agrees [OF l, of w]
  by (cases "parse_tlv_rest p (length p) lst w" rule: prod.exhaust, cases "fst (parse_tlv_rest p (length p) lst w)")
    (auto simp: bnd_def q ret_def)

lemma dump_tlv_agrees:
  assumes "short_head p"
  shows "dump_tlv p w =
    bnd (parse_tlv p (length p) 0) (\<lambda>(v_off, v_len, _). ret (dump_tag p, v_off, v_len)) w"
proof -
  consider "length p < 2" | "2 \<le> length p" "p ! 0 AND 0x1F = 0x1F" | "2 \<le> length p" "p ! 0 AND 0x1F \<noteq> 0x1F"
    by linarith
  then show ?thesis
  proof cases
    case 1
    then have "length p = 0 \<or> length p = 1" by linarith
    then show ?thesis
      by (elim disjE; simp add: dump_tlv_def parse_tlv_def parse_tlv_rest_def cm_defs Let_def tag_cont.simps)
  next
    case 2
    with assms have c: "p ! 1 AND 0x80 = 0"
      and l: "2 < length p \<longrightarrow> p ! 2 AND 0x80 \<noteq> 0 \<longrightarrow> unat (p ! 2 AND 0x7F) \<le> 4"
      by (simp_all add: short_head_def Let_def)
    have n: "p \<noteq> []" using 2(1) by auto
    have t: "tag_cont p (length p) (Suc 0) w = (Inr 1, w)"
      using tag_cont_stop [of 1 "length p" p w] 2(1) c by simp
    show ?thesis
    proof (rule dump_head_agrees [where lst = 1])
      show "dump_tlv p w = bnd (dump_tlv_len p (1 + 1)) (\<lambda>(hdr, len). ret (dump_tag p, hdr, len)) w"
        using 2 n unfolding dump_tlv_def Let_def one_add_one by (simp add: bnd_def ensure_def rd_def ret_def tag_bits dump_tag_def)
      show "parse_tlv p (length p) 0 w = parse_tlv_rest p (length p) 1 w"
        using 2 n t by (simp add: parse_tlv_def bnd_def ensure_def rd_def ret_def)
    qed (use l in \<open>simp only: one_add_one\<close>)
  next
    case 3
    then have n: "p \<noteq> []" by auto
    show ?thesis
    proof (rule dump_head_agrees [where lst = 0])
      show "dump_tlv p w = bnd (dump_tlv_len p (0 + 1)) (\<lambda>(hdr, len). ret (dump_tag p, hdr, len)) w"
        using 3 n unfolding dump_tlv_def Let_def add_0 by (simp add: bnd_def ensure_def rd_def ret_def tag_bits dump_tag_def)
      show "parse_tlv p (length p) 0 w = parse_tlv_rest p (length p) 0 w"
        using 3 n by (simp add: parse_tlv_def bnd_def ensure_def rd_def ret_def)
    qed (use 3 assms in \<open>simp add: short_head_def Let_def\<close>)
  qed
qed

section \<open>What is printed of a package\<close>

text \<open>A sequence of TLVs as a tree: the values of groups are sequences again.\<close>

datatype item = Leaf bytes bytes | Group bytes "item list"

fun encode_item :: "item \<Rightarrow> bytes" where
  "encode_item (Leaf t v) = tlv t v"
| "encode_item (Group t items) = tlv t (concat (map encode_item items))"

text \<open>The tag is one the library writes, lengths fit, and the tool takes exactly the groups for
  groups.\<close>

fun item_ok :: "item \<Rightarrow> bool" where
  "item_ok (Leaf t v) \<longleftrightarrow> tlv_ok t v \<and> \<not> is_group (dump_tag t)"
| "item_ok (Group t items) \<longleftrightarrow> tlv_ok t (concat (map encode_item items)) \<and> is_group (dump_tag t) \<and> list_all item_ok items"

fun render :: "nat \<Rightarrow> item \<Rightarrow> string" where
  "render d (Leaf t v) = head_line d (dump_tag t) (length v) @ leaf_lines d (dump_tag t) v"
| "render d (Group t items) =
     head_line d (dump_tag t) (length (concat (map encode_item items))) @ concat (map (render (d + 1)) items)"

lemma dump_tag_tlv: "tlv_ok t v \<Longrightarrow> dump_tag (tlv t v @ rest) = dump_tag t"
  by (auto simp: tlv_ok_def tag_class_num_def tlv_def dump_tag_def tag_bits tag_octet_bits(1) split: list.splits if_splits)

lemma length_octets_short:
  assumes "rsp_der_length_octets n = Some lo" "hd lo AND 0x80 \<noteq> 0"
  shows "unat (hd lo AND 0x7F) \<le> 4"
proof -
  have "\<not> n < 0x80" using assms by (auto simp: rsp_der_length_octets_def unat_of_nat tag_octet_bits(2))
  with assms(1) show ?thesis
    by (auto simp: rsp_der_length_octets_def split: if_splits)
qed

lemma short_head_tlv:
  assumes "tlv_ok t v"
  shows "short_head (tlv t v @ rest)"
proof -
  obtain lo where lo: "rsp_der_length_octets (length v) = Some lo" "lo \<noteq> []"
    using assms der_octets_exist [of "length v"] by (auto simp: tlv_ok_def)
  obtain l ls where l: "lo = l # ls" using lo(2) by (cases lo) auto
  have k: "l AND 0x80 \<noteq> 0 \<longrightarrow> unat (l AND 0x7F) \<le> 4" using length_octets_short [OF lo(1)] l by simp
  have p: "tlv t v @ rest = t @ l # ls @ v @ rest" by (simp add: tlv_def lo l)
  from assms consider b where "t = [b]" "b AND 0x1F \<noteq> 0x1F" | b c where "t = [b, c]" "b AND 0x1F = 0x1F" "c AND 0x80 = 0"
    by (auto simp: tlv_ok_def tag_class_num_def tag_octet_bits split: list.splits if_splits)
  then show ?thesis unfolding p using k by cases (simp_all add: short_head_def Let_def)
qed

lemma dump_read_tlv:
  assumes "tlv_ok t v"
  shows "dump_read (tlv t v @ rest) = Inr (dump_tag t, tlv_header t v, length v)"
proof -
  let ?p = "tlv t v @ rest" and ?w = "\<lparr>faults = [], loc = ()\<rparr>"
  have "wp (parse_tlv ?p (length ?p) 0) (\<lambda>r w. r = (tlv_header t v, length v, length (tlv t v)) \<and> w = ?w) (\<lambda>e w. False) ?w"
    by (subst parse_tlv_at [OF assms]) (simp_all add: slice_def)
  then have "parse_tlv ?p (length ?p) 0 ?w = (Inr (tlv_header t v, length v, length (tlv t v)), ?w)"
    by (auto simp: wp_def split: prod.splits sum.splits)
  then show ?thesis
    unfolding dump_read_def dump_tlv_agrees [OF short_head_tlv [OF assms]] dump_tag_tlv [OF assms]
    by (simp add: bnd_def ret_def)
qed

lemma walk_tlv:
  assumes "tlv_ok t v" "walk rest d = Inr out"
    and "(if is_group (dump_tag t) then walk v (d + 1) else Inr (leaf_lines d (dump_tag t) v)) = Inr body"
  shows "walk (tlv t v @ rest) d = Inr (head_line d (dump_tag t) (length v) @ body @ out)"
proof -
  obtain p where p: "p = tlv t v @ rest" by simp
  have v: "take (length v) (drop (tlv_header t v) p) = v" and r: "drop (tlv_header t v + length v) p = rest"
    by (simp_all add: p tlv_header_def tlv_def)
  have n: "p \<noteq> []" using assms(1)
    by (auto simp: p tlv_ok_def tag_class_num_def tlv_def split: list.splits)
  have d: "dump_read p = Inr (dump_tag t, tlv_header t v, length v)" unfolding p by (rule dump_read_tlv [OF assms(1)])
  show ?thesis
    unfolding p [symmetric] using assms(2,3)
    by (cases "is_group (dump_tag t)"; subst walk.simps) (simp_all add: n d v r)
qed

lemma walk_item:
  "item_ok i \<Longrightarrow> walk rest d = Inr out \<Longrightarrow> walk (encode_item i @ rest) d = Inr (render d i @ out)"
proof (induction i arbitrary: rest d out)
  case (Leaf t v)
  then show ?case by (simp add: walk_tlv)
next
  case (Group t items)
  have "list_all item_ok js \<Longrightarrow> set js \<subseteq> set items \<Longrightarrow>
      walk (concat (map encode_item js)) (d + 1) = Inr (concat (map (render (d + 1)) js))" for js
    using Group.IH by (induction js) auto
  then have "walk (concat (map encode_item items)) (d + 1) = Inr (concat (map (render (d + 1)) items))"
    using Group.prems(1) by simp
  then show ?case using Group.prems by (simp add: walk_tlv)
qed

lemma walk_renders:
  assumes "list_all item_ok items"
  shows "walk (concat (map encode_item items)) d = Inr (concat (map (render d) items))"
  using assms by (induction items) (simp_all add: walk_item)

text \<open>The session the tool builds its package with, and its self-check recovers it with.\<close>

definition demo_session :: rsp_session where
  "demo_session = \<lparr>s_enc = map word_of_nat [0..<16], s_mac = map (\<lambda>i. 0x40 + word_of_nat i) [0..<16],
     s_chain = replicate 16 0, enc_counter = replicate 16 0\<rparr>"

lemma demo_session_wf: "session_wf demo_session"
  by (simp add: session_wf_def demo_session_def)

definition package_item :: "bytes \<Rightarrow> bytes \<Rightarrow> bytes \<Rightarrow> bytes list \<Rightarrow> item" where
  "package_item isc cfg md segs =
     Group [0xBF, 0x36] [Leaf [0xBF, 0x23] isc, Group [0xA0] [Leaf [0x87] cfg],
       Group [0xA1] [Leaf [0x88] md], Group [0xA3] (map (Leaf [0x86]) segs)]"

lemma package_tags:
  "tag_class_num [0xBF, 0x36] \<noteq> None" "tag_class_num [0xBF, 0x23] \<noteq> None" "tag_class_num [0xA0] \<noteq> None"
  "tag_class_num [0xA1] \<noteq> None" "tag_class_num [0xA3] \<noteq> None" "tag_class_num [0x86] \<noteq> None"
  "tag_class_num [0x87] \<noteq> None" "tag_class_num [0x88] \<noteq> None"
  "is_group (dump_tag [0xBF, 0x36])" "is_group (dump_tag [0xA0])" "is_group (dump_tag [0xA1])" "is_group (dump_tag [0xA3])"
  "\<not> is_group (dump_tag [0xBF, 0x23])" "\<not> is_group (dump_tag [0x86])" "\<not> is_group (dump_tag [0x87])" "\<not> is_group (dump_tag [0x88])"
  by (simp_all add: tag_class_num_def dump_tag_def is_group_def)

lemma tlvs_items: "tlvs t vs = concat (map encode_item (map (Leaf [t]) vs))"
  by (simp add: tlvs_def o_def)

lemma encode_package:
  "encode_item (package_item isc cfg md segs) =
     tlv [0xBF, 0x36] (tlv [0xBF, 0x23] isc @ tlv [0xA0] (tlv [0x87] cfg) @ tlv [0xA1] (tlv [0x88] md) @ tlv [0xA3] (tlvs 0x86 segs))"
  by (simp add: package_item_def tlvs_items)

lemma package_item_ok:
  assumes "length (tlv [0xBF, 0x23] isc @ tlv [0xA0] (tlv [0x87] cfg) @ tlv [0xA1] (tlv [0x88] md) @
      tlv [0xA3] (tlvs 0x86 segs)) \<le> 0xFFFFFFFF"
  shows "item_ok (package_item isc cfg md segs)"
proof -
  have le: "length v \<le> length (tlv t v)" for t v by (rule length_tlv_ge)
  have "length v \<le> length (tlvs 0x86 segs)" if "v \<in> set segs" for v
    using that le [of v "[0x86]"] by (induction segs) (auto simp: tlvs_def intro: trans_le_add1 order_trans)
  moreover have l: "length isc \<le> 0xFFFFFFFF" "length (tlv [0x87] cfg) \<le> 0xFFFFFFFF" "length cfg \<le> 0xFFFFFFFF"
    "length (tlv [0x88] md) \<le> 0xFFFFFFFF" "length md \<le> 0xFFFFFFFF" "length (tlvs 0x86 segs) \<le> 0xFFFFFFFF"
    using assms le [of isc "[0xBF, 0x23]"] le [of "tlv [0x87] cfg" "[0xA0]"] le [of cfg "[0x87]"]
      le [of "tlv [0x88] md" "[0xA1]"] le [of md "[0x88]"] le [of "tlvs 0x86 segs" "[0xA3]"]
    by simp_all
  ultimately have "\<forall>v \<in> set segs. length v \<le> 0xFFFFFFFF" by fastforce
  then show ?thesis using l assms
    by (simp add: package_item_def tlv_ok_def package_tags list_all_iff tlvs_items)
qed

lemma count_seal_all: "length (fst (seal_all M t s ps)) = length ps"
  by (induction ps arbitrary: s) (simp_all add: case_prod_beta)

lemma package_dump_render:
  assumes "bpp_of M A s inp = Some (bpp, s')" "isc_codec_law A"
  obtains isc cfg md segs where "walk bpp d = Inr (render d (package_item isc cfg md segs))"
    "length segs = (length (cdata (bi_upp inp)) + 1006) div 1007"
proof -
  obtain iscr bs cbs where b: "a_enc_isc A iscr = Some bs"
    "length (fst (bpp_parts M s (concat bs) (concat cbs) (cdata (bi_metadata inp)) (cdata (bi_upp inp)))) \<le> 0xFFFFFFFF"
    "bpp = tlv [0xBF, 0x36] (fst (bpp_parts M s (concat bs) (concat cbs) (cdata (bi_metadata inp)) (cdata (bi_upp inp))))"
    using assms(1) by (auto simp: bpp_of_def Let_def not_less bind_eq_Some_conv split: if_splits)
  obtain v where v: "concat bs = tlv [0xBF, 0x23] v" using assms(2) b(1) unfolding isc_codec_law_def by blast
  let ?s1 = "after_seal M 0x87 s (concat cbs)"
  let ?s2 = "after_mac M 0x88 ?s1 (cdata (bi_metadata inp))"
  let ?i = "package_item v (sealed M 0x87 s (concat cbs)) (macced M 0x88 ?s1 (cdata (bi_metadata inp)))
    (fst (seal_all M 0x86 ?s2 (chunks 1007 (cdata (bi_upp inp)))))"
  have ok: "item_ok ?i"
    by (rule package_item_ok) (use b(2) in \<open>simp add: bpp_parts_def Let_def v split: prod.splits\<close>)
  have "bpp = encode_item ?i"
    unfolding encode_package b(3) by (simp add: bpp_parts_def Let_def v split: prod.splits)
  then have "walk bpp d = Inr (render d ?i)" using walk_renders [of "[?i]" d] ok by simp
  then show thesis
  proof (rule that)
    show "length (fst (seal_all M 0x86 ?s2 (chunks 1007 (cdata (bi_upp inp))))) = (length (cdata (bi_upp inp)) + 1006) div 1007"
      unfolding count_seal_all by (subst chunks_count) simp_all
  qed
qed

end
