(* ===== verification/Channel.thy ===== *)
theory Channel
  imports Kdf
begin

text \<open>
  The calls on one SCP03t session as a sequence: the four segment operations, \<open>rsp_session_init\<close> and
  \<open>rsp_session_wipe\<close> of \<open>src/src/rsp_crypto.c\<close>, in any order, with any arguments and any failures.
  The session keeps its shape, and the segment operations change nothing of it but the chaining
  value and the counter, which counts the calls that succeeded.
\<close>

datatype channel_call =
    Protect cbuf u8 "nat option"
  | ProtectMacOnly cbuf u8 "nat option"
  | Unprotect cbuf u8 "nat option"
  | UnprotectMacOnly cbuf u8 "nat option"
  | Init "bytes option" "bytes option" cbuf
  | Wipe

text \<open>Whether a call succeeds.\<close>

definition tries :: "('x, 'a) cm \<Rightarrow> ('x, bool) cm" where
  "tries m = bnd (attempt m) (\<lambda>r. ret (r \<noteq> None))"

fun channel_run :: "('c, 'g, 'p, 'k) mbedtls \<Rightarrow> channel_call \<Rightarrow> (rsp_session option, bool) cm" where
  "channel_run M (Protect p tag cap) = tries (rsp_protect M p tag cap)"
| "channel_run M (ProtectMacOnly p tag cap) = tries (rsp_protect_mac_only M p tag cap)"
| "channel_run M (Unprotect seg tag cap) = tries (rsp_unprotect M seg tag cap)"
| "channel_run M (UnprotectMacOnly seg tag cap) = tries (rsp_unprotect_mac_only M seg tag cap)"
| "channel_run M (Init sk pk info) = tries (rsp_session_init M sk pk info)"
| "channel_run M Wipe = bnd (modify rsp_session_wipe) (\<lambda>_. ret True)"

fun is_segment_call :: "channel_call \<Rightarrow> bool" where
  "is_segment_call (Init _ _ _) = False"
| "is_segment_call Wipe = False"
| "is_segment_call _ = True"

lemma tries_snd: "snd (tries m w) = snd (m w)"
  by (auto simp: tries_def bnd_def attempt_def ret_def split: prod.splits sum.splits)

lemma tries_cases:
  assumes "\<And>x w'. m w = (Inr x, w') \<Longrightarrow> P True w'" "\<And>e w'. m w = (Inl e, w') \<Longrightarrow> e \<in> {Minus1, Minus2} \<and> P False w'"
  shows "\<exists>b w'. tries m w = (Inr b, w') \<and> P b w'"
  using assms by (cases "m w"; cases "fst (m w)") (auto simp: tries_def bnd_def attempt_def ret_def)

section \<open>Null arguments\<close>

lemma protect_null: "rsp_protect M (Null 0) = rsp_protect M (Buf [])"
  "rsp_protect_mac_only M (Null 0) = rsp_protect_mac_only M (Buf [])"
  by (simp_all add: rsp_protect_def rsp_protect_mac_only_def fun_eq_iff)

lemma protect_buf:
  assumes "rsp_protect M p tag oc w = (Inr out, w')"
  shows "rsp_protect M (Buf (cdata p)) tag oc w = (Inr out, w')"
  using assms by (cases p; cases "clen p") (auto simp: protect_null, auto simp: rsp_protect_def cm_run)

lemma protect_mac_only_buf:
  assumes "rsp_protect_mac_only M p tag oc w = (Inr out, w')"
  shows "rsp_protect_mac_only M (Buf (cdata p)) tag oc w = (Inr out, w')"
  using assms by (cases p; cases "clen p") (auto simp: protect_null, auto simp: rsp_protect_mac_only_def cm_run)

lemma unprotect_buf:
  assumes "rsp_unprotect M p tag oc w = (Inr out, w')"
  obtains seg where "p = Buf seg"
  using assms by (cases p) (auto simp: rsp_unprotect_def cm_run)

lemma unprotect_mac_only_buf:
  assumes "rsp_unprotect_mac_only M p tag oc w = (Inr out, w')"
  obtains seg where "p = Buf seg"
  using assms by (cases p) (auto simp: rsp_unprotect_mac_only_def cm_run)

section \<open>One call\<close>

lemma segment_call:
  assumes M: "cipher_laws M" and s: "loc w = Some s" "session_wf s" and c: "is_segment_call c"
  shows "\<exists>b w'. channel_run M c w = (Inr b, w') \<and>
    (\<exists>m. length m = 16 \<and> loc w' = Some (if b then session_step s m else s))"
proof -
  have idle: "\<exists>m :: bytes. length m = 16" by (rule exI [of _ "replicate 16 0"]) simp
  have step: "\<exists>m. length m = 16 \<and> session_step s (mac_of M s tag ct) = session_step s m" for tag ct
    using length_mac_of [OF M] by blast
  show ?thesis
  proof (cases c)
    case (Protect p tag cap)
    show ?thesis unfolding Protect channel_run.simps
      by (rule tries_cases)
        (use s idle in \<open>auto dest!: protect_buf protect_run(2) [OF _ s] protect_fail simp: after_seal_def step\<close>)
  next
    case (ProtectMacOnly p tag cap)
    show ?thesis unfolding ProtectMacOnly channel_run.simps
      by (rule tries_cases)
        (use s idle in \<open>auto dest!: protect_mac_only_buf protect_mac_only_run(2) [OF _ s] protect_mac_only_fail simp: after_mac_def step\<close>)
  next
    case (Unprotect p tag cap)
    show ?thesis unfolding Unprotect channel_run.simps
    proof (rule tries_cases, goal_cases)
      case (1 x w')
      obtain seg where "p = Buf seg" by (rule unprotect_buf [OF 1])
      with 1 obtain ct where "loc w' = Some (session_step s (mac_of M s tag ct))"
        using unprotect_run [OF _ s M] by metis
      then show ?case by (simp add: step)
    next
      case (2 e w')
      then show ?case using unprotect_fail [OF 2] s idle by simp
    qed
  next
    case (UnprotectMacOnly p tag cap)
    show ?thesis unfolding UnprotectMacOnly channel_run.simps
    proof (rule tries_cases, goal_cases)
      case (1 x w')
      obtain seg where "p = Buf seg" by (rule unprotect_mac_only_buf [OF 1])
      with 1 have "loc w' = Some (after_mac M tag s x)"
        using unprotect_mac_only_run(2) [OF _ s] by metis
      then show ?case by (simp add: after_mac_def step)
    next
      case (2 e w')
      then show ?case using unprotect_mac_only_fail [OF 2] s idle by simp
    qed
  qed (use c in simp_all)
qed

lemma kdf_null: "rsp_kdf_x963 M z (Null 0) = rsp_kdf_x963 M z (Buf [])"
proof -
  have "clen (Null 0) = clen (Buf [])" "cdata (Null 0) = cdata (Buf [])" by simp_all
  then show ?thesis unfolding rsp_kdf_x963_def by (simp only: is_null.simps) simp
qed

lemma zero_session_wf: "session_wf zero_session"
  by (simp add: session_wf_def zero_session_def)

lemma init_call:
  assumes M: "hash_laws M" and s: "loc w = Some s" "session_wf s"
  shows "\<exists>s'. loc (snd (rsp_session_init M sk pk info w)) = Some s' \<and> session_wf s'"
proof -
  consider "sk = None \<or> pk = None" | a b where "sk = Some a" "pk = Some b" by (cases sk; cases pk) auto
  then show ?thesis
  proof cases
    case 1
    then show ?thesis using s by (auto simp: rsp_session_init_def bnd_def get_loc_def ensure_def stop_with_def)
  next
    case 2
    show ?thesis
    proof (cases "rsp_session_init M sk pk info w")
      case (Pair x w')
      show ?thesis
      proof (cases x)
        case (Inl e)
        with Pair 2 session_init_fail [of M a b info w e w' s] s(1) show ?thesis by (simp add: zero_session_wf)
      next
        case (Inr u)
        have "rsp_session_init M (Some a) (Some b) (Buf (cdata info)) w = (Inr u, w')"
          using Pair 2 Inr
          by (cases info; cases "clen info")
            (auto simp: rsp_session_init_def kdf_null, auto simp: rsp_session_init_def rsp_kdf_x963_def cm_run Let_def)
        from session_init_run [OF this M] obtain z where
          "loc w' = Some (session_of (kdf_value M z (cdata info) 48))" by blast
        with Pair session_of_wf [OF length_kdf_value [OF M]] show ?thesis by simp
      qed
    qed
  qed
qed

lemma channel_run_wf:
  assumes M: "cipher_laws M" "hash_laws M" and s: "loc w = Some s" "session_wf s"
  shows "\<exists>s'. loc (snd (channel_run M c w)) = Some s' \<and> session_wf s'"
proof (cases "is_segment_call c")
  case True
  from segment_call [OF M(1) s this] s(2) show ?thesis by auto
next
  case False
  then show ?thesis using init_call [OF M(2) s] s(1) zero_session_wf
    by (cases c) (auto simp: tries_snd modify_def bnd_def ret_def get_loc_def set_loc_def rsp_session_wipe_def)
qed

section \<open>Sequences of calls\<close>

lemma channel_runs_wf:
  assumes M: "cipher_laws M" "hash_laws M"
  shows "loc w = Some s \<Longrightarrow> session_wf s \<Longrightarrow>
    \<exists>s'. loc (snd (map_cm (channel_run M) calls w)) = Some s' \<and> session_wf s'"
proof (induction calls arbitrary: w s)
  case (Cons c calls)
  from channel_run_wf [OF M Cons.prems, of c] obtain s1 where
    1: "loc (snd (channel_run M c w)) = Some s1" "session_wf s1" by blast
  from Cons.IH [OF 1] 1 show ?case
    by (auto simp: bnd_def ret_def split: prod.splits sum.splits)
qed (simp add: ret_def)

lemma segment_calls:
  assumes M: "cipher_laws M"
  shows "loc w = Some s \<Longrightarrow> session_wf s \<Longrightarrow> list_all is_segment_call calls \<Longrightarrow>
    \<exists>bs w' s'. map_cm (channel_run M) calls w = (Inr bs, w') \<and> loc w' = Some s' \<and> s_enc s' = s_enc s \<and> s_mac s' = s_mac s \<and>
      be_val (enc_counter s') = (be_val (enc_counter s) + length (filter (\<lambda>b. b) bs)) mod 2 ^ 128 \<and> length bs = length calls"
proof (induction calls arbitrary: w s)
  case Nil
  have "be_val (enc_counter s) < 2 ^ 128"
    using be_val_bound [of "enc_counter s"] Nil by (simp add: session_wf_def)
  with Nil show ?case by (simp add: ret_def)
next
  case (Cons c calls)
  then obtain b w1 m where 1: "channel_run M c w = (Inr b, w1)" "length m = 16" "loc w1 = Some (if b then session_step s m else s)"
    using segment_call [OF M, of w s c] by auto
  define s1 where "s1 = (if b then session_step s m else s)"
  have s1: "session_wf s1" "s_enc s1 = s_enc s" "s_mac s1 = s_mac s"
    "be_val (enc_counter s1) mod 2 ^ 128 = (be_val (enc_counter s) + (if b then 1 else 0)) mod 2 ^ 128"
    using 1(2) Cons.prems(2) by (auto simp: s1_def) (auto simp: session_step_def session_wf_def counter_advance_val)
  from Cons.IH [OF 1(3) [folded s1_def] s1(1)] Cons.prems(3) obtain bs w' s' where
    2: "map_cm (channel_run M) calls w1 = (Inr bs, w')" "loc w' = Some s'" "s_enc s' = s_enc s" "s_mac s' = s_mac s"
      "be_val (enc_counter s') = (be_val (enc_counter s1) + length (filter (\<lambda>b. b) bs)) mod 2 ^ 128" "length bs = length calls"
    using s1(2,3) by auto
  have "be_val (enc_counter s') = (be_val (enc_counter s) + length (filter (\<lambda>b. b) (b # bs))) mod 2 ^ 128"
    unfolding 2(5) mod_add_left_eq [of "be_val (enc_counter s1)", symmetric] s1(4)
    by (simp add: mod_add_left_eq)
  with 1 2 show ?case by (intro exI [of _ "b # bs"] exI [of _ w'] exI [of _ s']) (simp add: bnd_def ret_def)
qed

end
