(* ===== verification/Refine.thy ===== *)
theory Refine
  imports Protocol
begin

text \<open>
  What the ES9+ calls promise their caller, as a server that knows nothing of the session's memory:
  the offer it made (transaction and challenges), the eUICC that answered it (certificate, EID,
  metadata, smdpSignature2) and the keys of the package it served. \<open>server_step\<close> are the events of
  that server, \<open>es9_act\<close> the same events as the calls of \<open>src/rsp_es9.c\<close> show them, for any
  arguments and any schedule of operational failures. \<open>abs_of\<close> maps the session a caller holds to
  the state of the server; \<open>es9_simulated\<close> and \<open>server_simulated\<close> go in the two directions, and
  together they say that the code has exactly the runs of the specification.
\<close>

section \<open>The server\<close>

record offer =
  of_transaction :: bytes
  of_euicc_challenge :: bytes
  of_server_challenge :: bytes

record identity =
  id_certificate :: bytes
  id_eid :: bytes
  id_metadata :: bytes
  id_signature2 :: bytes

datatype server = Idle | Started offer | Trusted offer identity | Serving offer identity rsp_session

text \<open>An event carries what left the server with it: the response to the offer and to the answer,
  the profile that was asked for with its package, and whether the eUICC reported success. A call
  that failed is \<open>Refused\<close>.\<close>

datatype event = Offered offer bytes | Answered offer identity bytes | Delivered offer identity bytes bytes
  | Reported offer identity bool | Released | Refused

text \<open>The session of an offer that was answered; the checks of \<open>Auth\<close> and \<open>Download\<close> read no more
  of a session than this.\<close>

definition session_for :: "offer \<Rightarrow> identity \<Rightarrow> rsp_dp_session" where
  "session_for ofr i = zero_dp_session\<lparr>ss_transaction_id := of_transaction ofr,
     ss_euicc_challenge := of_euicc_challenge ofr, ss_server_challenge := of_server_challenge ofr,
     ss_authenticated := True, ss_euicc_cert := Owned (id_certificate i),
     ss_euicc_cert_len := length (id_certificate i), ss_eid := id_eid i, ss_eid_len := length (id_eid i),
     ss_metadata := Owned (id_metadata i), ss_metadata_len := length (id_metadata i),
     ss_smdp_signature2 := id_signature2 i\<rparr>"

text \<open>The server offers fresh material to anyone whose EUICCInfo1 it can read.\<close>

definition offer_made :: "('c, 'g, 'p, 'k) mbedtls \<Rightarrow> 'a asn1c \<Rightarrow> sgp26 \<Rightarrow> offer \<Rightarrow> bytes \<Rightarrow> bool" where
  "offer_made M A S ofr reply \<longleftrightarrow>
     length (of_transaction ofr) = 16 \<and> length (of_euicc_challenge ofr) = 16 \<and> length (of_server_challenge ofr) = 16 \<and>
     (\<exists>info1 ad r bs. info1 \<noteq> [] \<and> a_dec_euicc_info1 A info1 \<and>
        init_response_of M A S (server_signed1_of (of_transaction ofr) (of_euicc_challenge ofr) ad (of_server_challenge ofr)) = Some r \<and>
        a_enc_init_auth_ok A r = Some bs \<and> reply = concat bs)"

text \<open>It trusts an eUICC whose answer to this very offer passes the checks, for metadata within the
  limits; smdpSignature2 is over that answer.\<close>

definition answer_accepted ::
  "('c, 'g, 'p, 'k) mbedtls \<Rightarrow> 'a asn1c \<Rightarrow> sgp26 \<Rightarrow> offer \<Rightarrow> identity \<Rightarrow> bytes \<Rightarrow> bool" where
  "answer_accepted M A S ofr i reply \<longleftrightarrow> id_metadata i \<noteq> [] \<and>
     (\<exists>resp rok m r bs. resp \<noteq> [] \<and> a_dec_auth_server_response A resp = Some (AuthenticateResponseOk rok) \<and>
        a_dec_store_metadata A (id_metadata i) = Some m \<and> length (sm_iccid m) = 10 \<and>
        length (sm_profileName m) \<le> 64 \<and> length (sm_serviceProviderName m) \<le> 32 \<and>
        auth_checked M A S (session_for ofr i) rok (id_certificate i) (id_eid i) \<and>
        auth_response_of M A S (of_transaction ofr) (ar_euiccSignature1 rok) (id_metadata i) = Some r \<and>
        id_signature2 i = ac_smdpSignature2 r \<and> a_enc_auth_client_ok A r = Some bs \<and> reply = concat bs)"

text \<open>It serves a profile to the eUICC it trusts, for an answer that eUICC signed, with keys that
  only the two of them can derive.\<close>

definition package_served ::
  "('c, 'g, 'p, 'k) mbedtls \<Rightarrow> 'a asn1c \<Rightarrow> sgp26 \<Rightarrow> offer \<Rightarrow> identity \<Rightarrow> bytes \<Rightarrow> bytes \<Rightarrow> rsp_session \<Rightarrow> bool" where
  "package_served M A S ofr i upp bpp ks \<longleftrightarrow> upp \<noteq> [] \<and> length (id_metadata i) \<le> 1007 \<and>
     (\<exists>resp rok octets sk otpk. resp \<noteq> [] \<and> a_dec_prepare_download A resp = Some (DownloadResponseOk rok) \<and>
        download_checked M A (session_for ofr i) rok \<and> eid_packed (id_eid i) octets \<and>
        public_key M sk = Some otpk \<and> length otpk = 65 \<and>
        download_of M A S (session_for ofr i) (pd_euiccSigned2 rok) octets upp sk = Some (bpp, ks))"

text \<open>It believes a report of this transaction that the eUICC it trusts has signed, over the octets as
  they were received.\<close>

definition report_framed :: "'a asn1c \<Rightarrow> bytes \<Rightarrow> bytes \<Rightarrow> bool" where
  "report_framed A n d \<longleftrightarrow> read_tlv A n \<noteq> None \<and> pir_signed A n = Some d"

definition report_believed ::
  "('c, 'g, 'p, 'k) mbedtls \<Rightarrow> 'a asn1c \<Rightarrow> offer \<Rightarrow> identity \<Rightarrow> bool \<Rightarrow> bool" where
  "report_believed M A ofr i success \<longleftrightarrow>
     (\<exists>n r d. a_dec_installation_result A n = Some r \<and> pir_transactionId r = of_transaction ofr \<and>
        length (pir_euiccSignPIR r) = 64 \<and> report_framed A n d \<and>
        signature_good M (id_certificate i) d (pir_euiccSignPIR r) \<and>
        pir_finalResult r \<noteq> NoResult \<and> success = (pir_finalResult r = SuccessResult))"

inductive server_step ::
  "('c, 'g, 'p, 'k) mbedtls \<Rightarrow> 'a asn1c \<Rightarrow> sgp26 \<Rightarrow> server \<Rightarrow> event \<Rightarrow> server \<Rightarrow> bool"
  for M :: "('c, 'g, 'p, 'k) mbedtls" and A :: "'a asn1c" and S :: sgp26 where
  start: "offer_made M A S ofr reply \<Longrightarrow> server_step M A S Idle (Offered ofr reply) (Started ofr)"
| trust: "answer_accepted M A S ofr i reply \<Longrightarrow>
     server_step M A S (Started ofr) (Answered ofr i reply) (Trusted ofr i)"
| trust_again: "answer_accepted M A S ofr i reply \<Longrightarrow>
     server_step M A S (Trusted ofr i') (Answered ofr i reply) (Trusted ofr i)"
| trust_late: "answer_accepted M A S ofr i reply \<Longrightarrow>
     server_step M A S (Serving ofr i' ks) (Answered ofr i reply) (Serving ofr i ks)"
| serve: "package_served M A S ofr i upp bpp ks \<Longrightarrow>
     server_step M A S (Trusted ofr i) (Delivered ofr i upp bpp) (Serving ofr i ks)"
| serve_again: "package_served M A S ofr i upp bpp ks \<Longrightarrow>
     server_step M A S (Serving ofr i ks') (Delivered ofr i upp bpp) (Serving ofr i ks)"
| believe: "report_believed M A ofr i success \<Longrightarrow>
     server_step M A S (Trusted ofr i) (Reported ofr i success) (Trusted ofr i)"
| believe_late: "report_believed M A ofr i success \<Longrightarrow>
     server_step M A S (Serving ofr i ks) (Reported ofr i success) (Serving ofr i ks)"
| release: "a \<noteq> Idle \<Longrightarrow> server_step M A S a Released Idle"
| refuse: "server_step M A S a Refused a"

inductive server_run ::
  "('c, 'g, 'p, 'k) mbedtls \<Rightarrow> 'a asn1c \<Rightarrow> sgp26 \<Rightarrow> event list \<Rightarrow> server \<Rightarrow> bool"
  for M :: "('c, 'g, 'p, 'k) mbedtls" and A :: "'a asn1c" and S :: sgp26 where
  idle: "server_run M A S [] Idle"
| more: "server_run M A S es a \<Longrightarrow> server_step M A S a e a' \<Longrightarrow> server_run M A S (es @ [e]) a'"

section \<open>The code's runs\<close>

definition offer_of :: "rsp_dp_session \<Rightarrow> offer" where
  "offer_of s = \<lparr>of_transaction = ss_transaction_id s, of_euicc_challenge = ss_euicc_challenge s,
     of_server_challenge = ss_server_challenge s\<rparr>"

definition owned_bytes :: "ptr \<Rightarrow> bytes" where
  "owned_bytes p = (case p of Owned b \<Rightarrow> b | _ \<Rightarrow> [])"

definition identity_of :: "rsp_dp_session \<Rightarrow> identity" where
  "identity_of s = \<lparr>id_certificate = owned_bytes (ss_euicc_cert s), id_eid = take (ss_eid_len s) (ss_eid s),
     id_metadata = owned_bytes (ss_metadata s), id_signature2 = ss_smdp_signature2 s\<rparr>"

definition abs_of :: "rsp_dp_session option \<Rightarrow> server" where
  "abs_of st = (case st of None \<Rightarrow> Idle
     | Some s \<Rightarrow> if \<not> ss_authenticated s then Started (offer_of s)
         else if ss_have_bpp_session s then Serving (offer_of s) (identity_of s) (ss_bpp_session s)
         else Trusted (offer_of s) (identity_of s))"

text \<open>A call, with the event its caller sees: the outputs of a success, and of a failure nothing.\<close>

inductive es9_act ::
  "('c, 'g, 'p, 'k) mbedtls \<Rightarrow> 'a asn1c \<Rightarrow> sgp26 \<Rightarrow> rsp_dp_session \<Rightarrow>
   rsp_dp_session option \<Rightarrow> event \<Rightarrow> rsp_dp_session option \<Rightarrow> bool"
  for M :: "('c, 'g, 'p, 'k) mbedtls" and A :: "'a asn1c" and S :: sgp26 and junk :: rsp_dp_session where
  offered: "io_session (loc w) = None \<Longrightarrow> length t = 16 \<Longrightarrow> length sc = 16 \<Longrightarrow>
     rsp_dp_initiate_authentication M A S junk chal info1 (Some t) (Some sc) addr req ok w = (Inr u, w') \<Longrightarrow>
     io_session (loc w') = Some s' \<Longrightarrow>
     es9_act M A S junk None (Offered (offer_of s') (cdata (io_resp (loc w')))) (Some s')"
| not_offered: "io_session (loc w) = None \<Longrightarrow> length t = 16 \<Longrightarrow> length sc = 16 \<Longrightarrow>
     rsp_dp_initiate_authentication M A S junk chal info1 (Some t) (Some sc) addr req ok w = (Inl e, w') \<Longrightarrow>
     es9_act M A S junk None Refused (io_session (loc w'))"
| answered: "ao_session (loc w) = Some s \<Longrightarrow>
     rsp_dp_authenticate_client M A S resp md ok w = (Inr u, w') \<Longrightarrow> ao_session (loc w') = Some s' \<Longrightarrow>
     es9_act M A S junk (Some s) (Answered (offer_of s') (identity_of s') (cdata (ao_out (loc w')))) (Some s')"
| not_answered: "ao_session (loc w) = Some s \<Longrightarrow>
     rsp_dp_authenticate_client M A S resp md ok w = (Inl e, w') \<Longrightarrow>
     es9_act M A S junk (Some s) Refused (ao_session (loc w'))"
| delivered: "do_session (loc w) = Some s \<Longrightarrow>
     rsp_dp_get_bound_profile_package M A S resp upp sk ok w = (Inr u, w') \<Longrightarrow> do_session (loc w') = Some s' \<Longrightarrow>
     es9_act M A S junk (Some s) (Delivered (offer_of s') (identity_of s') (cdata upp) (cdata (do_bpp (loc w')))) (Some s')"
| not_delivered: "do_session (loc w) = Some s \<Longrightarrow>
     rsp_dp_get_bound_profile_package M A S resp upp sk ok w = (Inl e, w') \<Longrightarrow>
     es9_act M A S junk (Some s) Refused (do_session (loc w'))"
| reported: "rsp_dp_verify_installation_result M A (Some s) pir True w = (Inr u, w') \<Longrightarrow>
     es9_act M A S junk (Some s) (Reported (offer_of s) (identity_of s) (po_installed (loc w') = 1)) (Some s)"
| not_reported: "rsp_dp_verify_installation_result M A (Some s) pir ok w = (Inl e, w') \<Longrightarrow>
     es9_act M A S junk (Some s) Refused (Some s)"
| released: "rsp_dp_session_free (Some s) (w :: unit st) = (Inr x, w') \<Longrightarrow> es9_act M A S junk (Some s) Released None"

inductive es9_run ::
  "('c, 'g, 'p, 'k) mbedtls \<Rightarrow> 'a asn1c \<Rightarrow> sgp26 \<Rightarrow> rsp_dp_session \<Rightarrow> event list \<Rightarrow> rsp_dp_session option \<Rightarrow> bool"
  for M :: "('c, 'g, 'p, 'k) mbedtls" and A :: "'a asn1c" and S :: sgp26 and junk :: rsp_dp_session where
  idle: "es9_run M A S junk [] None"
| more: "es9_run M A S junk es st \<Longrightarrow> es9_act M A S junk st e st' \<Longrightarrow> es9_run M A S junk (es @ [e]) st'"

section \<open>A report, both ways\<close>

lemma find_tlv_framed:
  assumes A: "ber_laws A" and t: "tag_class_num want = Some (c, k)"
    and r: "read_tlv A (drop off buf) = Some (n, x, v)" and pre: "take (length want) (drop off buf) = want" "want \<noteq> []"
  shows "find_tlv A buf off want w = (Inr (off, n), w)"
proof -
  have "drop off buf = want @ drop (length want) (drop off buf)"
    using pre(1) by (metis append_take_drop_id)
  then have f: "a_fetch_tag A (drop off buf) = (int (length want), packed_tag c k)"
    using fetch_tag_octets(1) [OF A t] by metis
  have o: "off < length buf" using pre by (cases "off < length buf") auto
  have h: "hd (drop off buf) = buf ! off" using o by (simp add: hd_drop_conv_nth)
  obtain ll cl where l: "a_fetch_length A (a_constructed A (buf ! off)) (drop (off + length want) buf) = (ll, cl)"
    by (cases "a_fetch_length A (a_constructed A (buf ! off)) (drop (off + length want) buf)")
  with r f h pre have n: "0 < ll" "0 \<le> cl" "length want + nat ll + nat cl \<le> length buf - off" "n = length want + nat ll + nat cl"
    by (auto simp: read_tlv_def add.commute split: if_splits)
  have b: "off + length want \<le> length buf" "nat ll + nat cl \<le> length buf - off - length want" using n(3) o by linarith+
  then have "nat cl \<le> size_sub (length buf - off - length want) (nat ll)" by simp
  with f l o pre n b show ?thesis
    by (simp add: find_tlv_def bnd_def ensure_def ret_def rd_def rd_block_def)
qed

lemma pir_tags: "tag_class_num [0xBF, 0x37] = Some (2, 55)" "tag_class_num [0xBF, 0x27] = Some (2, 39)"
  by (simp_all add: tag_class_num_def)

lemma pir_data_framed:
  fixes w :: "'x st"
  assumes A: "ber_laws A" and run: "pir_data A n w = (Inr d, w')"
  shows "report_framed A n d"
proof -
  from run obtain p and w0 :: "'x st" where "find_tlv A n 0 [0xBF, 0x37] w = (Inr p, w0)"
    by (auto simp: pir_data_def cm_run)
  from wp_Inr [OF find_tlv_read [OF A] this] wp_Inr [OF pir_data_wp [OF A] run]
  show ?thesis by (auto simp: report_framed_def)
qed

lemma framed_pir_data:
  assumes A: "ber_laws A" and f: "faults w = []" and r: "report_framed A n d"
  shows "pir_data A n w = (Inr d, w)"
proof -
  obtain m x v where o: "read_tlv A (drop 0 n) = Some (m, x, v)" and p: "take 2 n = [0xBF, 0x37]"
    using r by (auto simp: report_framed_def pir_signed_def Let_def split: if_splits)
  define i where "i = drop (pir_header A n) n"
  obtain m' x' v' where q: "read_tlv A i = Some (m', x', v')" "take 2 i = [0xBF, 0x27]" "d = take m' i"
    using r by (auto simp: report_framed_def pir_signed_def Let_def i_def split: if_splits)
  have "n = [0xBF, 0x37] @ drop 2 n" using p by (metis append_take_drop_id)
  then have ft: "a_fetch_tag A n = (2, packed_tag 2 55)"
    using fetch_tag_octets(1) [OF A pir_tags(1), of "drop 2 n"] by simp
  have ne: "n \<noteq> []" using p by auto
  obtain ll cl where fl: "a_fetch_length A (a_constructed A (hd n)) (drop 2 n) = (ll, cl)"
    by (cases "a_fetch_length A (a_constructed A (hd n)) (drop 2 n)")
  have ll: "0 < ll" using o ft fl by (simp add: read_tlv_def split: if_splits)
  have h: "pir_header A n = 2 + nat ll" using ft fl by (simp add: pir_header_def Let_def)
  have 1: "find_tlv A n 0 [0xBF, 0x37] w = (Inr (0, m), w)"
    by (rule find_tlv_framed [OF A pir_tags(1) o]) (simp_all add: p numeral_2_eq_2 [symmetric])
  have 2: "find_tlv A n (2 + nat ll) [0xBF, 0x27] w = (Inr (2 + nat ll, m'), w)"
    by (rule find_tlv_framed [OF A pir_tags(2) q(1) [unfolded i_def h]])
      (use q(2) in \<open>simp_all add: i_def h numeral_2_eq_2 [symmetric]\<close>)
  have b: "m' \<le> length i" using read_tlv_bounds [OF q(1)] by simp
  have "i \<noteq> []" using q(2) by auto
  then have "2 + nat ll + m' \<le> length n" using b unfolding i_def h by simp
  then show ?thesis
    using f ft fl ll 1 2 ne q(3) unfolding i_def h
    by (simp add: pir_data_def bnd_def recode_def ensure_def ret_def rd_def rd_block_def hd_conv_nth)
qed

lemma framed_result_ok:
  assumes A: "ber_laws A" and f: "faults w = []" and s: "session_ok s" "ss_authenticated s" "ss_euicc_cert s = Owned cert"
    and n: "report_framed A n d" "signature_good M cert d (pir_euiccSignPIR r)" "length (pir_euiccSignPIR r) = 64"
      "a_dec_installation_result A n = Some r" "pir_transactionId r = ss_transaction_id s" "pir_finalResult r \<noteq> NoResult"
  shows "rsp_dp_verify_installation_result M A (Some s) (Buf n) True w =
    (Inr (), w\<lparr>loc := pir_report A (pir_finalResult r) (loc w)\<rparr>)"
proof -
  have l: "ss_euicc_cert_len s = length cert" "length (ss_transaction_id s) = 16"
    using s by (auto simp: session_ok_def)
  have "n \<noteq> []" using n(1) by (auto simp: report_framed_def pir_signed_def)
  then show ?thesis
    using f s(2,3) n(3-6) framed_pir_data [OF A f n(1)] signature_good_ok [OF f n(2)] l
    by (cases "pir_finalResult r")
      (simp_all add: rsp_dp_verify_installation_result_def read_ptr_def pir_report_def bnd_def ensure_def ret_def
        modify_def get_loc_def set_loc_def)
qed

lemma framed_result_run:
  assumes A: "ber_laws A" and s: "session_ok s"
    and run: "rsp_dp_verify_installation_result M A (Some s) pir True w = (Inr u, w')"
  shows "ss_authenticated s \<and> report_believed M A (offer_of s) (identity_of s) (po_installed (loc w') = 1)"
proof -
  from run have auth: "ss_authenticated s" by (simp add: rsp_dp_verify_installation_result_def cm_run)
  obtain cert where c: "ss_euicc_cert s = Owned cert" "ss_euicc_cert_len s = length cert"
    by (rule session_ok_owned [OF s auth])
  from run c obtain r d w1 w2 and w0 :: "pir_out st" where
    r: "a_dec_installation_result A (cdata pir) = Some r" "length (pir_euiccSignPIR r) = 64" and
    1: "pir_data A (cdata pir) w0 = (Inr d, w1)" and
    2: "rsp_sign_verify M (Buf cert) (Buf d) (Some (pir_euiccSignPIR r)) w1 = (Inr (), w2)"
    unfolding rsp_dp_verify_installation_result_def Let_def read_ptr_def
    by (cases pir) (auto simp: cm_run)
  from wp_Inr [OF installation_result_wp [OF A s] run] r(1)
  have "pir_transactionId r = ss_transaction_id s" "pir_finalResult r \<noteq> NoResult"
    "loc w' = pir_report A (pir_finalResult r) (loc w)" by auto
  moreover from this(2,3) have "(po_installed (loc w') = 1) = (pir_finalResult r = SuccessResult)"
    by (cases "pir_finalResult r") (simp_all add: pir_report_def)
  ultimately show ?thesis
    using auth r pir_data_framed [OF A 1] verify_run [OF 2]
    unfolding report_believed_def
    by (intro conjI exI [of _ "cdata pir"] exI [of _ r] exI [of _ d])
      (simp_all add: offer_of_def identity_of_def owned_bytes_def c)
qed

section \<open>A session and its offer\<close>

lemma session_for_auth: "auth_checked M A S (session_for (offer_of s) i) rok c e = auth_checked M A S s rok c e"
  by (rule auth_checked_cong) (simp_all add: session_for_def offer_of_def)

lemma session_for_download:
  assumes "session_ok s" "ss_authenticated s"
  shows "download_checked M A (session_for (offer_of s) (identity_of s)) rok = download_checked M A s rok"
    and "download_of M A S (session_for (offer_of s) (identity_of s)) es2 octets upp sk = download_of M A S s es2 octets upp sk"
proof -
  obtain cert md where c: "ss_euicc_cert s = Owned cert" "ss_metadata s = Owned md"
    by (rule session_ok_owned [OF assms])
  let ?s = "session_for (offer_of s) (identity_of s)"
  have f: "ss_transaction_id ?s = ss_transaction_id s" "ss_smdp_signature2 ?s = ss_smdp_signature2 s"
    "ss_euicc_cert ?s = ss_euicc_cert s" "ss_metadata ?s = ss_metadata s"
    by (simp_all add: session_for_def offer_of_def identity_of_def owned_bytes_def c)
  show "download_checked M A ?s rok = download_checked M A s rok"
    by (simp only: download_checked_def f)
  have "download_input ?s e u p c = download_input s e u p c" for e u p c
    by (simp only: download_input_def f)
  then show "download_of M A S ?s es2 octets upp sk = download_of M A S s es2 octets upp sk"
    by (simp only: download_of_def)
qed

lemma abs_of_simps [simp]:
  "abs_of None = Idle"
  "\<not> ss_authenticated s \<Longrightarrow> abs_of (Some s) = Started (offer_of s)"
  "ss_authenticated s \<Longrightarrow> \<not> ss_have_bpp_session s \<Longrightarrow> abs_of (Some s) = Trusted (offer_of s) (identity_of s)"
  "ss_authenticated s \<Longrightarrow> ss_have_bpp_session s \<Longrightarrow> abs_of (Some s) = Serving (offer_of s) (identity_of s) (ss_bpp_session s)"
  by (simp_all add: abs_of_def)

lemma abs_of_Idle [simp]: "abs_of st = Idle \<longleftrightarrow> st = None"
  by (simp add: abs_of_def split: option.split)

text \<open>The session after an accepted answer.\<close>

definition answered_session :: "rsp_dp_session \<Rightarrow> bytes \<Rightarrow> bytes \<Rightarrow> bytes \<Rightarrow> bytes \<Rightarrow> rsp_dp_session" where
  "answered_session s cert eid md sig = s\<lparr>ss_euicc_cert := Owned cert, ss_euicc_cert_len := length cert,
     ss_eid := eid @ drop (length eid) (ss_eid s), ss_eid_len := length eid,
     ss_metadata := Owned md, ss_metadata_len := length md, ss_smdp_signature2 := sig, ss_authenticated := True\<rparr>"

lemma answered_session_simps [simp]:
  "offer_of (answered_session s cert eid md sig) = offer_of s"
  "identity_of (answered_session s cert eid md sig) =
     \<lparr>id_certificate = cert, id_eid = eid, id_metadata = md, id_signature2 = sig\<rparr>"
  "ss_authenticated (answered_session s cert eid md sig)"
  "ss_have_bpp_session (answered_session s cert eid md sig) = ss_have_bpp_session s"
  "ss_bpp_session (answered_session s cert eid md sig) = ss_bpp_session s"
  by (simp_all add: answered_session_def offer_of_def identity_of_def owned_bytes_def)

lemma committed_simps [simp]:
  "offer_of (download_commit s ks) = offer_of s" "identity_of (download_commit s ks) = identity_of s"
  "ss_authenticated (download_commit s ks) = ss_authenticated s"
  "ss_have_bpp_session (download_commit s ks)" "ss_bpp_session (download_commit s ks) = ks"
  by (simp_all add: download_commit_def offer_of_def identity_of_def)

lemma offered_simps:
  assumes "junk_clean junk" "s' = junk\<lparr>ss_transaction_id := t, ss_euicc_challenge := c, ss_server_challenge := sc\<rparr>"
  shows "offer_of s' = \<lparr>of_transaction = t, of_euicc_challenge = c, of_server_challenge = sc\<rparr>" "abs_of (Some s') = Started (offer_of s')"
  using assms by (simp_all add: junk_clean_def offer_of_def abs_of_def)

lemma eid_packed_length: "eid_packed digits octets \<Longrightarrow> length digits = 32"
  by (auto simp: eid_packed_def length_concat nibbles_def comp_def sum_list_triv)

lemma identity_eid:
  assumes "session_ok s" "eid_packed (id_eid (identity_of s)) octets"
  shows "ss_eid_len s = 32" "eid_packed (ss_eid s) octets"
  using assms eid_packed_length [OF assms(2)] by (auto simp: session_ok_def identity_of_def)

section \<open>Every call is an event of the server\<close>

text \<open>What an answered session can come from, and go to, in the specification.\<close>

lemma trust_any:
  assumes "es9_ok M A S (Some s)" "answer_accepted M A S (offer_of s) i reply" "i = identity_of (answered_session s cert eid md sig)"
  shows "server_step M A S (abs_of (Some s)) (Answered (offer_of s) i reply) (abs_of (Some (answered_session s cert eid md sig)))"
proof (cases "ss_authenticated s")
  case True
  with assms(2,3) show ?thesis
    by (cases "ss_have_bpp_session s") (simp_all add: server_step.trust_again server_step.trust_late)
next
  case False
  then have "\<not> ss_have_bpp_session s" using assms(1) by (auto simp: es9_ok_def)
  with False assms(2,3) show ?thesis by (simp add: server_step.trust)
qed

lemma serve_any:
  assumes "ss_authenticated s" "package_served M A S (offer_of s) (identity_of s) upp bpp ks"
  shows "server_step M A S (abs_of (Some s)) (Delivered (offer_of s) (identity_of s) upp bpp) (abs_of (Some (download_commit s ks)))"
  using assms by (cases "ss_have_bpp_session s") (simp_all add: server_step.serve server_step.serve_again)

lemma believe_any:
  assumes "ss_authenticated s" "report_believed M A (offer_of s) (identity_of s) b"
  shows "server_step M A S (abs_of (Some s)) (Reported (offer_of s) (identity_of s) b) (abs_of (Some s))"
  using assms by (cases "ss_have_bpp_session s") (simp_all add: server_step.believe server_step.believe_late)

lemma offered_simulated:
  assumes run: "rsp_dp_initiate_authentication M A S junk chal info1 (Some t) (Some sc) addr req ok w = (Inr u, w')"
    and l: "length t = 16" "length sc = 16" "io_session (loc w') = Some s'" and j: "junk_clean junk"
  shows "server_step M A S Idle (Offered (offer_of s') (cdata (io_resp (loc w')))) (abs_of (Some s'))"
proof -
  obtain ad r bs where i: "length (cdata chal) = 16" "cdata info1 \<noteq> []" "a_dec_euicc_info1 A (cdata info1)"
    "init_response_of M A S (server_signed1_of t (cdata chal) ad sc) = Some r"
    "a_enc_init_auth_ok A r = Some bs" "io_resp (loc w') = Buf (concat bs)"
    "s' = junk\<lparr>ss_transaction_id := t, ss_euicc_challenge := cdata chal, ss_server_challenge := sc\<rparr>"
    by (rule initiate_run [OF run]) (use l(3) in auto)
  note o = offered_simps [OF j i(7)]
  have "offer_made M A S (offer_of s') (concat bs)"
    unfolding offer_made_def o(1) using l(1,2) i by auto
  then show ?thesis unfolding o(2) i(6) cdata.simps by (rule server_step.start)
qed

lemma answered_simulated:
  assumes run: "rsp_dp_authenticate_client M A S resp md ok w = (Inr u, w')"
    and s: "ao_session (loc w) = Some s" "ao_session (loc w') = Some s'" "es9_ok M A S (Some s)"
  shows "server_step M A S (abs_of (Some s)) (Answered (offer_of s') (identity_of s') (cdata (ao_out (loc w')))) (abs_of (Some s'))"
proof -
  obtain rok cert eid r bs m where a: "cdata resp \<noteq> []" "a_dec_store_metadata A (cdata md) = Some m"
    "length (sm_iccid m) = 10" "length (sm_profileName m) \<le> 64" "length (sm_serviceProviderName m) \<le> 32"
    "a_dec_auth_server_response A (cdata resp) = Some (AuthenticateResponseOk rok)" "auth_checked M A S s rok cert eid"
    "auth_response_of M A S (ss_transaction_id s) (ar_euiccSignature1 rok) (cdata md) = Some r"
    "a_enc_auth_client_ok A r = Some bs" "ao_out (loc w') = Buf (concat bs)" "cdata md \<noteq> []"
    "s' = answered_session s cert eid (cdata md) (ac_smdpSignature2 r)"
    by (rule authenticate_run [OF run]) (use s(1,2) in \<open>auto simp: answered_session_def\<close>)
  have t: "of_transaction (offer_of s) = ss_transaction_id s" by (simp add: offer_of_def)
  have "answer_accepted M A S (offer_of s) (identity_of s') (concat bs)"
    unfolding answer_accepted_def session_for_auth t a(12) answered_session_simps identity.simps
    using a(1-9,11) by blast
  from trust_any [OF s(3) this] show ?thesis unfolding a(10,12) by simp
qed

lemma delivered_simulated:
  assumes run: "rsp_dp_get_bound_profile_package M A S resp upp sk ok w = (Inr u, w')"
    and s: "do_session (loc w) = Some s" "do_session (loc w') = Some s'" "es9_ok M A S (Some s)"
    and M: "cipher_laws M" "hash_laws M"
  shows "server_step M A S (abs_of (Some s)) (Delivered (offer_of s') (identity_of s') (cdata upp) (cdata (do_bpp (loc w')))) (abs_of (Some s'))"
proof -
  have sok: "session_ok s" using s(3) by (simp add: es9_ok_def)
  obtain rok k octets bpp ks otpk where d: "ss_authenticated s" "cdata resp \<noteq> []"
    "public_key M k = Some otpk" "length otpk = 65"
    "a_dec_prepare_download A (cdata resp) = Some (DownloadResponseOk rok)" "download_checked M A s rok"
    "eid_packed (ss_eid s) octets" "ss_eid_len s = 32" "cdata upp \<noteq> []" "ss_metadata_len s \<le> 1007"
    "download_of M A S s (pd_euiccSigned2 rok) octets (cdata upp) k = Some (bpp, ks)"
    "do_bpp (loc w') = Buf bpp" "do_session (loc w') = Some (download_commit s ks)"
    by (rule download_run [OF run s(1) sok M]) (rule that, assumption+)
  have i: "id_eid (identity_of s) = ss_eid s" "length (id_metadata (identity_of s)) = ss_metadata_len s"
    using sok d(1,8) by (auto simp: identity_of_def session_ok_def owned_bytes_def split: ptr.splits)
  have "package_served M A S (offer_of s) (identity_of s) (cdata upp) bpp ks"
    unfolding package_served_def session_for_download [OF sok d(1)] i using d(2-7,9-11) by blast
  moreover have "s' = download_commit s ks" using s(2) d(13) by simp
  ultimately show ?thesis using serve_any [OF d(1)] d(12) by simp
qed

theorem es9_simulated:
  assumes act: "es9_act M A S junk st e st'" and inv: "es9_ok M A S st" and j: "junk_clean junk"
    and laws: "cipher_laws M" "hash_laws M" "ber_laws A"
  shows "server_step M A S (abs_of st) e (abs_of st')"
  using act inv
proof cases
  case (offered w t sc chal info1 addr req ok u w' s')
  with offered_simulated [OF offered(7) offered(5,6,8) j] show ?thesis by simp
next
  case (not_offered w t sc chal info1 addr req ok d w')
  with initiate_fail(1) [OF not_offered(7)] show ?thesis by (simp add: server_step.refuse)
next
  case (answered w s resp md ok u w' s')
  with answered_simulated [OF answered(5,4,6)] inv show ?thesis by simp
next
  case (not_answered w s resp md ok d w')
  with authenticate_fail(1) [OF not_answered(5)] show ?thesis by (simp add: server_step.refuse)
next
  case (delivered w s resp upp sk ok u w' s')
  with delivered_simulated [OF delivered(5,4,6) _ laws(1,2)] inv show ?thesis by simp
next
  case (not_delivered w s resp upp sk ok d w')
  with download_fail [OF not_delivered(5)] show ?thesis by (simp add: server_step.refuse)
next
  case (reported s pir w u w')
  have "session_ok s" using inv reported(1) by (simp add: es9_ok_def)
  from framed_result_run [OF laws(3) this reported(4)] reported show ?thesis by (simp add: believe_any)
next
  case not_reported
  then show ?thesis by (simp add: server_step.refuse)
next
  case released
  then show ?thesis by (simp add: server_step.release)
qed

section \<open>Every event of the server is a call\<close>

inductive_cases step_offered: "server_step M A S a (Offered ofr reply) a'"
inductive_cases step_answered: "server_step M A S a (Answered ofr i reply) a'"
inductive_cases step_delivered: "server_step M A S a (Delivered ofr i upp bpp) a'"
inductive_cases step_reported: "server_step M A S a (Reported ofr i b) a'"
inductive_cases step_released: "server_step M A S a Released a'"
inductive_cases step_refused: "server_step M A S a Refused a'"

lemma offered_possible:
  assumes o: "offer_made M A S ofr reply" and A: "enc_laws A" and j: "junk_clean junk"
  shows "\<exists>s'. es9_act M A S junk None (Offered ofr reply) (Some s') \<and> abs_of (Some s') = Started ofr"
proof -
  let ?w = "\<lparr>faults = [], loc = \<lparr>io_session = None, io_resp = Null 0\<rparr>\<rparr>"
  let ?t = "of_transaction ofr" and ?c = "of_euicc_challenge ofr" and ?sc = "of_server_challenge ofr"
  define s' where "s' = junk\<lparr>ss_transaction_id := ?t, ss_euicc_challenge := ?c, ss_server_challenge := ?sc\<rparr>"
  from o obtain info1 ad r bs where r: "length ?t = 16" "length ?c = 16" "length ?sc = 16" "info1 \<noteq> []"
    "a_dec_euicc_info1 A info1" "init_response_of M A S (server_signed1_of ?t ?c ad ?sc) = Some r"
    "a_enc_init_auth_ok A r = Some bs" "reply = concat bs"
    unfolding offer_made_def by blast
  have w: "faults ?w = []" "io_session (loc ?w) = None" by simp_all
  have q: "\<forall>rq. None = Some rq \<longrightarrow> ascii_ieq ad rq" by simp
  have o: "offer_of s' = ofr" using offered_simps(1) [OF j s'_def] by simp
  note run = initiate_ok [OF w(1) A r(2,4,5) q r(6,7), where junk = junk, folded s'_def]
  have "es9_act M A S junk None (Offered (offer_of s') (concat bs)) (Some s')"
    using es9_act.offered [OF w(2) r(1,3) run] by simp
  then show ?thesis using offered_simps(2) [OF j s'_def] r(8) unfolding o by blast
qed

lemma answered_possible:
  assumes a: "answer_accepted M A S (offer_of s) i reply" and A: "enc_laws A" and s: "session_ok s"
  shows "\<exists>cert eid md sig. es9_act M A S junk (Some s) (Answered (offer_of s) i reply) (Some (answered_session s cert eid md sig)) \<and>
    i = identity_of (answered_session s cert eid md sig)"
proof -
  let ?w = "\<lparr>faults = [], loc = \<lparr>ao_session = Some s, ao_out = Null 0\<rparr>\<rparr>"
  let ?s = "answered_session s (id_certificate i) (id_eid i) (id_metadata i) (id_signature2 i)"
  from a obtain resp rok m r bs where r: "resp \<noteq> []" "id_metadata i \<noteq> []" "a_dec_store_metadata A (id_metadata i) = Some m"
    "length (sm_iccid m) = 10" "length (sm_profileName m) \<le> 64" "length (sm_serviceProviderName m) \<le> 32"
    "a_dec_auth_server_response A resp = Some (AuthenticateResponseOk rok)"
    "auth_checked M A S s rok (id_certificate i) (id_eid i)"
    "auth_response_of M A S (ss_transaction_id s) (ar_euiccSignature1 rok) (id_metadata i) = Some r"
    "a_enc_auth_client_ok A r = Some bs" "reply = concat bs" "id_signature2 i = ac_smdpSignature2 r"
    unfolding answer_accepted_def session_for_auth by (auto simp: offer_of_def)
  have w: "faults ?w = []" "ao_session (loc ?w) = Some s" by simp_all
  note run = authenticate_ok [OF w(1) A w(2) s r(1-10), folded r(12), folded answered_session_def]
  have i: "identity_of ?s = i" by simp
  have "es9_act M A S junk (Some s) (Answered (offer_of s) i reply) (Some ?s)"
    using es9_act.answered [OF w(2) run, of ?s junk] r(11) unfolding i by simp
  with i show ?thesis by metis
qed

lemma delivered_possible:
  assumes p: "package_served M A S (offer_of s) (identity_of s) upp bpp ks"
    and laws: "enc_laws A" "cipher_laws M" "hash_laws M" "ecdsa_laws M" and s: "session_ok s" "ss_authenticated s"
  shows "es9_act M A S junk (Some s) (Delivered (offer_of s) (identity_of s) upp bpp) (Some (download_commit s ks))"
proof -
  let ?w = "\<lparr>faults = [], loc = \<lparr>do_session = Some s, do_bpp = Null 0\<rparr>\<rparr>"
  from p obtain resp rok octets sk otpk where d: "resp \<noteq> []" "upp \<noteq> []"
    "a_dec_prepare_download A resp = Some (DownloadResponseOk rok)" "download_checked M A s rok"
    "public_key M sk = Some otpk" "length otpk = 65" "eid_packed (id_eid (identity_of s)) octets"
    "download_of M A S s (pd_euiccSigned2 rok) octets upp sk = Some (bpp, ks)" "length (id_metadata (identity_of s)) \<le> 1007"
    unfolding package_served_def session_for_download [OF s] by blast
  have m: "ss_metadata_len s \<le> 1007"
    using s d(9) by (auto simp: session_ok_def identity_of_def owned_bytes_def split: ptr.splits)
  have w: "faults ?w = []" "do_session (loc ?w) = Some s" by simp_all
  note run = download_ok [OF w(1) laws w(2) s m identity_eid [OF s(1) d(7)] d(1-6,8)]
  show ?thesis
    using es9_act.delivered [OF w(2) run, of "download_commit s ks"] by simp
qed

lemma reported_possible:
  assumes b: "report_believed M A (offer_of s) (identity_of s) success" and A: "ber_laws A"
    and s: "session_ok s" "ss_authenticated s"
  shows "es9_act M A S junk (Some s) (Reported (offer_of s) (identity_of s) success) (Some s)"
proof -
  let ?w = "\<lparr>faults = [], loc = \<lparr>po_installed = 0, po_command = None, po_reason = None\<rparr>\<rparr>"
  obtain cert where c: "ss_euicc_cert s = Owned cert" by (rule session_ok_owned [OF s])
  from b obtain n r d where r: "report_framed A n d" "signature_good M cert d (pir_euiccSignPIR r)"
    "length (pir_euiccSignPIR r) = 64" "a_dec_installation_result A n = Some r"
    "pir_transactionId r = ss_transaction_id s" "pir_finalResult r \<noteq> NoResult"
    "success = (pir_finalResult r = SuccessResult)"
    unfolding report_believed_def by (auto simp: offer_of_def identity_of_def owned_bytes_def c)
  have w: "faults ?w = []" by simp
  note run = framed_result_ok [OF A w s c r(1-6)]
  have "(po_installed (pir_report A (pir_finalResult r) (loc ?w)) = 1) = success"
    using r(6,7) by (cases "pir_finalResult r") (simp_all add: pir_report_def)
  then show ?thesis using es9_act.reported [OF run, of S junk] by simp
qed

lemma refused_possible: "es9_act M A S junk st Refused st"
proof (cases st)
  case None
  let ?w = "\<lparr>faults = [], loc = \<lparr>io_session = None, io_resp = Null 0\<rparr>\<rparr>"
  have "rsp_dp_initiate_authentication M A S junk (Null 0) (Null 0) (Some (replicate 16 0)) (Some (replicate 16 0)) None None False ?w
    = (Inl Minus2, ?w)"
    by (simp add: rsp_dp_initiate_authentication_def bnd_def ensure_def stop_with_def)
  from es9_act.not_offered [OF _ _ _ this] None show ?thesis by simp
next
  case (Some s)
  let ?w = "\<lparr>faults = [], loc = \<lparr>ao_session = Some s, ao_out = Null 0\<rparr>\<rparr>"
  have "rsp_dp_authenticate_client M A S (Null 0) (Null 0) False ?w = (Inl Minus2, ?w)"
    by (simp add: rsp_dp_authenticate_client_def Let_def bnd_def get_loc_def ensure_def stop_with_def)
  from es9_act.not_answered [OF _ this, of s junk] Some show ?thesis by simp
qed


lemma server_simulated:
  assumes step: "server_step M A S a e a'" and abs: "abs_of st = a" and inv: "es9_ok M A S st" and j: "junk_clean junk"
    and laws: "enc_laws A" "ber_laws A" "cipher_laws M" "hash_laws M" "ecdsa_laws M"
  shows "\<exists>st'. es9_act M A S junk st e st' \<and> abs_of st' = a'"
proof (cases st)
  case None
  with step abs have "(\<exists>ofr reply. e = Offered ofr reply \<and> a' = Started ofr \<and> offer_made M A S ofr reply) \<or> e = Refused \<and> a' = Idle"
    by (auto elim: server_step.cases)
  then show ?thesis
    using offered_possible [OF _ laws(1) j] refused_possible [of M A S junk st] None by fastforce
next
  case (Some s)
  then have ok: "session_ok s" "ss_have_bpp_session s \<Longrightarrow> ss_authenticated s" using inv by (simp_all add: es9_ok_def)
  show ?thesis
  proof (cases e)
    case (Offered ofr reply)
    with step abs Some have False by (auto elim: step_offered)
    then show ?thesis ..
  next
    case (Answered ofr i reply)
    have acc: "ofr = offer_of s" "answer_accepted M A S ofr i reply"
      and a': "a' = (if \<not> ss_authenticated s then Trusted ofr i else if ss_have_bpp_session s
        then Serving ofr i (ss_bpp_session s) else Trusted ofr i)"
      using step abs unfolding Answered Some abs_of_def by (auto elim!: step_answered split: if_splits)
    obtain cert eid md sig where r: "es9_act M A S junk (Some s) (Answered ofr i reply) (Some (answered_session s cert eid md sig))"
        "i = identity_of (answered_session s cert eid md sig)"
      using answered_possible [OF acc(2) [unfolded acc(1)] laws(1) ok(1)] acc(1) by blast
    have "abs_of (Some (answered_session s cert eid md sig)) = a'"
      using a' r(2) acc(1) ok(2) by (cases "ss_have_bpp_session s") auto
    with r(1) Some Answered show ?thesis by blast
  next
    case (Delivered ofr i upp bpp)
    obtain ks where p: "ss_authenticated s" "ofr = offer_of s" "i = identity_of s"
        "package_served M A S ofr i upp bpp ks" "a' = Serving ofr i ks"
      using step abs unfolding Delivered Some abs_of_def by (auto elim!: step_delivered split: if_splits)
    from delivered_possible [OF p(4) [unfolded p(2,3)] laws(1,3-5) ok(1) p(1)] p Some Delivered show ?thesis
      by (intro exI [of _ "Some (download_commit s ks)"]) simp
  next
    case (Reported ofr i success)
    have p: "ss_authenticated s" "ofr = offer_of s" "i = identity_of s" "report_believed M A ofr i success" "a' = a"
      using step abs unfolding Reported Some abs_of_def by (auto elim!: step_reported split: if_splits)
    from reported_possible [OF p(4) [unfolded p(2,3)] laws(2) ok(1) p(1)] p Some Reported abs show ?thesis by blast
  next
    case Released
    with step have "a' = Idle" by (auto elim: step_released)
    with es9_act.released [OF session_free_ok [OF ok(1)]] Released Some show ?thesis by auto
  next
    case Refused
    with step have "a' = a" by (auto elim: step_refused)
    with refused_possible [of M A S junk st] Refused abs show ?thesis by auto
  qed
qed

section \<open>The runs are the same\<close>

lemma es9_act_step: "es9_act M A S junk st e st' \<Longrightarrow> es9_step M A S junk st st' \<or> st' = st"
proof (induction rule: es9_act.cases)
  case (offered w t sc chal info1 addr req ok u w' s')
  from es9_step.initiate [OF offered(4-7)] offered show ?case by simp
next
  case (answered w s resp md ok u w' s')
  from es9_step.authenticate [OF answered(4,5)] answered show ?case by simp
next
  case (delivered w s resp upp sk ok u w' s')
  from es9_step.download [OF delivered(4,5)] delivered show ?case by simp
qed (auto dest: es9_step.free initiate_fail(1) authenticate_fail(1) download_fail)

lemma es9_run_reach: "es9_run M A S junk es st \<Longrightarrow> es9_reach M A S junk st"
proof (induction rule: es9_run.induct)
  case idle
  show ?case by (rule es9_reach.start)
next
  case (more es st e st')
  then show ?case using es9_act_step [OF more(2)] by (auto intro: es9_reach.step)
qed

lemma es9_run_server:
  assumes "es9_run M A S junk es st" "junk_clean junk" and laws: "ber_laws A" "cipher_laws M" "hash_laws M" "ecdsa_laws M"
  shows "server_run M A S es (abs_of st)"
  using assms(1)
proof (induction rule: es9_run.induct)
  case idle
  show ?case by (simp add: server_run.idle)
next
  case (more es st e st')
  have "es9_ok M A S st" by (rule es9_reach_ok [OF es9_run_reach [OF more(1)] assms(2) laws(2-4)])
  from server_run.more [OF more(3) es9_simulated [OF more(2) this assms(2) laws(2,3,1)]] show ?case .
qed

lemma server_run_es9:
  assumes "server_run M A S es a" "junk_clean junk"
    and laws: "enc_laws A" "ber_laws A" "cipher_laws M" "hash_laws M" "ecdsa_laws M"
  shows "\<exists>st. es9_run M A S junk es st \<and> abs_of st = a"
  using assms(1)
proof (induction rule: server_run.induct)
  case idle
  show ?case using es9_run.idle by fastforce
next
  case (more es a e a')
  then obtain st where st: "es9_run M A S junk es st" "abs_of st = a" by blast
  have "es9_ok M A S st" by (rule es9_reach_ok [OF es9_run_reach [OF st(1)] assms(2) laws(3-5)])
  from server_simulated [OF more(2) st(2) this assms(2) laws] es9_run.more [OF st(1)] show ?case by blast
qed

section \<open>What comes before a package\<close>

text \<open>Events that leave the offer, or the eUICC that answered it, in place.\<close>

fun same_offer :: "event \<Rightarrow> bool" where
  "same_offer (Offered ofr reply) = False"
| "same_offer Released = False"
| "same_offer _ = True"

fun same_identity :: "event \<Rightarrow> bool" where
  "same_identity (Answered ofr i reply) = False"
| "same_identity e = same_offer e"

definition offer_open :: "('c, 'g, 'p, 'k) mbedtls \<Rightarrow> 'a asn1c \<Rightarrow> sgp26 \<Rightarrow> event list \<Rightarrow> offer \<Rightarrow> bool" where
  "offer_open M A S es ofr \<longleftrightarrow> (\<exists>es0 reply es1. es = es0 @ Offered ofr reply # es1 \<and>
     list_all same_offer es1 \<and> offer_made M A S ofr reply)"

definition identity_open :: "('c, 'g, 'p, 'k) mbedtls \<Rightarrow> 'a asn1c \<Rightarrow> sgp26 \<Rightarrow> event list \<Rightarrow> offer \<Rightarrow> identity \<Rightarrow> bool" where
  "identity_open M A S es ofr i \<longleftrightarrow> (\<exists>es0 reply es1. es = es0 @ Answered ofr i reply # es1 \<and>
     list_all same_identity es1 \<and> answer_accepted M A S ofr i reply \<and> offer_open M A S es0 ofr)"

lemma same_identity_offer: "same_identity e \<Longrightarrow> same_offer e"
  by (cases e) simp_all

lemma offer_open_more: "offer_open M A S es ofr \<Longrightarrow> same_offer e \<Longrightarrow> offer_open M A S (es @ [e]) ofr"
  unfolding offer_open_def by (elim exE conjE) (rule exI, rule exI, rule_tac x = "es1 @ [e]" in exI, simp)

lemma identity_open_more: "identity_open M A S es ofr i \<Longrightarrow> same_identity e \<Longrightarrow> identity_open M A S (es @ [e]) ofr i"
  unfolding identity_open_def by (elim exE conjE) (rule exI, rule exI, rule_tac x = "es1 @ [e]" in exI, simp)

lemma offer_open_new: "offer_made M A S ofr reply \<Longrightarrow> offer_open M A S (es @ [Offered ofr reply]) ofr"
  unfolding offer_open_def by (intro exI [of _ es] exI [of _ reply] exI [of _ "[]"]) simp

lemma identity_open_new:
  "offer_open M A S es ofr \<Longrightarrow> answer_accepted M A S ofr i reply \<Longrightarrow> identity_open M A S (es @ [Answered ofr i reply]) ofr i"
  unfolding identity_open_def by (intro exI [of _ es] exI [of _ reply] exI [of _ "[]"]) simp

text \<open>The history a state of the server has behind it.\<close>

fun history_ok :: "('c, 'g, 'p, 'k) mbedtls \<Rightarrow> 'a asn1c \<Rightarrow> sgp26 \<Rightarrow> event list \<Rightarrow> server \<Rightarrow> bool" where
  "history_ok M A S es Idle = True"
| "history_ok M A S es (Started ofr) = offer_open M A S es ofr"
| "history_ok M A S es (Trusted ofr i) = (offer_open M A S es ofr \<and> identity_open M A S es ofr i)"
| "history_ok M A S es (Serving ofr i ks) = (offer_open M A S es ofr \<and> identity_open M A S es ofr i)"

lemma history_refused: "history_ok M A S es a \<Longrightarrow> history_ok M A S (es @ [Refused]) a"
  by (cases a) (auto intro: offer_open_more identity_open_more)

lemma server_history: "server_run M A S es a \<Longrightarrow> history_ok M A S es a"
proof (induction rule: server_run.induct)
  case idle
  show ?case by simp
next
  case (more es a e a')
  from more(2,3) show ?case
    by (cases rule: server_step.cases)
      (auto intro: offer_open_more identity_open_more offer_open_new identity_open_new history_refused)
qed

inductive_cases run_snoc: "server_run M A S (es @ [e]) a"

lemma server_prefix: "server_run M A S (es @ es') a \<Longrightarrow> \<exists>a'. server_run M A S es a'"
proof (induction es' arbitrary: a rule: rev_induct)
  case Nil
  then show ?case by auto
next
  case (snoc e es')
  have "server_run M A S ((es @ es') @ [e]) a" using snoc(2) by simp
  then obtain a0 where "server_run M A S (es @ es') a0" by (rule run_snoc) blast
  then show ?case by (rule snoc(1))
qed

lemma server_event:
  assumes "server_run M A S (es @ e # es') a"
  obtains a0 a1 where "server_run M A S es a0" "server_step M A S a0 e a1"
proof -
  have "server_run M A S ((es @ [e]) @ es') a" using assms by simp
  then obtain a1 where "server_run M A S (es @ [e]) a1" using server_prefix by blast
  then show ?thesis using that by (rule run_snoc) blast
qed

lemma delivered_history:
  assumes "server_run M A S (es @ Delivered ofr i upp bpp # es') a"
  shows "identity_open M A S es ofr i \<and> (\<exists>ks. package_served M A S ofr i upp bpp ks)"
proof -
  obtain a0 a1 where "server_run M A S es a0" "server_step M A S a0 (Delivered ofr i upp bpp) a1"
    by (rule server_event [OF assms])
  from this(2) server_history [OF this(1)] show ?thesis by (auto elim: step_delivered)
qed

lemma reported_history:
  assumes "server_run M A S (es @ Reported ofr i b # es') a"
  shows "identity_open M A S es ofr i \<and> report_believed M A ofr i b"
proof -
  obtain a0 a1 where "server_run M A S es a0" "server_step M A S a0 (Reported ofr i b) a1"
    by (rule server_event [OF assms])
  from this(2) server_history [OF this(1)] show ?thesis by (auto elim: step_reported)
qed

end
