(* ===== verification/RunSample.thy ===== *)
theory RunSample
  imports Refine Sample
begin

text \<open>
  A whole life of a session at the toy instance of \<open>Sample\<close>, as the events its caller sees: the
  offer, the eUICC's answer, the package, the eUICC's report of the installation, the release.
\<close>

definition toy_offer :: offer where
  "toy_offer = \<lparr>of_transaction = toy_tid, of_euicc_challenge = toy_euicc_challenge, of_server_challenge = toy_challenge\<rparr>"

definition toy_identity :: identity where
  "toy_identity = \<lparr>id_certificate = toy_euicc_cert, id_eid = toy_eid, id_metadata = toy_md, id_signature2 = toy_sig2\<rparr>"

definition toy_reply :: bytes where "toy_reply = concat [toy_tid, toy_sig2, dppb_der toy_sgp26]"

lemma toy_offers: "offer_of toy_s1 = toy_offer" "offer_of toy_s2 = toy_offer"
  by (simp_all add: offer_of_def toy_offer_def toy_s2_ok) (simp_all add: toy_s1_def toy_s2_def)

lemma toy_identities: "identity_of toy_s2 = toy_identity"
  by (simp add: identity_of_def toy_identity_def owned_bytes_def toy_s2_ok)

definition toy_life :: "bytes \<Rightarrow> event list" where
  "toy_life reply = [Offered toy_offer reply, Answered toy_offer toy_identity toy_reply,
     Delivered toy_offer toy_identity toy_upp toy_bpp, Reported toy_offer toy_identity True, Refused, Released]"

lemma toy_report:
  "\<exists>w'. rsp_dp_verify_installation_result toy_mbed toy_asn1 (Some (download_commit toy_s2 toy_keys)) (Buf toy_pir) True
     \<lparr>faults = [], loc = \<lparr>po_installed = 0, po_command = None, po_reason = None\<rparr>\<rparr> = (Inr (), w') \<and> po_installed (loc w') = 1"
proof -
  let ?w = "\<lparr>faults = [], loc = \<lparr>po_installed = 0, po_command = None, po_reason = None\<rparr>\<rparr>"
  let ?s = "download_commit toy_s2 toy_keys"
  have w: "faults ?w = []" by simp
  have s: "session_ok ?s" "ss_authenticated ?s" "ss_euicc_cert ?s = Owned toy_euicc_cert" "ss_transaction_id ?s = toy_tid"
    using toy_s2_ok by (simp_all add: download_commit_def session_ok_def)
  have r: "pir_transactionId toy_result = ss_transaction_id ?s" "pir_finalResult toy_result \<noteq> NoResult"
    by (simp_all add: toy_result_def s(4))
  from installation_result_ok [OF toy_ber_laws w s(1-3) toy_pir_lengths toy_pir_def toy_pir_decode r(1) toy_pir_genuine r(2)]
  show ?thesis by (simp add: toy_result_def pir_report_def)
qed

lemma toy_life_run: "\<exists>reply. es9_run toy_mbed toy_asn1 toy_sgp26 zero_dp_session (toy_life reply) None"
proof -
  let ?act = "es9_act toy_mbed toy_asn1 toy_sgp26 zero_dp_session"
  let ?s = "download_commit toy_s2 toy_keys"
  obtain bs where "rsp_dp_initiate_authentication toy_mbed toy_asn1 toy_sgp26 zero_dp_session (Buf toy_euicc_challenge)
    (Buf [1]) (Some toy_tid) (Some toy_challenge) (Some [0x61]) (Some [0x41]) True toy_init_world =
    (Inr (), toy_init_world\<lparr>loc := \<lparr>io_session = Some toy_s1, io_resp = Buf bs\<rparr>\<rparr>)" by (rule toy_initiated)
  from es9_act.offered [OF _ _ _ this] have 1: "?act None (Offered toy_offer bs) (Some toy_s1)"
    by (simp add: toy_offers)
  from es9_act.answered [OF _ toy_authenticated] have 2: "?act (Some toy_s1) (Answered toy_offer toy_identity toy_reply) (Some toy_s2)"
    by (simp add: toy_offers toy_identities toy_reply_def)
  from es9_act.delivered [OF toy_down_world(2) toy_downloaded, of ?s zero_dp_session] have 3: "?act (Some toy_s2) (Delivered toy_offer toy_identity toy_upp toy_bpp) (Some ?s)"
    by (simp add: toy_offers toy_identities)
  from toy_report obtain w' where r: "rsp_dp_verify_installation_result toy_mbed toy_asn1 (Some ?s) (Buf toy_pir) True
     \<lparr>faults = [], loc = \<lparr>po_installed = 0, po_command = None, po_reason = None\<rparr>\<rparr> = (Inr (), w')" "po_installed (loc w') = 1" by blast
  from es9_act.reported [OF r(1)] have 4: "?act (Some ?s) (Reported toy_offer toy_identity True) (Some ?s)"
    by (simp add: toy_offers toy_identities r(2))
  have "session_ok ?s" using toy_s2_ok by (simp add: download_commit_def session_ok_def)
  from es9_act.released [OF session_free_ok [OF this]] have 5: "?act (Some ?s) Released None" .
  note more = es9_run.more [where M = toy_mbed and A = toy_asn1 and S = toy_sgp26 and junk = zero_dp_session]
  from more [OF more [OF more [OF more [OF more [OF more [OF es9_run.idle 1] 2] 3] 4] refused_possible] 5]
  show ?thesis unfolding toy_life_def by auto
qed

end
