(* ===== verification/Spec2Isabelle.thy ===== *)
theory Spec2Isabelle
  imports Answers CardSample Dump Channel RunSample
begin

text \<open>
  A verification development of euicc-rsp, a C library for the SM-DP+ side of GSMA SGP.22
  remote SIM provisioning: it authenticates an eUICC (the chip of an eSIM), derives session keys
  with it, wraps a profile into a Bound Profile Package (BPP) protected segment by segment, and
  checks what the eUICC reports afterwards.

  \<^bold>\<open>The program's parts and their theories.\<close> From the bottom up:

  \<^item> \<open>Prelude\<close>: octets, the ways a C function stops, the state-and-error monad \<open>cm\<close> the bodies
    are written in, the failure schedule, the weakest-precondition rules (\<open>wp\<close>), the frame
    predicate \<open>keeps\<close> and the rules for runs without operational failures.
  \<^item> \<open>Internal\<close>: \<open>src/src/rsp_internal.h\<close>. \<open>rsp_der_length_octets\<close>, \<open>rsp_growbuf_append\<close> (its
    doubling loop is \<open>grow_cap\<close>), the extension callbacks, \<open>RSP_HOST_ID\<close>;
    and \<open>rsp_version\<close>.
  \<^item> \<open>Mbed\<close>, \<open>Asn1\<close>: the interfaces of mbedTLS, of the embedded SGP.26 material and of the
    asn1c-generated codec, as records \<open>mbedtls\<close>, \<open>sgp26\<close> and \<open>asn1c\<close> that every user takes as
    arguments; \<open>der_collect\<close> and \<open>der_encode_alloc\<close> of \<open>rsp_bpp.c\<close>, which
    \<open>rsp_es9.c\<close> repeats word for word.
  \<^item> \<open>Scp03t\<close>: \<open>rsp_protect\<close>, \<open>rsp_protect_mac_only\<close>, \<open>rsp_unprotect\<close>,
    \<open>rsp_unprotect_mac_only\<close>, the MAC, the ICV and the encryption counter of \<open>rsp_crypto.c\<close>, over the
    session record \<open>rsp_session\<close>.
  \<^item> \<open>Kdf\<close>: \<open>rsp_ecdh_p256\<close>, \<open>rsp_kdf_x963\<close>, \<open>rsp_session_init\<close>, \<open>rsp_session_wipe\<close>.
  \<^item> \<open>Sign\<close>: \<open>rsp_sign.c\<close> and \<open>rsp_pki.c\<close>.
  \<^item> \<open>Tlv\<close>: the hand-written TLV writers and readers of \<open>rsp_bpp.c\<close> and \<open>rsp_es9.c\<close>, and
    \<open>rsp_dp_initiate_fields\<close> / \<open>rsp_dp_authenticate_fields\<close>.
  \<^item> \<open>Bpp\<close> and \<open>Recover\<close>: \<open>rsp_bpp_build\<close> and \<open>rsp_bpp_recover\<close> with everything they call.
  \<^item> \<open>Session\<close>, \<open>Auth\<close>, \<open>Download\<close>, \<open>Notify\<close>: the ES9+ handlers of \<open>rsp_es9.c\<close>, on the
    session record \<open>rsp_dp_session\<close>: \<open>rsp_dp_initiate_authentication\<close>,
    \<open>rsp_dp_authenticate_client\<close>, \<open>rsp_dp_get_bound_profile_package\<close>, the accessors, and the
    verification of installation results and notifications.
  \<^item> \<open>Protocol\<close>: the handlers as an inductive step relation \<open>es9_step\<close> on a server's session,
    its reachable states \<open>es9_reach\<close>, the phases of a session and the invariant \<open>es9_ok\<close>.
  \<^item> \<open>Refine\<close>: the specification of the ES9+ side, a server whose state is the offer it made, the
    eUICC that answered and the keys of the package it served (\<open>server_step\<close>), the calls as labelled
    steps (\<open>es9_act\<close>), the abstraction \<open>abs_of\<close> of a session, the simulation in both directions
    (\<open>es9_simulated\<close>, \<open>server_simulated\<close>), and what precedes a package in a run.
  \<^item> \<open>Answers\<close>: that the calls stop with -1 or -2 only.
  \<^item> \<open>Channel\<close>: the calls on one SCP03t session as a sequence, in any order and with any failures.
  \<^item> \<open>Dump\<close>: \<open>tools/bpp-dump.c\<close>: \<open>slurp\<close>, its own TLV reader, \<open>hexdump\<close> and \<open>walk\<close>, with the text
    they print; the reader agrees with \<open>parse_tlv\<close>.
  \<^item> \<open>Euicc\<close> and \<open>Card\<close>: \<open>tests/fixtures.c\<close>, the eUICC's side of a session: the builders of its
    messages over the sink \<open>collect\<close>, and that the library accepts what they build. The encoders that
    only the eUICC uses are a second codec record, \<open>card_codec\<close>. \<open>Computes\<close> is the predicate that an
    operation leaves the caller's memory alone and returns one given value or -1.
  \<^item> \<open>Replay\<close>: \<open>tools/session-fixtures.c\<close>: one whole session between \<open>rsp_es9.c\<close> and the test eUICC
    (\<open>replay_session\<close>), written to files (\<open>replay_write\<close>); the state of \<open>session_fixtures_main\<close> is the
    file system, and \<open>exit(1)\<close> is a stop that it turns into the status 1.
  \<^item> \<open>Sample\<close>, \<open>RunSample\<close> and \<open>CardSample\<close>: toy instances of the parameters in which every assumed law holds, with
    one whole provisioning run and one run of the fixture tool; the witnesses evaluate there.

  The root theory holds the properties, most important first. Handlers rest on \<open>Bpp\<close>, \<open>Kdf\<close> and
  \<open>Sign\<close>; a download builds a package under keys from \<open>rsp_session_init\<close>; \<open>rsp_bpp_recover\<close> is the
  eUICC's side of the same channel. The fixture tool is the composition of all of them: each library call is
  fed with what the eUICC's builder made of the call before it.

  \<^bold>\<open>How C is represented.\<close> A function is a computation \<open>(loc, 'a) cm\<close>: \<open>loc\<close> is what it
  changes through a pointer argument, its result is a value or one of the stops \<open>Minus1\<close>,
  \<open>Minus2\<close> (the returned codes), \<open>Undefined\<close> (an access outside a buffer, a use of an
  indeterminate pointer) and \<open>Diverges\<close>. A nullable buffer is a \<open>cbuf\<close>, a pointer member of the
  session a \<open>ptr\<close>, a received buffer with a position a list and an offset, and every read goes
  through \<open>rd\<close> or \<open>rd_block\<close>. Operational failures (malloc, realloc, the RNG, an mbedTLS
  primitive) come from the schedule \<open>faults\<close>, one entry per call; a theorem without a condition
  on it holds wherever failures strike, and \<open>faults w = []\<close> is the run without one. Locations of
  failure are in the order of the code. The parameter \<open>junk\<close> is what malloc leaves in a fresh
  session.

  \<^bold>\<open>Assumed laws.\<close> Each states documented behaviour of code outside the repository and is an
  explicit premise where used: \<open>cipher_laws\<close> (AES-CBC decryption inverts encryption and keeps
  the length, block sizes), \<open>hash_laws\<close> (a SHA-256 digest has 32 octets), \<open>ecdsa_laws\<close>
  (a signature verifies under its key and has 32-octet halves), \<open>ecdh_laws\<close> (both sides of ECDH
  agree), \<open>ber_laws\<close> (X.690 reading of tag and length octets), \<open>enc_laws\<close> (an encoding's
  length fits an \<open>ssize_t\<close>) and \<open>isc_codec_law\<close> (an InitialiseSecureChannelRequest is one TLV
  with tag BF23). \<open>Sample\<close> proves all of them for the toy instance, so they hold together. For the eUICC's
  side: \<open>message_laws\<close> and \<open>report_laws\<close> (together \<open>card_laws\<close>: what an asn1c encoder wrote, its decoder
  reads back, and the octets of a report are the nested TLVs of the ASN.1 module), \<open>auth_ok_law\<close> (the same for
  the members of an AuthenticateClientResponse) and \<open>card_material\<close> (the published test certificates chain to
  the CI and carry the test EID and key); \<open>replay_laws\<close> is their conjunction with the laws above, and
  \<open>CardSample\<close> proves it and \<open>card_material\<close> for its instance.

  \<^bold>\<open>What the lemmas show.\<close> For each operation three groups: \<open>_run\<close> and \<open>_ok\<close> lemmas give the
  value of every successful call as a plain function of its arguments (\<open>bpp_of\<close>, \<open>kdf_value\<close>,
  \<open>auth_checked\<close>, \<open>download_of\<close>); \<open>_wp\<close> and \<open>_fail\<close> lemmas say what holds after any call,
  errors included; \<open>keeps_\<close> lemmas say what is left alone. On these rest
  the root properties: that the calls have the runs of the server of \<open>Refine\<close> and no others, so that
  a package is only ever delivered to the eUICC that answered the offer; the session invariant, its phases and what may not change in it; what an
  accepted AuthenticateClient or download proves about the eUICC; that a package recovers to its
  profile and that what is recovered was protected under the session; the round trips, bounds and
  error codes of SCP03t, TLV, KDF and ECDSA; that a handler never leaves its buffers; that a session with the
  test eUICC succeeds from end to end and its fixture files are a function of the material alone; and that any
  sequence of segment operations keeps the keys and counts its successes.
  The locale \<open>byte_buffer\<close> is the contract of an append-only buffer, interpreted on
  \<open>rsp_growbuf_append\<close> (\<open>gb\<close>), on the callback \<open>der_collect\<close> (\<open>dc\<close>) and on the fixtures' sink (\<open>sk\<close>);
  \<open>segment_channel\<close> is the contract of a protect/unprotect pair, interpreted on both kinds of
  segment of \<open>Scp03t\<close> (\<open>scp\<close>), so that it covers a sequence that mixes them.

  \<^bold>\<open>Bounds and loops.\<close> \<open>size_t\<close> has 64 bits. The doubling loop \<open>grow_cap\<close> is a
  \<open>partial_function\<close>, so not returning is \<open>None\<close>: it returns for every request up to 2^63
  octets and, by \<open>growbuf_append_returns\<close>, \<open>rsp_growbuf_append\<close> with it. Package building
  assumes a profile and metadata below 2^50 octets, far past the 2^32 that DER length octets of four bytes
  allow, and keeps clear of 2^63. The block counter of \<open>rsp_kdf_x963\<close> and the encryption counter
  are kept at their widths; every other loop is structural or has a measure.

  \<^bold>\<open>Not modelled.\<close> \<open>free\<close> of scratch memory and zeroising of locals (they change no visible
  state); \<open>main\<close> of \<open>tools/bpp-dump.c\<close>, which initialises members \<open>rsp_bpp_input_t\<close> does not have, so
  that the tool does not compile; what the tools print on the terminal besides the dump; the test
  programs, which assert values of single calls. mbedTLS is an empty submodule and the codec is generated at build time from
  \<open>rsp-2.5.asn\<close>: both are parameters.
\<close>

lemmas session_specs = protect_run protect_fail protect_mac_only_run protect_mac_only_fail
  unprotect_fail unprotect_mac_only_fail

section \<open>The ES9+ session\<close>

text \<open>C1. The ES9+ calls implement the server of \<open>Refine\<close>: with cleared memory and under the laws of the primitives, the sequences of events (offers, accepted answers, packages, believed reports, releases and refusals, each with what was returned) that some calls of \<open>rsp_es9.c\<close> show, with any arguments and any operational failures, are exactly those of the server that knows only the offer it made, the eUICC that answered it and the keys it served, and they end in the same state of it.\<close>

theorem es9_refines:
  assumes "junk_clean junk" "enc_laws A" "ber_laws A" "cipher_laws M" "hash_laws M" "ecdsa_laws M"
  shows "server_run M A S es a \<longleftrightarrow> (\<exists>st. es9_run M A S junk es st \<and> abs_of st = a)"
  using server_run_es9 [OF _ assms] es9_run_server [OF _ assms(1,3-6)] by blast

theorem es9_refines_witness:
  "\<exists>reply. server_run toy_mbed toy_asn1 toy_sgp26 (toy_life reply) Idle"
proof -
  obtain reply where "es9_run toy_mbed toy_asn1 toy_sgp26 zero_dp_session (toy_life reply) None"
    using toy_life_run by blast
  then show ?thesis
    using es9_refines [OF toy_junk toy_enc_laws toy_ber_laws toy_cipher_laws toy_hash_laws toy_ecdsa_laws] abs_of_simps(1) by blast
qed



text \<open>C3. In every state that some sequence of calls (initiation, authentication, download, release, with any arguments and any operational failures) can reach, the session's members are well formed and agree with each other; an authenticated session holds a certificate that chains to the CI, whose key signed this session's transaction and challenge, together with the EID of that certificate; and a session that has package keys is authenticated. It rests on the allocator handing out cleared memory.\<close>

theorem es9_invariant:
  assumes "es9_reach M A S junk (Some s)" "junk_clean junk" "cipher_laws M" "hash_laws M" "ecdsa_laws M"
  shows "session_ok s \<and> (ss_authenticated s \<longrightarrow> attested M A S s) \<and>
    (ss_have_bpp_session s \<longrightarrow> ss_authenticated s \<and> session_wf (ss_bpp_session s))"
  using es9_reach_ok [OF assms] by (simp add: es9_ok_def)

theorem es9_invariant_witness:
  "attested toy_mbed toy_asn1 toy_sgp26 (download_commit toy_s2 toy_keys)"
  using es9_invariant [OF toy_reach(4) toy_junk toy_cipher_laws toy_hash_laws toy_ecdsa_laws]
  by (simp add: download_commit_def toy_s2_ok)



text \<open>C5. \<open>rsp_dp_authenticate_client\<close>: when it succeeds, the response decoded to the OK arm and passed every check of SGP.22 5.6.3 (transaction, challenge, certificate chain, signature, EID), the caller gets the encoding of the response that is signed with the DPpb key, and exactly the members of the session that the response justifies have changed; when it fails, the session is what it was.\<close>

theorem authenticate_client_spec:
  "wp (rsp_dp_authenticate_client M A S resp md ok)
    (\<lambda>_ w'. \<exists>s rok cert eid r bs. ao_session (loc w) = Some s \<and>
       a_dec_auth_server_response A (cdata resp) = Some (AuthenticateResponseOk rok) \<and>
       auth_checked M A S s rok cert eid \<and>
       auth_response_of M A S (ss_transaction_id s) (ar_euiccSignature1 rok) (cdata md) = Some r \<and>
       a_enc_auth_client_ok A r = Some bs \<and> ao_out (loc w') = Buf (concat bs) \<and>
       ao_session (loc w') = Some (s\<lparr>ss_euicc_cert := Owned cert, ss_euicc_cert_len := length cert,
         ss_eid := eid @ drop (length eid) (ss_eid s), ss_eid_len := length eid,
         ss_metadata := Owned (cdata md), ss_metadata_len := length (cdata md),
         ss_smdp_signature2 := ac_smdpSignature2 r, ss_authenticated := True\<rparr>))
    (\<lambda>e w'. ao_session (loc w') = ao_session (loc w) \<and>
       (ao_out (loc w') = ao_out (loc w) \<or> ao_out (loc w') = Null 0 \<or> e = Undefined)) w"
proof (rule wpI, goal_cases)
  case (1 u w')
  show ?case by (rule authenticate_run [OF 1]) blast
next
  case (2 e w')
  then show ?case using authenticate_fail [OF 2] by blast
qed

text \<open>C6. \<open>rsp_dp_authenticate_client\<close> accepts a good response: when the metadata decodes within its limits, the response passes the checks and nothing fails operationally, the call succeeds with the signed response and the session is authenticated.\<close>

theorem authenticate_client_accepts:
  assumes "faults w = []" "enc_laws A" "ao_session (loc w) = Some s" "session_ok s"
    and "resp \<noteq> []" "md \<noteq> []" "a_dec_store_metadata A md = Some m" "length (sm_iccid m) = 10"
      "length (sm_profileName m) \<le> 64" "length (sm_serviceProviderName m) \<le> 32"
    and "a_dec_auth_server_response A resp = Some (AuthenticateResponseOk rok)"
    and "auth_checked M A S s rok cert eid"
    and "auth_response_of M A S (ss_transaction_id s) (ar_euiccSignature1 rok) md = Some r"
      "a_enc_auth_client_ok A r = Some bs"
  shows "\<exists>w' s'. rsp_dp_authenticate_client M A S (Buf resp) (Buf md) True w = (Inr (), w') \<and>
    ao_out (loc w') = Buf (concat bs) \<and> ao_session (loc w') = Some s' \<and> ss_authenticated s' \<and>
    ss_euicc_cert s' = Owned cert \<and> take (ss_eid_len s') (ss_eid s') = eid"
  using authenticate_ok [OF assms] by simp

theorem authenticate_client_accepts_witness:
  "\<exists>w' s'. rsp_dp_authenticate_client toy_mbed toy_asn1 toy_sgp26 (Buf toy_resp1) (Buf toy_md) True toy_auth_world = (Inr (), w') \<and>
    ao_session (loc w') = Some s' \<and> ss_authenticated s'"
proof -
  obtain m where m: "a_dec_store_metadata toy_asn1 toy_md = Some m" "length (sm_iccid m) = 10"
    "length (sm_profileName m) \<le> 64" "length (sm_serviceProviderName m) \<le> 32" using toy_metadata by auto
  have n: "toy_resp1 \<noteq> []" "toy_md \<noteq> []" by (simp_all add: toy_resp1_def toy_tid_def toy_md_def)
  have t: "ss_transaction_id toy_s1 = toy_tid" by (simp add: toy_s1_def)
  from authenticate_client_accepts [OF toy_worlds(3) toy_enc_laws toy_worlds(4) toy_s1_ok n m toy_decode1 toy_auth_checked,
      folded t, OF toy_auth_response [folded t]]
  show ?thesis by blast
qed

text \<open>C7. \<open>rsp_dp_get_bound_profile_package\<close>: when it succeeds, the session was authenticated, the eUICC's answer passed the checks of SGP.22 5.6.2, and the package is the one that the session keys derived from the one-time keys and the EID determine; the session keeps those keys. When it fails, neither the session nor the caller's pointer has changed.\<close>

theorem get_bound_profile_package_spec:
  assumes "do_session (loc w) = Some s" "session_ok s" "cipher_laws M" "hash_laws M"
  shows "wp (rsp_dp_get_bound_profile_package M A S resp upp sk ok)
    (\<lambda>_ w'. \<exists>rok k octets bpp ks. ss_authenticated s \<and> sk = Some k \<and>
       a_dec_prepare_download A (cdata resp) = Some (DownloadResponseOk rok) \<and> download_checked M A s rok \<and>
       eid_packed (ss_eid s) octets \<and>
       download_of M A S s (pd_euiccSigned2 rok) octets (cdata upp) k = Some (bpp, ks) \<and>
       do_bpp (loc w') = Buf bpp \<and> do_session (loc w') = Some (download_commit s ks))
    (\<lambda>e w'. loc w' = loc w) w"
proof (rule wpI, goal_cases)
  case (1 u w')
  obtain rok :: download_ok and k octets bpp ks where "ss_authenticated s" "sk = Some k"
    "a_dec_prepare_download A (cdata resp) = Some (DownloadResponseOk rok)" "download_checked M A s rok"
    "eid_packed (ss_eid s) octets"
    "download_of M A S s (pd_euiccSigned2 rok) octets (cdata upp) k = Some (bpp, ks)"
    "do_bpp (loc w') = Buf bpp" "do_session (loc w') = Some (download_commit s ks)"
    by (rule download_run [OF 1 assms]) (rule that, assumption+)
  then show ?case by blast
qed (rule download_fail)

theorem get_bound_profile_package_spec_witness:
  "download_checked toy_mbed toy_asn1 toy_s2 toy_rok2 \<and>
   rsp_dp_get_bound_profile_package toy_mbed toy_asn1 toy_sgp26 (Buf toy_resp2) (Buf toy_upp) (Some toy_sk) True toy_down_world
     = (Inr (), toy_down_world\<lparr>loc := \<lparr>do_session = Some (download_commit toy_s2 toy_keys), do_bpp = Buf toy_bpp\<rparr>\<rparr>)"
  using wp_Inr [OF get_bound_profile_package_spec [OF toy_down_world(2) toy_s2_ok(1) toy_cipher_laws toy_hash_laws] toy_downloaded]
    toy_downloaded toy_decode2 by auto

text \<open>C8. End to end: whenever \<open>rsp_dp_get_bound_profile_package\<close> returns a package, an eUICC that holds the one-time secret key of its answer and is told the SM-DP+'s public one-time key derives a session over the same SharedInfo, recovers exactly the profile from the package, and ends in the session the SM-DP+ keeps.\<close>

theorem profile_reaches_euicc:
  assumes run: "rsp_dp_get_bound_profile_package M A S resp upp (Some sk) True w = (Inr (), w')"
    and s: "do_session (loc w) = Some s" "session_ok s" and M: "cipher_laws M" "hash_laws M" "ecdsa_laws M" "ecdh_laws M"
    and A: "ber_laws A" "isc_codec_law A" and d: "a_dec_prepare_download A (cdata resp) = Some (DownloadResponseOk rok)"
    and e: "public_key M sk_e = Some (es2_euiccOtpk (pd_euiccSigned2 rok))"
    and otpk: "public_key M sk = Some otpk" "length otpk = 65"
    and v: "faults v = []" "loc v = Some s0"
  shows "\<exists>bpp ks ks0 octets. do_bpp (loc w') = Buf bpp \<and> eid_packed (ss_eid s) octets \<and>
    do_session (loc w') = Some (download_commit s ks) \<and>
    rsp_session_init M (Some sk_e) (Some otpk) (Buf (shared_info_of octets)) v = (Inr (), v\<lparr>loc := Some ks0\<rparr>) \<and>
    rsp_bpp_recover M A (Buf bpp) True (v\<lparr>loc := Some ks0\<rparr>) = (Inr (Buf (cdata upp)), v\<lparr>loc := Some ks\<rparr>)"
proof -
  obtain rok' :: download_ok and k octets bpp ks where r: "ss_authenticated s" "Some sk = Some k"
    "a_dec_prepare_download A (cdata resp) = Some (DownloadResponseOk rok')" "download_checked M A s rok'"
    "eid_packed (ss_eid s) octets" "cdata upp \<noteq> []" "ss_metadata_len s \<le> 1007"
    "download_of M A S s (pd_euiccSigned2 rok') octets (cdata upp) k = Some (bpp, ks)"
    "do_bpp (loc w') = Buf bpp" "do_session (loc w') = Some (download_commit s ks)"
    by (rule download_run [OF run s M(1,2)]) (rule that, assumption+)
  have l: "length (es2_euiccOtpk (pd_euiccSigned2 rok)) = 65" "rok' = rok" "k = sk"
    using r d by (auto simp: download_checked_def)
  from download_recovered [OF r(8)[unfolded l] r(5) M A s(2) r(1,7,6) e l(1) otpk v] r(5,9,10) show ?thesis by blast
qed

theorem profile_reaches_euicc_witness:
  "\<exists>ks0 octets. rsp_session_init toy_mbed (Some (be_bytes 32 13)) (Some (toy_point 14)) (Buf (shared_info_of octets))
      (toy_run toy_session) = (Inr (), (toy_run toy_session)\<lparr>loc := Some ks0\<rparr>) \<and>
    rsp_bpp_recover toy_mbed toy_asn1 (Buf toy_bpp) True ((toy_run toy_session)\<lparr>loc := Some ks0\<rparr>)
      = (Inr (Buf toy_upp), (toy_run toy_session)\<lparr>loc := Some toy_keys\<rparr>)"
proof -
  have e: "public_key toy_mbed (be_bytes 32 13) = Some (es2_euiccOtpk (pd_euiccSigned2 toy_rok2))"
    by (simp add: toy_public_key toy_rok2_def toy_es2_def)
  have p: "public_key toy_mbed toy_sk = Some (toy_point 14)" by (simp add: toy_sk_def toy_public_key)
  have d: "a_dec_prepare_download toy_asn1 (cdata (Buf toy_resp2)) = Some (DownloadResponseOk toy_rok2)" by (simp add: toy_decode2)
  from profile_reaches_euicc [OF toy_downloaded toy_down_world(2) toy_s2_ok(1) toy_cipher_laws toy_hash_laws toy_ecdsa_laws
      toy_ecdh_laws toy_ber_laws toy_isc_law d e p toy_point_length toy_run_simps, of toy_session]
  obtain bpp ks ks0 octets where r: "bpp = toy_bpp" "download_commit toy_s2 toy_keys = download_commit toy_s2 ks"
    "rsp_session_init toy_mbed (Some (be_bytes 32 13)) (Some (toy_point 14)) (Buf (shared_info_of octets))
      (toy_run toy_session) = (Inr (), (toy_run toy_session)\<lparr>loc := Some ks0\<rparr>)"
    "rsp_bpp_recover toy_mbed toy_asn1 (Buf bpp) True ((toy_run toy_session)\<lparr>loc := Some ks0\<rparr>)
      = (Inr (Buf toy_upp), (toy_run toy_session)\<lparr>loc := Some ks\<rparr>)" by auto
  have "ks = toy_keys" using arg_cong [OF r(2), of ss_bpp_session] by (simp add: download_commit_def)
  with r show ?thesis by blast
qed

text \<open>C9. \<open>rsp_dp_get_bound_profile_package\<close> serves a good answer: on an authenticated session with a 32-digit EID and metadata that fits one segment, an answer that passes the checks gets its package when nothing fails operationally.\<close>

theorem get_bound_profile_package_serves:
  assumes "faults w = []" "enc_laws A" "cipher_laws M" "hash_laws M" "ecdsa_laws M"
    and "do_session (loc w) = Some s" "session_ok s" "ss_authenticated s" "ss_metadata_len s \<le> 1007"
    and "ss_eid_len s = 32" "eid_packed (ss_eid s) octets"
    and "resp \<noteq> []" "upp \<noteq> []" "a_dec_prepare_download A resp = Some (DownloadResponseOk rok)"
      "download_checked M A s rok" "public_key M sk = Some otpk" "length otpk = 65"
    and "download_of M A S s (pd_euiccSigned2 rok) octets upp sk = Some (bpp, ks)"
  shows "rsp_dp_get_bound_profile_package M A S (Buf resp) (Buf upp) (Some sk) True w =
    (Inr (), w\<lparr>loc := \<lparr>do_session = Some (download_commit s ks), do_bpp = Buf bpp\<rparr>\<rparr>)"
  by (rule download_ok [OF assms])

theorem get_bound_profile_package_serves_witness:
  "\<exists>w'. rsp_dp_get_bound_profile_package toy_mbed toy_asn1 toy_sgp26 (Buf toy_resp2) (Buf toy_upp) (Some toy_sk) True
     toy_down_world = (Inr (), w')"
proof -
  have e: "pd_euiccSigned2 toy_rok2 = toy_es2" by (simp add: toy_rok2_def)
  have n: "toy_resp2 \<noteq> []" "toy_upp \<noteq> []" by (simp_all add: toy_resp2_def toy_tid_def toy_upp_def)
  have p: "public_key toy_mbed toy_sk = Some (toy_point 14)" by (simp add: toy_sk_def toy_public_key)
  have m: "ss_metadata_len toy_s2 \<le> 1007" by (simp add: toy_s2_ok)
  show ?thesis
    using get_bound_profile_package_serves [OF toy_down_world(1) toy_enc_laws toy_cipher_laws toy_hash_laws toy_ecdsa_laws
        toy_down_world(2) toy_s2_ok(1,2) m toy_s2_ok(7) toy_eid_packed [folded toy_s2_ok(6)] n toy_decode2
        toy_download_checked p, unfolded e, OF _ toy_download_of] by simp
qed

text \<open>C10. \<open>rsp_dp_initiate_authentication\<close>: when it succeeds, the requested address, if given, matched the server's own up to ASCII case, the response is the encoding of the five members signed with the DPauth key, and the new session carries the transaction and both challenges on top of whatever the allocator left in its memory; when it fails, the caller's session pointer is what it was, and the answer -1 is given only to a mismatch of the addresses, before anything has happened.\<close>

theorem initiate_authentication_spec:
  "wp (rsp_dp_initiate_authentication M A S junk chal info1 tid schal addr req ok)
    (\<lambda>_ w'. \<exists>t sc ad r bs. tid = Some t \<and> schal = Some sc \<and> addr = Some ad \<and>
       (\<forall>rq. req = Some rq \<longrightarrow> map fold_ascii ad = map fold_ascii rq) \<and> length (cdata chal) = 16 \<and>
       a_dec_euicc_info1 A (cdata info1) \<and>
       init_response_of M A S (server_signed1_of t (cdata chal) ad sc) = Some r \<and>
       a_enc_init_auth_ok A r = Some bs \<and> io_resp (loc w') = Buf (concat bs) \<and>
       io_session (loc w') = Some (junk\<lparr>ss_transaction_id := t, ss_euicc_challenge := cdata chal, ss_server_challenge := sc\<rparr>))
    (\<lambda>e w'. io_session (loc w') = io_session (loc w) \<and>
       (io_resp (loc w') = io_resp (loc w) \<or> io_resp (loc w') = Null 0) \<and>
       (e = Minus1 \<longrightarrow> w' = w \<and> (\<exists>ad rq. addr = Some ad \<and> req = Some rq \<and> map fold_ascii ad \<noteq> map fold_ascii rq))) w"
proof (rule wpI, goal_cases)
  case (1 u w')
  show ?case by (rule initiate_run [OF 1]) (auto simp: ascii_ieq_map)
next
  case (2 e w')
  then show ?case using initiate_fail [OF 2] initiate_no [of M A S junk chal info1 tid schal addr req ok w w'] by (auto simp: ascii_ieq_map)
qed

theorem initiate_authentication_spec_witness:
  "\<exists>r bs. init_response_of toy_mbed toy_asn1 toy_sgp26
      (server_signed1_of toy_tid toy_euicc_challenge [0x61] toy_challenge) = Some r \<and>
    a_enc_init_auth_ok toy_asn1 r = Some bs"
proof -
  obtain bs where "rsp_dp_initiate_authentication toy_mbed toy_asn1 toy_sgp26 zero_dp_session
      (Buf toy_euicc_challenge) (Buf [1]) (Some toy_tid) (Some toy_challenge) (Some [0x61]) (Some [0x41]) True toy_init_world =
      (Inr (), toy_init_world\<lparr>loc := \<lparr>io_session = Some toy_s1, io_resp = Buf bs\<rparr>\<rparr>)"
    by (rule toy_initiated)
  from wp_Inr [OF initiate_authentication_spec this] show ?thesis by auto
qed

text \<open>C11. \<open>rsp_dp_initiate_authentication\<close> succeeds on a good request: with a 16-octet challenge, a decodable EUICCInfo1, matching addresses and no operational failure it returns the signed response and a session.\<close>

theorem initiate_authentication_accepts:
  assumes "faults w = []" "enc_laws A" "length chal = 16" "info1 \<noteq> []" "a_dec_euicc_info1 A info1"
    and "\<forall>rq. req = Some rq \<longrightarrow> map fold_ascii ad = map fold_ascii rq"
    and "init_response_of M A S (server_signed1_of t chal ad sc) = Some r" "a_enc_init_auth_ok A r = Some bs"
  shows "rsp_dp_initiate_authentication M A S junk (Buf chal) (Buf info1) (Some t) (Some sc) (Some ad) req True w =
    (Inr (), w\<lparr>loc := \<lparr>io_session = Some (junk\<lparr>ss_transaction_id := t, ss_euicc_challenge := chal,
       ss_server_challenge := sc\<rparr>), io_resp = Buf (concat bs)\<rparr>\<rparr>)"
  using initiate_ok [OF assms(1-5) _ assms(7,8)] assms(6) by (simp add: ascii_ieq_map)

theorem initiate_authentication_accepts_witness:
  "\<exists>w'. rsp_dp_initiate_authentication toy_mbed toy_asn1 toy_sgp26 zero_dp_session (Buf toy_euicc_challenge) (Buf [1])
     (Some toy_tid) (Some toy_challenge) (Some [0x61]) (Some [0x41]) True toy_init_world = (Inr (), w')"
proof -
  obtain r bs where r: "init_response_of toy_mbed toy_asn1 toy_sgp26
      (server_signed1_of toy_tid toy_euicc_challenge [0x61] toy_challenge) = Some r" "a_enc_init_auth_ok toy_asn1 r = Some bs"
    using toy_init_response by blast
  have a: "a_dec_euicc_info1 toy_asn1 [1]" "\<forall>rq. Some [0x41] = Some rq \<longrightarrow> map fold_ascii [0x61] = map fold_ascii rq"
    by (simp_all add: fold_ascii_def toy_asn1_def)
  show ?thesis
    using initiate_authentication_accepts [OF toy_worlds(1) toy_enc_laws toy_sizes(3) _ a r] by blast
qed

text \<open>C12. Without cleared memory the release of a fresh session is undefined behaviour: \<open>rsp_dp_initiate_authentication\<close> sets three members of the block it allocates, so when the block's certificate or metadata pointer is indeterminate, \<open>rsp_dp_session_free\<close> on the session it returned frees that pointer; and the new session counts as authenticated when the block's flag happens to be set.\<close>

theorem fresh_session_indeterminate:
  assumes "rsp_dp_initiate_authentication M A S junk chal info1 t sc addr req ok w = (Inr u, w')"
    and "ss_euicc_cert junk = Wild \<or> ss_metadata junk = Wild"
  shows "\<exists>s. io_session (loc w') = Some s \<and> rsp_dp_session_free (Some s) v = (Inl Undefined, v) \<and>
    ss_authenticated s = ss_authenticated junk"
  by (rule initiate_keeps_junk [OF assms(1)]) (use assms(2) in \<open>auto intro: session_free_wild\<close>)

theorem fresh_session_indeterminate_witness:
  "\<exists>w' s. rsp_dp_initiate_authentication toy_mbed toy_asn1 toy_sgp26 (zero_dp_session\<lparr>ss_metadata := Wild\<rparr>)
     (Buf toy_euicc_challenge) (Buf [1]) (Some toy_tid) (Some toy_challenge) (Some [0x61]) None True toy_init_world = (Inr (), w') \<and>
   io_session (loc w') = Some s \<and> rsp_dp_session_free (Some s) toy_init_world = (Inl Undefined, toy_init_world)"
proof -
  obtain r bs where r: "init_response_of toy_mbed toy_asn1 toy_sgp26
      (server_signed1_of toy_tid toy_euicc_challenge [0x61] toy_challenge) = Some r" "a_enc_init_auth_ok toy_asn1 r = Some bs"
    using toy_init_response by blast
  have a: "[1] \<noteq> ([] :: bytes)" "a_dec_euicc_info1 toy_asn1 [1]" "\<forall>rq. None = Some rq \<longrightarrow> ascii_ieq [0x61] rq"
    by (simp_all add: toy_asn1_def)
  have w: "ss_euicc_cert (zero_dp_session\<lparr>ss_metadata := Wild\<rparr>) = Wild \<or> ss_metadata (zero_dp_session\<lparr>ss_metadata := Wild\<rparr>) = Wild"
    by simp
  note run = initiate_ok [OF toy_worlds(1) toy_enc_laws toy_sizes(3) a r, of "zero_dp_session\<lparr>ss_metadata := Wild\<rparr>"]
  from fresh_session_indeterminate [OF run w, of toy_init_world] run show ?thesis by blast
qed

section \<open>Installation results and notifications\<close>

text \<open>C13. \<open>rsp_dp_verify_installation_result\<close> believes only a genuine report of this download: when it succeeds, the session was authenticated, the report names its transaction, its 64-octet signature is good under the session's certificate over the data object exactly as it was received, and the outputs are what the report says; when it fails, it answers -1 or -2 and no output has changed.\<close>

theorem installation_result_spec:
  assumes "ber_laws A" "session_ok s"
  shows "wp (rsp_dp_verify_installation_result M A (Some s) pir True)
    (\<lambda>_ w'. \<exists>cert r. ss_authenticated s \<and> ss_euicc_cert s = Owned cert \<and>
       a_dec_installation_result A (cdata pir) = Some r \<and> pir_transactionId r = ss_transaction_id s \<and>
       pir_genuine M A cert (cdata pir) r \<and> pir_finalResult r \<noteq> NoResult \<and>
       loc w' = pir_report A (pir_finalResult r) (loc w))
    (\<lambda>e w'. e \<in> {Minus1, Minus2} \<and> loc w' = loc w) w"
  by (rule installation_result_wp [OF assms])

theorem installation_result_spec_witness:
  "pir_genuine toy_mbed toy_asn1 toy_euicc_cert toy_pir toy_result \<and> toy_pir \<noteq> []"
proof -
  have w: "faults \<lparr>faults = [], loc = \<lparr>po_installed = 0, po_command = None, po_reason = None\<rparr>\<rparr> = []" by simp
  have r: "pir_transactionId toy_result = ss_transaction_id toy_s2" "pir_finalResult toy_result \<noteq> NoResult"
    by (simp_all add: toy_result_def toy_s2_ok)
  note run = installation_result_ok [OF toy_ber_laws w toy_s2_ok(1,2,5) toy_pir_lengths toy_pir_def toy_pir_decode r(1) toy_pir_genuine r(2)]
  from wp_Inr [OF installation_result_spec [OF toy_ber_laws toy_s2_ok(1)] run]
  have "pir_genuine toy_mbed toy_asn1 toy_euicc_cert toy_pir toy_result" by (auto simp: toy_s2_ok toy_pir_decode)
  moreover have "toy_pir \<noteq> []" by (simp add: toy_pir_octets)
  ultimately show ?thesis by blast
qed

text \<open>C14. \<open>rsp_dp_verify_installation_result\<close> accepts a genuine report: a result for this session's transaction, correctly framed and signed, is reported when nothing fails operationally.\<close>

theorem installation_result_accepted:
  assumes "ber_laws A" "faults w = []" "session_ok s" "ss_authenticated s" "ss_euicc_cert s = Owned cert"
    and "length d \<le> 0xFFFFFFFF" "length (tlv [0xBF, 0x27] d @ rest) \<le> 0xFFFFFFFF"
      "n = tlv [0xBF, 0x37] (tlv [0xBF, 0x27] d @ rest)"
    and "a_dec_installation_result A n = Some r" "pir_transactionId r = ss_transaction_id s"
      "length (pir_euiccSignPIR r) = 64" "signature_good M cert (tlv [0xBF, 0x27] d) (pir_euiccSignPIR r)"
      "pir_finalResult r \<noteq> NoResult"
  shows "rsp_dp_verify_installation_result M A (Some s) (Buf n) True w =
    (Inr (), w\<lparr>loc := pir_report A (pir_finalResult r) (loc w)\<rparr>)"
proof -
  have "pir_genuine M A cert n r"
    using assms(11,12) pir_data_ok(2) [OF assms(1,2,6,7)] by (simp add: pir_genuine_def assms(8))
  then show ?thesis by (rule installation_result_ok [OF assms(1-10) _ assms(13)])
qed

theorem installation_result_accepted_witness:
  "\<exists>w'. rsp_dp_verify_installation_result toy_mbed toy_asn1 (Some toy_s2) (Buf toy_pir) True
     \<lparr>faults = [], loc = \<lparr>po_installed = 0, po_command = None, po_reason = None\<rparr>\<rparr> = (Inr (), w') \<and> po_installed (loc w') = 1"
proof -
  let ?w = "\<lparr>faults = [], loc = \<lparr>po_installed = 0, po_command = None, po_reason = None\<rparr>\<rparr>"
  have w: "faults ?w = []" by simp
  have r: "pir_transactionId toy_result = ss_transaction_id toy_s2" "pir_finalResult toy_result \<noteq> NoResult"
    "length (pir_euiccSignPIR toy_result) = 64"
    "signature_good toy_mbed toy_euicc_cert (tlv [0xBF, 0x27] toy_pir_data) (pir_euiccSignPIR toy_result)"
    by (simp_all add: toy_result_def toy_s2_ok toy_signs)
  from installation_result_accepted [OF toy_ber_laws w toy_s2_ok(1,2,5) toy_pir_lengths toy_pir_def toy_pir_decode r(1,3,4,2)]
  show ?thesis by (simp add: toy_result_def pir_report_def)
qed

text \<open>C15. \<open>rsp_dp_verify_notification\<close> believes only a genuine notification: when it succeeds, either it is a ProfileInstallationResult whose received data object the given certificate's key signed, or an OtherSignedNotification whose received tbs the key of the certificate it carries signed, that certificate chaining to the CI and being the given one if one was given; the output is what the decoded metadata says. When it fails, it answers -1 or -2 and reports nothing as installed.\<close>

theorem verify_notification_spec:
  assumes "ber_laws A"
  shows "wp (rsp_dp_verify_notification M A S cert n True)
    (\<lambda>_ w'. installation_genuine M A cert (cdata n) (loc w') \<or> other_genuine M A S cert (cdata n) (loc w'))
    (\<lambda>e w'. e \<in> {Minus1, Minus2} \<and> (loc w' = loc w \<or> rn_installed (loc w') = 0)) w"
  by (rule verify_notification_wp [OF assms])

theorem verify_notification_spec_witness:
  "installation_genuine toy_mbed toy_asn1 (Buf toy_euicc_cert) toy_pir toy_notification \<or>
   other_genuine toy_mbed toy_asn1 toy_sgp26 (Buf toy_euicc_cert) toy_pir toy_notification"
proof -
  let ?w = "\<lparr>faults = [], loc = clear_notification\<rparr>"
  have l: "2 \<le> length toy_pir" "take 2 toy_pir = [0xBF, 0x37]" by (simp_all add: toy_pir_octets numeral_2_eq_2)
  have "verify_installation_notification toy_mbed toy_asn1 (Buf toy_euicc_cert) toy_pir ?w = (Inr (), ?w\<lparr>loc := toy_notification\<rparr>)"
    by (rule installation_notification_ok [OF toy_ber_laws _ _ toy_pir_lengths toy_pir_def toy_installation_genuine]) simp_all
  then have "rsp_dp_verify_notification toy_mbed toy_asn1 toy_sgp26 (Buf toy_euicc_cert) (Buf toy_pir) True ?w =
      (Inr (), ?w\<lparr>loc := toy_notification\<rparr>)"
    using l(2) by (simp add: notification_arms [OF l(1) refl])
  from wp_Inr [OF verify_notification_spec [OF toy_ber_laws] this] show ?thesis by simp
qed

text \<open>C16. The reported operation is the number of the only set bit of the NotificationEvent, counted from the most significant bit of its first octet and leaving out the unused bits of the last, and -1 when no bit or several bits are set.\<close>

theorem notification_operation:
  assumes "unused \<le> 7" "length bs < 2 ^ 28"
  shows "byte_loop bs (length bs) unused 0 (-1) = (case event_bits bs unused of [p] \<Rightarrow> int p | _ \<Rightarrow> -1)"
  by (rule operation_spec [OF assms])

theorem notification_operation_witness: "byte_loop [0x80] (length [0x80 :: u8]) 4 0 (-1) = 0"
  using notification_operation [of 4 "[0x80]"] toy_event by simp

section \<open>A whole session with the test eUICC\<close>







text \<open>C20. What the eUICC reports comes out as it went in: a ProfileInstallationResult that \<open>build_installation_result\<close> makes for a session's transaction, of success or of failure, is accepted by \<open>rsp_dp_verify_installation_result\<close> in that session, which then holds the outcome with bppCommandId 5 and errorReason 12 for a failure, and by \<open>rsp_dp_verify_notification\<close> with the eUICC's certificate alone, which reports sequence number 1, the install event, the ICCID and the outcome.\<close>

theorem card_reports_accepted:
  assumes "card_laws A K" "ber_laws A" "ecdsa_laws M" "card_material M A S ec mc"
    and s: "session_ok s" "ss_authenticated s" "ss_euicc_cert s = Owned ec"
    and b: "build_installation_result M K (ss_transaction_id s) success cap w = (Inr pn, w')"
    and f: "faults v = []" "faults u = []"
  shows "rsp_dp_verify_installation_result M A (Some s) (Buf pn) True v = (Inr (), v\<lparr>loc :=
      (if success then (loc v)\<lparr>po_installed := 1\<rparr>
       else (loc v)\<lparr>po_installed := 0, po_command := map_option (\<lambda>_. 5) (po_command (loc v)),
                    po_reason := map_option (\<lambda>_. 12) (po_reason (loc v))\<rparr>)\<rparr>) \<and>
    rsp_dp_verify_notification M A S (Buf ec) (Buf pn) True u = (Inr (), u\<lparr>loc := card_notification_value success\<rparr>)"
proof -
  from computesD(1) [OF build_result_computes b] obtain d sig where
    "card_report_of M K (ss_transaction_id s) success = Some (d, sig)" "fits cap (c_enc_result K d sig) = Some pn"
    by (auto simp: bind_eq_Some_conv)
  from card_result_accepted [OF assms(1-4) this s f(1)] card_report_accepted [OF assms(1-4) this f(2)] show ?thesis by blast
qed

theorem card_reports_accepted_witness:
  "\<exists>pn. rsp_dp_verify_notification card_mbed card_asn1 card_sgp26 (Buf card_euicc_der) (Buf pn) True
      \<lparr>faults = [], loc = clear_notification\<rparr> = (Inr (), \<lparr>faults = [], loc = card_notification_value True\<rparr>)"
proof -
  let ?s = "fixture_s2 zero_dp_session card_euicc_der [1] (replicate 64 0)"
  let ?w = "\<lparr>faults = [], loc = ()\<rparr>"
  obtain pn where pn: "pending_of card_mbed card_toy = Some pn" by (rule card_pending_some)
  have b: "build_installation_result card_mbed card_toy TRANSACTION_ID True 1024 ?w = (Inr pn, ?w)"
    by (rule computesD(3) [OF build_result_computes]) (use pn in \<open>simp_all add: pending_of_def\<close>)
  have t: "ss_transaction_id ?s = TRANSACTION_ID" "ss_euicc_cert ?s = Owned card_euicc_der"
    by (simp_all add: fixture_s2_def fixture_s1_def)
  have "card_euicc_der \<noteq> []" using card_material_good by (simp add: card_material_def)
  then have s: "session_ok ?s" "ss_authenticated ?s" using fixture_s2_ok [OF toy_junk] by simp_all
  have l: "card_laws card_asn1 card_toy" "ecdsa_laws card_mbed" "ber_laws card_asn1"
    using replay_lawsD(2,5,8) [OF card_replay_laws] by blast+
  from card_reports_accepted [OF l(1,3,2) card_material_good s t(2) b [folded t(1)],
      of "\<lparr>faults = [], loc = \<lparr>po_installed = 0, po_command = None, po_reason = None\<rparr>\<rparr>" "\<lparr>faults = [], loc = clear_notification\<rparr>"]
  show ?thesis by auto
qed



section \<open>Bound Profile Packages\<close>

text \<open>C22. \<open>rsp_bpp_build\<close> implements \<open>bpp_of\<close>, the layout of SGP.22 2.5.4: when it succeeds, the octets and the session are those of \<open>bpp_of\<close> (the signed key-agreement request, ConfigureISDP under '87', the metadata under '88', the profile's chunks of 1007 octets under '86', all in the [54] envelope), and there was a profile and metadata that fits one segment.\<close>

theorem bpp_build_spec:
  assumes "loc w = Some s" "session_wf s" "cipher_laws M"
  shows "wp (rsp_bpp_build M A (Some inp) True)
    (\<lambda>out w'. \<exists>s'. bpp_of M A s inp = Some (out, s') \<and> loc w' = Some s' \<and>
       cdata (bi_upp inp) \<noteq> [] \<and> cdata (bi_metadata inp) \<noteq> [] \<and> length (cdata (bi_metadata inp)) \<le> 1007)
    (\<lambda>_ _. True) w"
proof (rule wpI, goal_cases)
  case (1 out w')
  show ?case by (rule bpp_build_run [OF 1 assms]) blast
qed simp

theorem bpp_build_spec_witness:
  "\<exists>out s'. rsp_bpp_build toy_mbed toy_asn1 (Some toy_input) True (toy_run toy_session) = (Inr out, (toy_run toy_session)\<lparr>loc := Some s'\<rparr>) \<and>
     bpp_of toy_mbed toy_asn1 toy_session toy_input = Some (out, s')"
proof -
  obtain out s' where b: "bpp_of toy_mbed toy_asn1 toy_session toy_input = Some (out, s')" using toy_input_package by blast
  note run = bpp_build_ok [OF toy_run_simps toy_session_wf toy_cipher_laws toy_input_ok b]
  from wp_Inr [OF bpp_build_spec [OF toy_run_simps(2) toy_session_wf toy_cipher_laws] run] run show ?thesis by auto
qed

text \<open>C23. \<open>rsp_bpp_build\<close> succeeds whenever the package exists: for complete inputs whose metadata fits one segment and a profile whose package has a four-octet length, it returns that package when nothing fails operationally.\<close>

theorem bpp_build_succeeds:
  assumes "faults w = []" "loc w = Some s" "session_wf s" "cipher_laws M" "input_ok inp" "bpp_of M A s inp = Some (out, s')"
  shows "rsp_bpp_build M A (Some inp) True w = (Inr out, w\<lparr>loc := Some s'\<rparr>)"
  by (rule bpp_build_ok [OF assms])

theorem bpp_build_succeeds_witness:
  "\<exists>out w'. rsp_bpp_build toy_mbed toy_asn1 (Some toy_input) True (toy_run toy_session) = (Inr out, w')"
  using toy_input_package bpp_build_succeeds [OF toy_run_simps toy_session_wf toy_cipher_laws toy_input_ok] by blast



text \<open>C25. Every package that \<open>rsp_bpp_build\<close> returns is recovered by \<open>rsp_bpp_recover\<close> from a session in the same state: the profile comes back octet for octet, and both sides end in the same session.\<close>

theorem bpp_roundtrip:
  assumes build: "rsp_bpp_build M A (Some inp) True v = (Inr out, v')" and v: "loc v = Some s"
    and w: "faults w = []" "loc w = Some s" and s: "session_wf s" and inp: "input_ok inp"
    and M: "cipher_laws M" and A: "ber_laws A" "isc_codec_law A"
  shows "rsp_bpp_recover M A (Buf out) True w = (Inr (bi_upp inp), w\<lparr>loc := loc v'\<rparr>)"
proof -
  obtain s' where s': "bpp_of M A s inp = Some (out, s')" "loc v' = Some s'"
    by (rule bpp_build_run [OF build v s M])
  show ?thesis using recover_built [OF w s M A inp s'(1)] s'(2) by simp
qed

theorem bpp_roundtrip_witness:
  "\<exists>out w'. rsp_bpp_build toy_mbed toy_asn1 (Some toy_input) True (toy_run toy_session) = (Inr out, w') \<and>
     rsp_bpp_recover toy_mbed toy_asn1 (Buf out) True (toy_run toy_session) = (Inr (Buf toy_upp), w')"
proof -
  obtain out s' where "bpp_of toy_mbed toy_asn1 toy_session toy_input = Some (out, s')" using toy_input_package by blast
  note run = bpp_build_ok [OF toy_run_simps toy_session_wf toy_cipher_laws toy_input_ok this]
  from bpp_roundtrip [OF run toy_run_simps(2) toy_run_simps toy_session_wf toy_input_ok toy_cipher_laws toy_ber_laws toy_isc_law] run
  show ?thesis by (auto simp: toy_input_def)
qed





section \<open>SCP03t\<close>

text \<open>C28. A sequence of SCP03t segments, each encrypted or only MACed and each under its own tag, that one session protects is unprotected by a receiving session that starts in the same state: every plaintext comes back, and both sides end in the same session state.\<close>

theorem scp03t_roundtrip:
  assumes "cipher_laws M" "session_wf s" "\<forall>(k, p) \<in> set items. length p + 24 \<le> 0xFFFFFFFF"
    and "faults w = []" "loc w = Some s"
  shows "\<exists>cs s'. map_cm (\<lambda>(k, p). protect_kind M k p) items w = (Inr cs, w\<lparr>loc := Some s'\<rparr>) \<and>
    map_cm (\<lambda>(k, c). unprotect_kind M k c) (zip (map fst items) cs) w
      = (Inr (map snd items), w\<lparr>loc := Some s'\<rparr>) \<and> session_wf s' \<and> length cs = length items"
  using scp.channel_all [of M s items w] assms by blast

theorem scp03t_roundtrip_witness:
  "\<exists>cs s'. map_cm (\<lambda>(k, p). protect_kind toy_mbed k p) [(Encrypted 0x86, [1, 2, 3]), (MacOnly 0x88, [4])]
      (toy_run toy_session) = (Inr cs, (toy_run toy_session)\<lparr>loc := Some s'\<rparr>) \<and>
    map_cm (\<lambda>(k, c). unprotect_kind toy_mbed k c) (zip [Encrypted 0x86, MacOnly 0x88] cs)
      (toy_run toy_session) = (Inr [[1, 2, 3], [4]], (toy_run toy_session)\<lparr>loc := Some s'\<rparr>)"
  using scp03t_roundtrip [OF toy_cipher_laws toy_session_wf,
      of "[(Encrypted 0x86, [1, 2, 3]), (MacOnly 0x88, [4])]" "toy_run toy_session"] by fastforce

text \<open>C29. \<open>rsp_unprotect\<close> accepts only genuine segments: when it succeeds, the last eight octets are the CMAC of chaining value, tag, length and ciphertext under the session's S-MAC, the ciphertext is a whole number of blocks that decrypts to the plaintext followed by its padding, the plaintext fits the caller's buffer, and the session moves on by this segment's full CMAC. When it fails, the session is what it was.\<close>

theorem unprotect_genuine:
  assumes "cipher_laws M" "session_wf s" "loc w = Some s"
  shows "wp (rsp_unprotect M (Buf seg) tag (Some cap))
    (\<lambda>p w'. \<exists>ct. seg = ct @ take 8 (mac_of M s tag ct) \<and> length ct mod 16 = 0 \<and>
       m_cbc_dec M (s_enc s) (m_aes_ecb M (s_enc s) (enc_counter s)) ct = scp03t_pad p \<and>
       length p \<le> cap \<and> loc w' = Some (session_step s (mac_of M s tag ct)))
    (\<lambda>e w'. e \<in> {Minus1, Minus2} \<and> loc w' = Some s) w"
proof (rule wpI)
  fix p w' assume "rsp_unprotect M (Buf seg) tag (Some cap) w = (Inr p, w')"
  from unprotect_run [OF this assms(3,2,1)]
  show "\<exists>ct. seg = ct @ take 8 (mac_of M s tag ct) \<and> length ct mod 16 = 0 \<and>
       m_cbc_dec M (s_enc s) (m_aes_ecb M (s_enc s) (enc_counter s)) ct = scp03t_pad p \<and>
       length p \<le> cap \<and> loc w' = Some (session_step s (mac_of M s tag ct))"
    by (metis option.sel)
qed (use unprotect_fail assms(3) in fastforce)

theorem unprotect_genuine_witness:
  "\<exists>ct. sealed toy_mbed 0x86 toy_session [1, 2, 3] = ct @ take 8 (mac_of toy_mbed toy_session 0x86 ct)"
proof -
  let ?seg = "sealed toy_mbed 0x86 toy_session [1, 2, 3]"
  have "rsp_unprotect toy_mbed (Buf ?seg) 0x86 (Some 100) (toy_run toy_session) =
      (Inr [1, 2, 3], (toy_run toy_session)\<lparr>loc := Some (after_seal toy_mbed 0x86 toy_session [1, 2, 3])\<rparr>)"
    by (rule unprotect_sealed [OF _ _ toy_session_wf toy_cipher_laws]) simp_all
  from wp_Inr [OF unprotect_genuine [OF toy_cipher_laws toy_session_wf toy_run_simps(2)] this]
  show ?thesis by blast
qed



text \<open>C31. The ICV counter counts the segments: over any sequence of segment operations, with any arguments and any failures, the keys S-ENC and S-MAC stay what they were and the encryption counter, read as a 128-bit big-endian number, has moved on by the number of operations that succeeded, modulo \<open>2 ^ 128\<close>. A failed operation uses up no counter value.\<close>

theorem channel_counts:
  assumes "cipher_laws M" "loc w = Some s" "session_wf s" "list_all is_segment_call calls"
  shows "\<exists>bs w' s'. map_cm (channel_run M) calls w = (Inr bs, w') \<and> loc w' = Some s' \<and> s_enc s' = s_enc s \<and> s_mac s' = s_mac s \<and>
    be_val (enc_counter s') = (be_val (enc_counter s) + length (filter (\<lambda>b. b) bs)) mod 2 ^ 128 \<and> length bs = length calls"
  by (rule segment_calls [OF assms])

theorem channel_counts_witness:
  "\<exists>bs w' s'. map_cm (channel_run toy_mbed) [Protect (Buf [1, 2]) 0x86 (Some 10), Unprotect (Null 0) 0x86 None,
      ProtectMacOnly (Buf [1]) 0x88 (Some 100)] (toy_run toy_session) = (Inr bs, w') \<and> loc w' = Some s' \<and>
     s_enc s' = s_enc toy_session \<and> length bs = 3"
  using channel_counts [OF toy_cipher_laws toy_run_simps(2) toy_session_wf,
      of "[Protect (Buf [1, 2]) 0x86 (Some 10), Unprotect (Null 0) 0x86 None, ProtectMacOnly (Buf [1]) 0x88 (Some 100)]"]
  by force

text \<open>C32. \<open>rsp_protect\<close> makes the segment of SGP.22 2.5.3: on success the result is the CBC encryption of the padded plaintext under the ICV of the current counter, followed by eight octets of its MAC, it is \<open>16 - n mod 16 + 8\<close> octets longer than the plaintext and fits the caller's buffer, and the session's chaining value and counter have moved on; on failure, which is -1, the session is what it was.\<close>

theorem protect_spec:
  assumes "session_wf s" "loc w = Some s" "cipher_laws M"
  shows "wp (rsp_protect M (Buf p) tag (Some cap))
    (\<lambda>out w'. out = sealed M tag s p \<and> length out = length p + (16 - length p mod 16) + 8 \<and> length out \<le> cap \<and>
       loc w' = Some (after_seal M tag s p))
    (\<lambda>e w'. e = Minus1 \<and> loc w' = Some s) w"
proof (rule wpI, goal_cases)
  case (1 out w')
  have "length out \<le> cap" using protect_safely(1) [OF assms(3), of "Buf p" tag cap] 1 unfolding safely_def by blast
  with protect_run [OF 1 assms(2,1)] length_sealed [OF assms(3)] show ?case by simp
next
  case (2 e w')
  then show ?case using protect_fail [OF 2] assms(2) by simp
qed

theorem protect_spec_witness: "length (sealed toy_mbed 0x86 toy_session [1, 2, 3]) = 24"
proof -
  have "rsp_protect toy_mbed (Buf [1, 2, 3]) 0x86 (Some 100) (toy_run toy_session) =
      (Inr (sealed toy_mbed 0x86 toy_session [1, 2, 3]), (toy_run toy_session)\<lparr>loc := Some (after_seal toy_mbed 0x86 toy_session [1, 2, 3])\<rparr>)"
    by (rule protect_ok [OF toy_run_simps toy_session_wf toy_cipher_laws]) simp_all
  from wp_Inr [OF protect_spec [OF toy_session_wf toy_run_simps(2) toy_cipher_laws] this] show ?thesis by simp
qed

section \<open>Keys and signatures\<close>

text \<open>C33. \<open>rsp_kdf_x963\<close> computes the X9.63 derivation: for any output length, the output is the prefix of the concatenated hashes of the secret, the 32-bit big-endian block number from 1 on, and the SharedInfo; when it fails, either nothing has been written or the whole output has been zeroed.\<close>

theorem kdf_spec:
  assumes "hash_laws M" "loc w = Buf out" "out \<noteq> []"
  shows "wp (rsp_kdf_x963 M (Buf z) (Buf info))
    (\<lambda>_ w'. loc w' = Buf (kdf_value M z info (length out)) \<and> length (kdf_value M z info (length out)) = length out)
    (\<lambda>e w'. loc w' = loc w \<or> loc w' = Buf (replicate (length out) 0)) w"
proof (rule wpI, goal_cases)
  case (1 u w')
  show ?case using kdf_run [OF 1 assms] length_kdf_value [OF assms(1)] by simp
next
  case (2 e w')
  show ?case using kdf_fail [OF 2 assms(2,1)] by auto
qed

theorem kdf_spec_witness: "length (kdf_value toy_mbed [1, 2] [3] 40) = 40"
proof -
  let ?w = "\<lparr>faults = [], loc = Buf (replicate 40 0)\<rparr>"
  have w: "faults ?w = []" "loc ?w = Buf (replicate 40 0)" "replicate 40 (0 :: u8) \<noteq> []" by simp_all
  have "length [1, 2 :: u8] + 4 + length [3 :: u8] \<le> size_max" by (simp add: size_max_def)
  note run = kdf_ok [OF toy_hash_laws w(1,2) this]
  from wp_Inr [OF kdf_spec [OF toy_hash_laws w(2,3)] run] show ?thesis by simp
qed

text \<open>C34. \<open>rsp_session_init\<close>: on success the session holds the chaining value, S-ENC and S-MAC cut from 48 octets of the derivation over the ECDH secret, and a counter of one; on failure it is wiped, so no key material of a half-finished derivation stays behind.\<close>

theorem session_init_spec:
  assumes "hash_laws M" "loc w = Some s0"
  shows "wp (rsp_session_init M (Some sk) (Some pk) (Buf info))
    (\<lambda>_ w'. \<exists>z. ecdh_value M sk pk = Some z \<and> loc w' = Some (session_of (kdf_value M z info 48)) \<and>
       session_wf (session_of (kdf_value M z info 48)))
    (\<lambda>e w'. loc w' = Some zero_session) w"
proof (rule wpI, goal_cases)
  case (1 u w')
  obtain z where "ecdh_value M sk pk = Some z" "loc w' = Some (session_of (kdf_value M z info 48))"
    by (rule session_init_run [OF 1 assms(1)])
  then show ?case using session_of_wf [OF length_kdf_value [OF assms(1)]] by blast
next
  case (2 e w')
  show ?case by (rule session_init_fail [OF 2 assms(2)])
qed

theorem session_init_spec_witness:
  "\<exists>w' z. rsp_session_init toy_mbed (Some toy_sk) (Some (toy_point 13)) (Buf (shared_info_of toy_octets)) (toy_run zero_session) = (Inr (), w') \<and>
     loc w' = Some (session_of (kdf_value toy_mbed z (shared_info_of toy_octets) 48))"
proof -
  obtain ks where "session_keys toy_mbed toy_sk (toy_point 13) toy_octets = Some ks" using toy_session_keys by blast
  note run = session_keys_init [OF toy_hash_laws toy_ecdsa_laws toy_run_simps this, of zero_session]
  have "length toy_octets = 16" by (simp add: toy_octets_def)
  from wp_Inr [OF session_init_spec [OF toy_hash_laws toy_run_simps(2)] run [OF this]] run [OF this] show ?thesis by blast
qed

text \<open>C35. \<open>rsp_pki_verify\<close> decides the credential: it accepts only a credential whose certificate chains to the test CI and whose private scalar belongs to the certificate's public key, and without operational failure it accepts every such credential; otherwise it answers -1 or -2 and changes nothing.\<close>

theorem pki_verify_decides:
  "wp (rsp_pki_verify M S (Some c)) (\<lambda>_ w'. credential_good M S c \<and> loc w' = loc w)
     (\<lambda>e w'. e \<in> {Minus1, Minus2} \<and> loc w' = loc w \<and> (faults w = [] \<longrightarrow> \<not> credential_good M S c)) w"
proof (rule wpI, goal_cases)
  case (1 u w')
  then show ?case by (rule pki_verify_run)
next
  case (2 e w')
  then show ?case using pki_verify_fail [OF 2] pki_verify_ok [of w M S c] by fastforce
qed

theorem pki_verify_decides_witness:
  "credential_good toy_mbed toy_sgp26 toy_credential \<and>
   rsp_pki_verify toy_mbed toy_sgp26 (Some toy_credential) (toy_run toy_session) = (Inr (), toy_run toy_session)"
proof -
  have v: "rsp_pki_verify toy_mbed toy_sgp26 (Some toy_credential) (toy_run toy_session) = (Inr (), toy_run toy_session)"
    using pki_verify_ok [OF toy_run_simps(1)] toy_credential_good by blast
  from wp_Inr [OF pki_verify_decides v] v show ?thesis by blast
qed

section \<open>The dump tool\<close>



section \<open>Encodings and buffers\<close>

text \<open>C37. The DER length octets are a minimal prefix code: decoding them by the rule of X.690 8.1.3 gives the length back whatever follows, no other encoding of the same length is shorter, and the only lengths refused are those over \<open>0xFFFFFFFF\<close>.\<close>

theorem der_length_code:
  "(case rsp_der_length_octets n of
      None \<Rightarrow> 0xFFFFFFFF < n
    | Some lo \<Rightarrow> n \<le> 0xFFFFFFFF \<and> der_length_value (lo @ rest) = Some (length lo, n) \<and>
        (case der_length_value other of Some (m, n') \<Rightarrow> n' = n \<longrightarrow> length lo \<le> m | None \<Rightarrow> True))"
  using der_length_decode [of n] der_length_minimal [of n] der_length_refused [of n]
  by (auto split: option.splits)

theorem der_length_code_witness:
  "rsp_der_length_octets 300 = Some [0x82, 1, 44] \<and> der_length_value ([0x82, 1, 44] @ [7]) = Some (3, 300)"
proof -
  have "rsp_der_length_octets 300 = Some [0x82, 1, 44]" by (simp add: rsp_der_length_octets_def drop_bit_eq_div)
  with der_length_code [of 300 "[7]" "[]"] show ?thesis by simp
qed

text \<open>C38. \<open>rsp_growbuf_append\<close>: on a valid buffer and within half the address space it returns, without allocation failure with the data appended and the old octets kept; past that, from an empty buffer, its doubling loop wraps to zero and never ends.\<close>

theorem growbuf_append_returns:
  assumes "gb_ok g"
  shows "(length (gb_bytes g) + length d \<le> 2 ^ 63 \<longrightarrow>
      wp (rsp_growbuf_append g d) (\<lambda>g' w'. gb_ok g' \<and> gb_bytes g' = gb_bytes g @ d)
        (\<lambda>e w'. e = Minus1 \<and> faults w \<noteq> []) w) \<and>
    (2 ^ 63 < length d \<and> length d < 2 ^ 64 \<longrightarrow> rsp_growbuf_append empty_growbuf d w = (Inl Diverges, w))"
proof (intro conjI impI)
  assume l: "length (gb_bytes g) + length d \<le> 2 ^ 63"
  show "wp (rsp_growbuf_append g d) (\<lambda>g' w'. gb_ok g' \<and> gb_bytes g' = gb_bytes g @ d) (\<lambda>e w'. e = Minus1 \<and> faults w \<noteq> []) w"
  proof (rule wpI, goal_cases)
    case (1 g' w')
    show ?case using growbuf_append_run [OF assms 1] by blast
  next
    case (2 e w')
    show ?case using growbuf_append_code [OF assms l 2] growbuf_append_total [OF assms _ l, of w] 2 by auto
  qed
qed (auto intro: growbuf_append_hangs)

theorem growbuf_append_returns_witness:
  "wp (rsp_growbuf_append empty_growbuf [1, 2, 3]) (\<lambda>g' w'. gb_ok g' \<and> gb_bytes g' = [1, 2, 3])
     (\<lambda>e w'. e = Minus1 \<and> faults (toy_run toy_session) \<noteq> []) (toy_run toy_session)"
  using growbuf_append_returns [OF gb_ok_empty(1), of "[1, 2, 3]" "toy_run toy_session"] by simp

text \<open>C39. The two field readers cut a response apart as it was put together: from a SEQUENCE of five members (the authenticate response inside one more TLV), with any octets after the fifth member or after the whole, they return exactly the five members, tag and length included.\<close>

theorem fields_cut:
  assumes "tlv_ok t v" "tlv_ok t1 v1" "tlv_ok t2 v2" "tlv_ok t3 v3" "tlv_ok t4 v4" "tlv_ok t5 v5"
    and "v = tlv t1 v1 @ tlv t2 v2 @ tlv t3 v3 @ tlv t4 v4 @ tlv t5 v5 @ extra" "tlv_ok t0 (tlv t v @ after)"
  shows "wp (rsp_dp_initiate_fields (Buf (tlv t v @ post)) True)
      (\<lambda>f w'. w' = w \<and> map (slice (tlv t v @ post)) (field_list f) = [tlv t1 v1, tlv t2 v2, tlv t3 v3, tlv t4 v4, tlv t5 v5])
      (\<lambda>_ _. False) w \<and>
    wp (rsp_dp_authenticate_fields (Buf (tlv t0 (tlv t v @ after) @ post)) True)
      (\<lambda>f w'. w' = w \<and> map (slice (tlv t0 (tlv t v @ after) @ post)) (field_list f) =
        [tlv t1 v1, tlv t2 v2, tlv t3 v3, tlv t4 v4, tlv t5 v5])
      (\<lambda>_ _. False) w"
  using initiate_fields_cut [OF assms(1-7)] authenticate_fields_cut [OF assms(8,1-6,7)] by blast

theorem fields_cut_witness:
  "wp (rsp_dp_initiate_fields (Buf (tlv [0x30] (tlv [0x80] [1] @ tlv [0x5F, 0x37] [2] @ tlv [0x30] [] @ tlv [4] [3] @ tlv [4] [5] @ [9]) @ [7])) True)
     (\<lambda>f w'. w' = toy_run toy_session \<and>
        map (slice (tlv [0x30] (tlv [0x80] [1] @ tlv [0x5F, 0x37] [2] @ tlv [0x30] [] @ tlv [4] [3] @ tlv [4] [5] @ [9]) @ [7])) (field_list f) =
          [tlv [0x80] [1], tlv [0x5F, 0x37] [2], tlv [0x30] [], tlv [4] [3], tlv [4] [5]])
     (\<lambda>_ _. False) (toy_run toy_session)"
proof -
  have t: "tlv_ok [0x80] [1]" "tlv_ok [0x5F, 0x37] [2]" "tlv_ok [0x30] []" "tlv_ok [4] [3]" "tlv_ok [4] [5]"
    "tlv_ok [0x30] (tlv [0x80] [1] @ tlv [0x5F, 0x37] [2] @ tlv [0x30] [] @ tlv [4] [3] @ tlv [4] [5] @ [9])"
    "tlv_ok [0xBF, 0x3B] (tlv [0x30] (tlv [0x80] [1] @ tlv [0x5F, 0x37] [2] @ tlv [0x30] [] @ tlv [4] [3] @ tlv [4] [5] @ [9]) @ [])"
    by (simp_all add: tlv_ok_def tag_class_num_def tlv_def rsp_der_length_octets_def)
  show ?thesis using fields_cut [OF t(6,1-5) refl t(7)] by blast
qed

text \<open>C40. The field readers never read outside the response, whatever its octets: they answer -1 or -2, or cut five non-empty fields that follow one another inside it.\<close>

theorem fields_inside:
  "wp (rsp_dp_initiate_fields resp out_ok)
      (\<lambda>f w'. w' = w \<and> (\<exists>start. chained start (field_list f) (length (cdata resp)))) (\<lambda>e w'. e \<in> {Minus1, Minus2} \<and> w' = w) w \<and>
   wp (rsp_dp_authenticate_fields resp out_ok)
      (\<lambda>f w'. w' = w \<and> (\<exists>start. chained start (field_list f) (length (cdata resp)))) (\<lambda>e w'. e \<in> {Minus1, Minus2} \<and> w' = w) w"
  by (rule conjI [OF initiate_fields_wp authenticate_fields_wp])

section \<open>Further results\<close>

text \<open>The transaction id and both challenges are fixed for the life of a session: no later call changes them.\<close>

theorem es9_transaction_fixed:
  assumes "es9_reach M A S junk (Some s)" "es9_step M A S junk (Some s) (Some s')" "junk_clean junk"
    "cipher_laws M" "hash_laws M" "ecdsa_laws M"
  shows "ss_transaction_id s' = ss_transaction_id s \<and> ss_euicc_challenge s' = ss_euicc_challenge s \<and>
    ss_server_challenge s' = ss_server_challenge s"
  by (rule es9_step_frame [OF assms(2) es9_reach_ok [OF assms(1,3-6)] assms(4,5)])

theorem es9_transaction_fixed_witness: "ss_transaction_id toy_s2 = ss_transaction_id toy_s1"
  using es9_transaction_fixed [OF es9_reach.step [OF es9_reach.start toy_reach(1)] toy_reach(2) toy_junk
      toy_cipher_laws toy_hash_laws toy_ecdsa_laws] by blast

text \<open>\<open>rsp_dp_verify_notification\<close> accepts a genuine installation notification: one whose framing is correct and that is signed under the given certificate is reported as its metadata says, when nothing fails operationally.\<close>

theorem installation_notification_accepted:
  assumes "ber_laws A" "faults w = []" "length d \<le> 0xFFFFFFFF" "length (tlv [0xBF, 0x27] d @ rest) \<le> 0xFFFFFFFF"
    "n = tlv [0xBF, 0x37] (tlv [0xBF, 0x27] d @ rest)" "installation_genuine M A cert n out"
  shows "rsp_dp_verify_notification M A S cert (Buf n) True w = (Inr (), w\<lparr>loc := out\<rparr>)"
proof -
  have n: "take 2 n = [0xBF, 0x37]" using assms(6) by (simp add: installation_genuine_def)
  moreover from n have "2 \<le> length n" by (cases n rule: remdups_adj.cases) (auto simp: numeral_2_eq_2)
  moreover have "verify_installation_notification M A cert n (w\<lparr>loc := clear_notification\<rparr>) = (Inr (), w\<lparr>loc := out\<rparr>)"
    using installation_notification_ok [OF assms(1) _ _ assms(3-6), of "w\<lparr>loc := clear_notification\<rparr>"] assms(2) by simp
  ultimately show ?thesis by (simp add: notification_arms [OF _ refl])
qed

theorem installation_notification_accepted_witness:
  "rsp_dp_verify_notification toy_mbed toy_asn1 toy_sgp26 (Buf toy_euicc_cert) (Buf toy_pir) True
     \<lparr>faults = [], loc = clear_notification\<rparr> = (Inr (), \<lparr>faults = [], loc = toy_notification\<rparr>)"
  using installation_notification_accepted [OF toy_ber_laws _ toy_pir_lengths toy_pir_def toy_installation_genuine,
      of "\<lparr>faults = [], loc = clear_notification\<rparr>" toy_sgp26] by simp

text \<open>\<open>rsp_dp_notification_metadata\<close>, which verifies nothing, never reports a Profile as installed; its only refusal is -2, and what it reports is what the decoded metadata of one of the two arms says.\<close>

theorem notification_metadata_spec:
  "wp (rsp_dp_notification_metadata A n out_ok)
    (\<lambda>_ w'. rn_installed (loc w') = 0 \<and>
       ((\<exists>r. a_dec_installation_result A (cdata n) = Some r \<and>
          map_option (\<lambda>o'. o'\<lparr>rn_is_installation_result := 1\<rparr>) (meta_of A (pir_metadata r)) = Some (loc w')) \<or>
        (\<exists>r. a_dec_other_notification A (cdata n) = Some r \<and> meta_of A (osn_tbs r) = Some (loc w'))))
    (\<lambda>e w'. e = Minus2 \<and> (loc w' = loc w \<or> rn_installed (loc w') = 0)) w"
  by (rule wp_mono [OF metadata_wp]) auto

text \<open>\<open>rsp_unprotect_mac_only\<close> accepts exactly what \<open>rsp_protect_mac_only\<close> of the same session makes: when it succeeds, the segment is the plaintext followed by its MAC, and the session moves on by it; when it fails, the session is what it was.\<close>

theorem unprotect_mac_only_genuine:
  assumes "session_wf s" "loc w = Some s"
  shows "wp (rsp_unprotect_mac_only M (Buf seg) tag oc)
    (\<lambda>p w'. seg = macced M tag s p \<and> loc w' = Some (after_mac M tag s p))
    (\<lambda>e w'. e \<in> {Minus1, Minus2} \<and> loc w' = Some s) w"
proof (rule wpI, goal_cases)
  case (1 p w')
  show ?case using unprotect_mac_only_run [OF 1 assms(2,1)] by blast
next
  case (2 e w')
  then show ?case using unprotect_mac_only_fail [OF 2] assms(2) by simp
qed

theorem unprotect_mac_only_genuine_witness:
  "macced toy_mbed 0x88 toy_session [4] = [4] @ take 8 (mac_of toy_mbed toy_session 0x88 [4])"
proof -
  have "rsp_unprotect_mac_only toy_mbed (Buf (macced toy_mbed 0x88 toy_session [4])) 0x88 (Some 10) (toy_run toy_session) =
      (Inr [4], (toy_run toy_session)\<lparr>loc := Some (after_mac toy_mbed 0x88 toy_session [4])\<rparr>)"
    by (rule unprotect_mac_only_macced [OF toy_run_simps toy_session_wf toy_cipher_laws]) simp_all
  from wp_Inr [OF unprotect_mac_only_genuine [OF toy_session_wf toy_run_simps(2)] this] show ?thesis
    by (simp add: macced_def)
qed

text \<open>The encryption counter counts: read as a 128-bit big-endian number, \<open>scp03t_counter_advance\<close> adds one modulo \<open>2 ^ 128\<close> and keeps its sixteen octets.\<close>

theorem counter_counts:
  assumes "length c = 16"
  shows "be_val (scp03t_counter_advance c) = (be_val c + 1) mod 2 ^ 128 \<and> length (scp03t_counter_advance c) = 16"
  using counter_advance_val [OF assms] assms by simp

theorem counter_counts_witness: "be_val (scp03t_counter_advance (replicate 16 255)) = 0"
proof -
  have "be_val (replicate n 255) + 1 = 256 ^ n" for n by (induction n) simp_all
  from this [of 16] counter_counts [of "replicate 16 255"] show ?thesis by simp
qed

text \<open>Both sides of the key agreement get the same session: the keys derived from one side's secret and the other side's public one-time key do not depend on which side derives them.\<close>

theorem both_sides_agree:
  assumes "ecdh_laws M" "public_key M a = Some pa" "public_key M b = Some pb"
    and "hash_laws M" "ecdsa_laws M" "length octets = 16" "session_keys M a pb octets = Some ks"
    and "faults v = []" "loc v = Some s0"
  shows "rsp_session_init M (Some a) (Some pb) (Buf (shared_info_of octets)) v = (Inr (), v\<lparr>loc := Some ks\<rparr>) \<and>
    rsp_session_init M (Some b) (Some pa) (Buf (shared_info_of octets)) v = (Inr (), v\<lparr>loc := Some ks\<rparr>)"
  using session_keys_init [OF assms(4,5,8,9) _ assms(6)] session_keys_agree [OF assms(1-3)] assms(7) by simp

theorem both_sides_agree_witness:
  "\<exists>ks. rsp_session_init toy_mbed (Some (be_bytes 32 13)) (Some (toy_point 14)) (Buf (shared_info_of toy_octets)) (toy_run zero_session)
     = (Inr (), toy_run ks)"
proof -
  obtain ks where k: "session_keys toy_mbed toy_sk (toy_point 13) toy_octets = Some ks" using toy_session_keys by blast
  have p: "public_key toy_mbed toy_sk = Some (toy_point 14)" "public_key toy_mbed (be_bytes 32 13) = Some (toy_point 13)"
    "length toy_octets = 16"
    by (simp_all add: toy_sk_def toy_public_key toy_octets_def)
  from both_sides_agree [OF toy_ecdh_laws p(1,2) toy_hash_laws toy_ecdsa_laws p(3) k toy_run_simps, of zero_session]
  show ?thesis by (auto simp: toy_run_def)
qed

text \<open>A credential that \<open>rsp_pki_verify\<close> accepts, with a certificate on P-256, makes signatures that \<open>rsp_sign_verify\<close> accepts under that certificate: what \<open>rsp_sign\<close> returns verifies.\<close>

theorem sign_verifies:
  assumes "faults v = []" "rsp_pki_verify M S (Some c) v = (Inr (), v)" "ecdsa_laws M"
    and "\<forall>crt g q. m_crt_parse M (rsp_accept_certificate_policies M) (cdata (cr_der c)) = Some crt \<longrightarrow>
        m_crt_ec M crt = Some (g, q) \<longrightarrow> g = m_p256 M"
    and "rsp_sign M (Some c) (Buf tbs) True u = (Inr sig, u')" "faults w = []"
  shows "length sig = 64 \<and> rsp_sign_verify M (Buf (cdata (cr_der c))) (Buf tbs) (Some sig) w = (Inr (), w)"
proof -
  have c: "credential_good M S c" using assms(2) pki_verify_ok [OF assms(1)] by blast
  have s: "sign_value M (cr_sk c) tbs = Some sig" using sign_run [OF assms(5)] by simp
  have "signature_good M (cdata (cr_der c)) tbs sig" by (rule signed_is_good [OF assms(3) c s]) (use assms(4) in blast)
  then show ?thesis using verify_ok [OF assms(6)] sign_value_length [OF assms(3) s] by blast
qed

theorem sign_verifies_witness:
  "\<exists>sig. rsp_sign toy_mbed (Some toy_credential) (Buf [1, 2]) True (toy_run toy_session) = (Inr sig, toy_run toy_session) \<and>
     rsp_sign_verify toy_mbed (Buf (dppb_der toy_sgp26)) (Buf [1, 2]) (Some sig) (toy_run toy_session) = (Inr (), toy_run toy_session)"
proof -
  have v: "rsp_pki_verify toy_mbed toy_sgp26 (Some toy_credential) (toy_run toy_session) = (Inr (), toy_run toy_session)"
    using pki_verify_ok [OF toy_run_simps(1)] toy_credential_good by blast
  obtain sig where "rsp_sign toy_mbed (Some toy_credential) (Buf [1, 2]) True (toy_run toy_session) = (Inr sig, toy_run toy_session)"
    using toy_signature [of 6] by (simp add: sign_ok toy_credential_def)
  with sign_verifies [OF toy_run_simps(1) v toy_ecdsa_laws _ this toy_run_simps(1), of toy_session]
  show ?thesis by (auto simp: toy_credential_def)
qed

text \<open>\<open>eid_digits_to_octets\<close> packs the EID: a 32-digit EID becomes the sixteen octets whose hexadecimal digits are its digits, there is only one such octet string, and anything else is refused with -1.\<close>

theorem eid_packing:
  assumes "length eid = 32" "n \<le> 32"
  shows "wp (eid_digits_to_octets eid n 16)
    (\<lambda>out w'. w' = w \<and> n = 32 \<and> eid_packed eid out \<and> (\<forall>x. eid_packed eid x \<longrightarrow> x = out))
    (\<lambda>e w'. e = Minus1 \<and> w' = w \<and> (n \<noteq> 32 \<or> \<not> list_all is_digit eid)) w"
  by (rule wp_mono [OF eid_octets_wp [OF assms]]) (use eid_packed_unique in blast)+

theorem eid_packing_witness:
  "eid_digits_to_octets toy_eid 32 16 (toy_run toy_session) = (Inr toy_octets, toy_run toy_session) \<and> eid_packed toy_eid toy_octets"
proof -
  have run: "eid_digits_to_octets toy_eid 32 16 (toy_run toy_session) = (Inr toy_octets, toy_run toy_session)"
    by (rule eid_octets_ok [OF _ toy_eid_packed]) simp
  from wp_Inr [OF eid_packing [of toy_eid 32] run] run show ?thesis by simp
qed

end
